(* ===== verification/Prelude.thy ===== *)
theory Prelude
  imports Main "HOL-Library.AList"
begin

section \<open>Prelude: errors, association lists, shared automation\<close>

text \<open>
  What every component shares: the error values that replace Go's \<open>error\<close>
  interface, the association lists that replace Go's maps where the code iterates
  over them, and the fact collections the component proofs rewrite with.
\<close>

subsection \<open>Fact collections\<close>

named_theorems frame_simps \<open>what an operation leaves unchanged\<close>
named_theorems inv_intros \<open>operations that keep the well-formedness invariants\<close>
named_theorems outcome_simps \<open>the outcome of an operation on each of its branches\<close>

subsection \<open>Errors as values\<close>

text \<open>
  A Go error is kept as its structure instead of its text: the sentinel it unwraps to
  (what \<open>errors.Is\<close> can see), the format string of the call that built it and the
  arguments of that call (a long format may be cut to its leading words). \<open>Wrap\<close> is \<open>fmt.Errorf\<close> with a \<open>%w\<close> verb: it adds text
  and keeps the sentinel of its cause.
\<close>

datatype errkind = KNotFound | KCanceled | KOther

datatype err =
    Err errkind string "string list"
  | Wrap string "string list" err

primrec errKind :: "err \<Rightarrow> errkind" where
  "errKind (Err k f as) = k"
| "errKind (Wrap f as e) = errKind e"

definition isNotFoundErr :: "err \<Rightarrow> bool" where
  "isNotFoundErr e \<longleftrightarrow> errKind e = KNotFound"

definition isCanceledErr :: "err \<Rightarrow> bool" where
  "isCanceledErr e \<longleftrightarrow> errKind e = KCanceled"

definition errorf :: "string \<Rightarrow> string list \<Rightarrow> err" where
  "errorf f as = Err KOther f as"

lemma errKind_errorf [simp]: "errKind (errorf f as) = KOther"
  by (simp add: errorf_def)

lemma isNotFoundErr_Wrap [simp]: "isNotFoundErr (Wrap f as e) = isNotFoundErr e"
  by (simp add: isNotFoundErr_def)

lemma isCanceledErr_Wrap [simp]: "isCanceledErr (Wrap f as e) = isCanceledErr e"
  by (simp add: isCanceledErr_def)

lemma isNotFoundErr_Err [simp]: "isNotFoundErr (Err k f as) \<longleftrightarrow> k = KNotFound"
  by (simp add: isNotFoundErr_def)

lemma isCanceledErr_Err [simp]: "isCanceledErr (Err k f as) \<longleftrightarrow> k = KCanceled"
  by (simp add: isCanceledErr_def)

lemma isNotFoundErr_errorf [simp]: "\<not> isNotFoundErr (errorf f as)"
  by (simp add: isNotFoundErr_def)

text \<open>A chain of checks passes when each of them does.\<close>

lemma first_error_None [simp]:
  "(case x of None \<Rightarrow> y | Some e \<Rightarrow> Some (f e)) = None \<longleftrightarrow> x = None \<and> y = None"
  by (cases x) simp_all

subsection \<open>Association lists as iterable maps\<close>

text \<open>
  A Go map the code ranges over is an association list with distinct keys: the list's
  order is the iteration order the runtime happened to pick. \<open>AList.update\<close> and
  \<open>AList.delete\<close> are the map's assignment and \<open>delete\<close>; \<open>map_of\<close> is the lookup.
\<close>

definition keysOf :: "('k \<times> 'v) list \<Rightarrow> 'k list" where
  "keysOf m = map fst m"

lemma keysOf_Nil [simp]: "keysOf [] = []"
  by (simp add: keysOf_def)

lemma keysOf_Cons [simp]: "keysOf (p # m) = fst p # keysOf m"
  by (simp add: keysOf_def)

lemma set_keysOf: "set (keysOf m) = dom (map_of m)"
  by (simp add: keysOf_def dom_map_of_conv_image_fst)

lemma map_of_AList_update [simp]:
  "map_of (AList.update k v m) = (map_of m)(k \<mapsto> v)"
  by (rule update_conv')

lemma map_of_AList_delete [simp]:
  "map_of (AList.delete k m) = (map_of m)(k := None)"
  by (rule delete_conv')

lemma distinct_keysOf_update [intro]:
  "distinct (keysOf m) \<Longrightarrow> distinct (keysOf (AList.update k v m))"
  by (simp add: keysOf_def distinct_update)

lemma distinct_keysOf_delete [intro]:
  "distinct (keysOf m) \<Longrightarrow> distinct (keysOf (AList.delete k m))"
  by (simp add: keysOf_def distinct_delete)

lemma map_of_map_snd:
  "map_of (map (\<lambda>(k, v). (k, f k v)) m) k = map_option (f k) (map_of m k)"
  by (induction m) auto

lemma keysOf_map_snd [simp]: "keysOf (map (\<lambda>(k, v). (k, f k v)) m) = keysOf m"
  by (induction m) auto

lemma map_of_rev_distinct:
  "distinct (map fst m) \<Longrightarrow> map_of (rev m) = map_of m"
  by (subst map_of_inject_set) (simp_all add: rev_map [symmetric])

lemma set_pair_map_of:
  "distinct (keysOf m) \<Longrightarrow> (k, v) \<in> set m \<longleftrightarrow> map_of m k = Some v"
  by (simp add: keysOf_def)

end
