(* ===== verification/GoStrings.thy ===== *)
theory GoStrings
  imports Prelude "HOL-Library.Sublist"
begin

section \<open>The Go string functions the driver uses\<close>

text \<open>
  Go strings are byte strings, and so is Isabelle's \<open>string\<close> (a list of 8-bit
  characters). This theory models the functions of the packages \<open>strings\<close> and
  \<open>strconv\<close> the driver calls, byte for byte. An index is an option: \<open>None\<close> is
  Go's \<open>-1\<close>.
\<close>

subsection \<open>Prefixes, suffixes, indices\<close>

definition HasPrefix :: "string \<Rightarrow> string \<Rightarrow> bool" where
  "HasPrefix s p \<longleftrightarrow> prefix p s"

definition HasSuffix :: "string \<Rightarrow> string \<Rightarrow> bool" where
  "HasSuffix s p \<longleftrightarrow> suffix p s"

definition TrimPrefix :: "string \<Rightarrow> string \<Rightarrow> string" where
  "TrimPrefix s p = (if HasPrefix s p then drop (length p) s else s)"

definition TrimSuffix :: "string \<Rightarrow> string \<Rightarrow> string" where
  "TrimSuffix s p = (if HasSuffix s p then take (length s - length p) s else s)"

fun Index :: "string \<Rightarrow> string \<Rightarrow> nat option" where
  "Index [] p = (if p = [] then Some 0 else None)"
| "Index (c # s) p = (if prefix p (c # s) then Some 0 else map_option Suc (Index s p))"

definition Contains :: "string \<Rightarrow> string \<Rightarrow> bool" where
  "Contains s p \<longleftrightarrow> Index s p \<noteq> None"

definition ContainsAny :: "string \<Rightarrow> string \<Rightarrow> bool" where
  "ContainsAny s cs \<longleftrightarrow> list_ex (\<lambda>c. c \<in> set cs) s"

text \<open>\<open>LastIndex\<close> is only used with one-byte separators.\<close>

fun LastIndex :: "string \<Rightarrow> char \<Rightarrow> nat option" where
  "LastIndex [] c = None"
| "LastIndex (x # s) c =
     (case LastIndex s c of
        Some i \<Rightarrow> Some (Suc i)
      | None \<Rightarrow> (if x = c then Some 0 else None))"

lemma HasPrefix_append [simp]: "HasPrefix (p @ s) p"
  by (simp add: HasPrefix_def)

lemma HasPrefix_iff: "HasPrefix s p \<longleftrightarrow> (\<exists>r. s = p @ r)"
  by (auto simp: HasPrefix_def prefix_def)

lemma TrimPrefix_append [simp]: "TrimPrefix (p @ s) p = s"
  by (simp add: TrimPrefix_def)

lemma Index_Some:
  "Index s p = Some i \<Longrightarrow> i \<le> length s \<and> prefix p (drop i s)"
  by (induction s arbitrary: i) (auto split: if_splits)

lemma Index_Some_split:
  assumes "Index s p = Some i"
  shows "s = take i s @ p @ drop (i + length p) s"
proof -
  from Index_Some [OF assms] obtain r where r: "drop i s = p @ r"
    by (auto simp: prefix_def)
  then have "drop (length p) (drop i s) = r" by simp
  then have "r = drop (i + length p) s" by (simp add: add.commute)
  with r show ?thesis by (metis append_take_drop_id)
qed

lemma Index_None: "Index s p = None \<Longrightarrow> \<not> prefix p (drop i s)"
proof (induction s arbitrary: i)
  case Nil
  then show ?case by (auto split: if_splits)
next
  case (Cons c s)
  then show ?case by (cases i) (auto split: if_splits)
qed

lemma Contains_iff: "Contains s p \<longleftrightarrow> (\<exists>us vs. s = us @ p @ vs)"
proof
  assume "Contains s p"
  then obtain i where "Index s p = Some i" by (auto simp: Contains_def)
  from Index_Some_split [OF this] show "\<exists>us vs. s = us @ p @ vs" by blast
next
  assume "\<exists>us vs. s = us @ p @ vs"
  then obtain us vs where "s = us @ p @ vs" by blast
  then have "prefix p (drop (length us) s)" by simp
  then show "Contains s p" using Index_None by (auto simp: Contains_def)
qed

lemma Index_least:
  "Index s p = Some i \<Longrightarrow> j < i \<Longrightarrow> \<not> prefix p (drop j s)"
proof (induction s arbitrary: i j)
  case Nil
  then show ?case by (auto split: if_splits)
next
  case (Cons c s)
  then show ?case by (cases j) (auto split: if_splits)
qed

lemma LastIndex_None: "LastIndex s c = None \<longleftrightarrow> c \<notin> set s"
  by (induction s) (auto split: option.splits)

lemma LastIndex_Some:
  "LastIndex s c = Some i \<Longrightarrow> i < length s \<and> s ! i = c \<and> c \<notin> set (drop (Suc i) s)"
proof (induction s arbitrary: i)
  case Nil
  then show ?case by simp
next
  case (Cons x s)
  show ?case
  proof (cases "LastIndex s c")
    case None
    with Cons.prems have "x = c" "i = 0" by (simp_all split: if_splits)
    with None show ?thesis by (simp add: LastIndex_None)
  next
    case (Some j)
    with Cons.prems have "i = Suc j" by simp
    with Cons.IH [OF Some] show ?thesis by simp
  qed
qed

subsection \<open>Split and Join\<close>

text \<open>\<open>strings.Split\<close> with a one-byte separator: always at least one piece.\<close>

fun splitOn :: "char \<Rightarrow> string \<Rightarrow> string list" where
  "splitOn c [] = [[]]"
| "splitOn c (x # s) =
     (if x = c then [] # splitOn c s
      else (case splitOn c s of [] \<Rightarrow> [[x]] | w # ws \<Rightarrow> (x # w) # ws))"

fun joinWith :: "string \<Rightarrow> string list \<Rightarrow> string" where
  "joinWith sep [] = []"
| "joinWith sep [w] = w"
| "joinWith sep (w # v # ws) = w @ sep @ joinWith sep (v # ws)"

lemma splitOn_nonempty [simp]: "splitOn c s \<noteq> []"
  by (induction s) (auto split: list.splits)

lemma joinWith_Cons:
  "ws \<noteq> [] \<Longrightarrow> joinWith sep (w # ws) = w @ sep @ joinWith sep ws"
  by (cases ws) auto

lemma joinWith_splitOn [simp]: "joinWith [c] (splitOn c s) = s"
proof (induction s)
  case Nil
  then show ?case by simp
next
  case (Cons x s)
  show ?case
  proof (cases "splitOn c s")
    case Nil
    then show ?thesis by simp
  next
    case (Cons w ws)
    with Cons.IH show ?thesis by (cases ws) auto
  qed
qed

lemma splitOn_no_sep: "w \<in> set (splitOn c s) \<Longrightarrow> c \<notin> set w"
proof (induction s arbitrary: w)
  case Nil
  then show ?case by simp
next
  case (Cons x s)
  then show ?case by (auto split: if_splits list.splits)
qed

lemma splitOn_id: "c \<notin> set s \<Longrightarrow> splitOn c s = [s]"
  by (induction s) auto

lemma splitOn_append:
  "c \<notin> set w \<Longrightarrow> splitOn c (w @ c # s) = w # splitOn c s"
  by (induction w) auto

lemma splitOn_joinWith:
  "ws \<noteq> [] \<Longrightarrow> (\<And>w. w \<in> set ws \<Longrightarrow> c \<notin> set w) \<Longrightarrow> splitOn c (joinWith [c] ws) = ws"
proof (induction ws)
  case Nil
  then show ?case by simp
next
  case (Cons w ws)
  show ?case
  proof (cases ws)
    case Nil
    with Cons.prems show ?thesis by (simp add: splitOn_id)
  next
    case (Cons v vs)
    then have "splitOn c (joinWith [c] ws) = ws"
      using Cons.IH Cons.prems by simp
    with Cons Cons.prems show ?thesis by (simp add: splitOn_append)
  qed
qed

subsection \<open>White space\<close>

text \<open>
  \<open>unicode.IsSpace\<close>: the UTF-8 encodings of the code points Go treats as white
  space (the six ASCII ones, U+0085, U+00A0, U+1680, U+2000..U+200A, U+2028, U+2029,
  U+202F, U+205F and U+3000). UTF-8 is self-synchronising, so matching these byte
  strings at the ends is what decoding runes there does.
\<close>

definition spaceRunes :: "string list" where
  "spaceRunes =
     [[CHR 0x09], [CHR 0x0A], [CHR 0x0B], [CHR 0x0C], [CHR 0x0D], [CHR 0x20],
      [CHR 0xC2, CHR 0x85], [CHR 0xC2, CHR 0xA0], [CHR 0xE1, CHR 0x9A, CHR 0x80],
      [CHR 0xE2, CHR 0x80, CHR 0x80], [CHR 0xE2, CHR 0x80, CHR 0x81],
      [CHR 0xE2, CHR 0x80, CHR 0x82], [CHR 0xE2, CHR 0x80, CHR 0x83],
      [CHR 0xE2, CHR 0x80, CHR 0x84], [CHR 0xE2, CHR 0x80, CHR 0x85],
      [CHR 0xE2, CHR 0x80, CHR 0x86], [CHR 0xE2, CHR 0x80, CHR 0x87],
      [CHR 0xE2, CHR 0x80, CHR 0x88], [CHR 0xE2, CHR 0x80, CHR 0x89],
      [CHR 0xE2, CHR 0x80, CHR 0x8A], [CHR 0xE2, CHR 0x80, CHR 0xA8],
      [CHR 0xE2, CHR 0x80, CHR 0xA9], [CHR 0xE2, CHR 0x80, CHR 0xAF],
      [CHR 0xE2, CHR 0x81, CHR 0x9F], [CHR 0xE3, CHR 0x80, CHR 0x80]]"

text \<open>Drop one of the byte strings \<open>ws\<close> from the front, if one is there.\<close>

fun dropOne :: "string list \<Rightarrow> string \<Rightarrow> string option" where
  "dropOne [] s = None"
| "dropOne (w # ws) s =
     (if w \<noteq> [] \<and> prefix w s then Some (drop (length w) s) else dropOne ws s)"

lemma dropOne_shorter: "dropOne ws s = Some r \<Longrightarrow> length r < length s"
  by (induction ws) (auto simp: prefix_def split: if_splits)

function trimLeftOf :: "string list \<Rightarrow> string \<Rightarrow> string" where
  "trimLeftOf ws s = (case dropOne ws s of None \<Rightarrow> s | Some r \<Rightarrow> trimLeftOf ws r)"
  by pat_completeness auto
termination
  by (relation "measure (\<lambda>(ws, s). length s)") (auto dest: dropOne_shorter)

declare trimLeftOf.simps [simp del]

definition trimRightOf :: "string list \<Rightarrow> string \<Rightarrow> string" where
  "trimRightOf ws s = rev (trimLeftOf (map rev ws) (rev s))"

definition TrimSpace :: "string \<Rightarrow> string" where
  "TrimSpace s = trimRightOf spaceRunes (trimLeftOf spaceRunes s)"

text \<open>\<open>strings.Trim\<close> and \<open>strings.TrimRight\<close> with an ASCII cutset.\<close>

definition TrimRightSet :: "string \<Rightarrow> string \<Rightarrow> string" where
  "TrimRightSet s cs = rev (dropWhile (\<lambda>c. c \<in> set cs) (rev s))"

definition TrimSet :: "string \<Rightarrow> string \<Rightarrow> string" where
  "TrimSet s cs = TrimRightSet (dropWhile (\<lambda>c. c \<in> set cs) s) cs"

lemma dropOne_suffix: "dropOne ws s = Some r \<Longrightarrow> suffix r s"
  by (induction ws) (auto simp: suffix_drop split: if_splits)

lemma trimLeftOf_suffix: "suffix (trimLeftOf ws s) s"
proof (induction ws s rule: trimLeftOf.induct)
  case (1 ws s)
  show ?case
  proof (cases "dropOne ws s")
    case None
    then show ?thesis by (simp add: trimLeftOf.simps [of ws s])
  next
    case (Some r)
    then have "suffix (trimLeftOf ws r) r" by (rule 1)
    moreover from Some have "suffix r s" by (rule dropOne_suffix)
    ultimately have "suffix (trimLeftOf ws r) s" by (rule suffix_order.trans)
    then show ?thesis using Some by (simp add: trimLeftOf.simps [of ws s])
  qed
qed

lemma trimLeftOf_stop: "dropOne ws (trimLeftOf ws s) = None"
proof (induction ws s rule: trimLeftOf.induct)
  case (1 ws s)
  then show ?case
    by (cases "dropOne ws s") (simp_all add: trimLeftOf.simps [of ws s])
qed

lemma trimLeftOf_idem [simp]: "trimLeftOf ws (trimLeftOf ws s) = trimLeftOf ws s"
  using trimLeftOf_stop [of ws s] by (simp add: trimLeftOf.simps [of ws "trimLeftOf ws s"])

lemma trimRightOf_prefix: "prefix (trimRightOf ws s) s"
  using trimLeftOf_suffix [of "map rev ws" "rev s"]
  by (simp add: trimRightOf_def suffix_to_prefix)

lemma TrimSpace_Nil [simp]: "TrimSpace [] = []"
proof -
  have "trimLeftOf ws [] = []" for ws
    using trimLeftOf_suffix [of ws "[]"] by simp
  then show ?thesis by (simp add: TrimSpace_def trimRightOf_def)
qed

lemma TrimSpace_sublist: "\<exists>us vs. s = us @ TrimSpace s @ vs"
proof -
  obtain us where us: "s = us @ trimLeftOf spaceRunes s"
    using trimLeftOf_suffix [of spaceRunes s] by (auto simp: suffix_def)
  obtain vs where "trimLeftOf spaceRunes s = TrimSpace s @ vs"
    using trimRightOf_prefix [of spaceRunes "trimLeftOf spaceRunes s"]
    by (auto simp: TrimSpace_def prefix_def)
  with us show ?thesis by metis
qed

text \<open>\<open>strings.Fields\<close>: the maximal runs without white space.\<close>

fun spanWord :: "string \<Rightarrow> string \<times> string" where
  "spanWord [] = ([], [])"
| "spanWord (c # s) =
     (if dropOne spaceRunes (c # s) \<noteq> None then ([], c # s)
      else (let (w, r) = spanWord s in (c # w, r)))"

lemma spanWord_append: "spanWord s = (w, r) \<Longrightarrow> s = w @ r"
  by (induction s arbitrary: w r) (auto split: if_splits prod.splits)

lemma Fields_shorter:
  assumes "trimLeftOf spaceRunes s = c # t" and "(w, r) = spanWord (c # t)"
  shows "length r < length s"
proof -
  have "dropOne spaceRunes (c # t) = None"
    using trimLeftOf_stop [of spaceRunes s] assms(1) by simp
  then obtain w' where "spanWord t = (w', r)"
    using assms(2) by (auto split: prod.splits)
  then have "length r \<le> length t" using spanWord_append by fastforce
  moreover have "length (c # t) \<le> length s"
    using trimLeftOf_suffix [of spaceRunes s] assms(1) by (metis suffix_length_le)
  ultimately show ?thesis by simp
qed

function Fields :: "string \<Rightarrow> string list" where
  "Fields s =
     (case trimLeftOf spaceRunes s of
        [] \<Rightarrow> []
      | c # t \<Rightarrow> (let (w, r) = spanWord (c # t) in w # Fields r))"
  by pat_completeness auto
termination
  by (relation "measure length") (auto dest: Fields_shorter)

declare Fields.simps [simp del]

text \<open>Text that starts and ends with visible ASCII is not trimmed.\<close>

definition visible :: "char \<Rightarrow> bool" where
  "visible c \<longleftrightarrow> 33 \<le> (of_char c :: nat) \<and> (of_char c :: nat) < 128"

lemma dropOne_visible:
  assumes "list_all (\<lambda>w. w \<noteq> [] \<and> \<not> visible (hd w)) ws" and "visible (hd s)"
  shows "dropOne ws s = None"
  using assms(1)
proof (induction ws)
  case (Cons w ws)
  then have "\<not> prefix w s" using assms(2) by (cases w; cases s) auto
  with Cons show ?case by simp
qed simp

lemma trimLeftOf_visible:
  "list_all (\<lambda>w. w \<noteq> [] \<and> \<not> visible (hd w)) ws \<Longrightarrow> visible (hd s) \<Longrightarrow> trimLeftOf ws s = s"
  by (simp add: trimLeftOf.simps [of ws s] dropOne_visible)

lemma TrimSpace_visible:
  assumes "s \<noteq> []" and "visible (hd s)" and "visible (last s)"
  shows "TrimSpace s = s"
proof -
  have "list_all (\<lambda>w. w \<noteq> [] \<and> \<not> visible (hd w)) spaceRunes"
    "list_all (\<lambda>w. w \<noteq> [] \<and> \<not> visible (hd w)) (map rev spaceRunes)"
    by code_simp+
  with assms show ?thesis
    by (simp add: TrimSpace_def trimRightOf_def trimLeftOf_visible hd_rev)
qed

subsection \<open>Runes\<close>

text \<open>
  UTF-8 as \<open>range\<close> over a string and \<open>[]rune(s)\<close> decode it: a byte that does not start a
  well-formed sequence is the replacement rune U+FFFD, one byte long.
\<close>

abbreviation byteOf :: "char \<Rightarrow> nat" where
  "byteOf c \<equiv> of_char c"

definition isCont :: "char \<Rightarrow> bool" where
  "isCont c \<longleftrightarrow> 0x80 \<le> byteOf c \<and> byteOf c \<le> 0xBF"

text \<open>The number of bytes of the well-formed sequence at the front; 0 if there is none.\<close>

definition seqLength :: "string \<Rightarrow> nat" where
  "seqLength s =
     (case s of
        [] \<Rightarrow> 0
      | a # r \<Rightarrow>
          (let n = byteOf a;
               b = (case r of x # _ \<Rightarrow> byteOf x | [] \<Rightarrow> 0);
               conts = length (takeWhile isCont r)
           in if n < 0x80 then 1
              else if 0xC2 \<le> n \<and> n \<le> 0xDF \<and> 1 \<le> conts then 2
              else if 0xE0 \<le> n \<and> n \<le> 0xEF \<and> 2 \<le> conts
                      \<and> (n = 0xE0 \<longrightarrow> 0xA0 \<le> b) \<and> (n = 0xED \<longrightarrow> b \<le> 0x9F) then 3
              else if 0xF0 \<le> n \<and> n \<le> 0xF4 \<and> 3 \<le> conts
                      \<and> (n = 0xF0 \<longrightarrow> 0x90 \<le> b) \<and> (n = 0xF4 \<longrightarrow> b \<le> 0x8F) then 4
              else 0))"

text \<open>A rune is kept as its UTF-8 encoding.\<close>

definition replacementRune :: string where
  "replacementRune = [CHR 0xEF, CHR 0xBF, CHR 0xBD]"

function runes :: "string \<Rightarrow> string list" where
  "runes [] = []"
| "runes (c # s) =
     (if seqLength (c # s) = 0 then replacementRune # runes s
      else take (seqLength (c # s)) (c # s) # runes (drop (seqLength (c # s)) (c # s)))"
  by pat_completeness auto
termination
  by (relation "measure length") auto

declare runes.simps [simp del]

lemma runes_Nil [simp]: "runes [] = []"
  by (simp add: runes.simps)

lemma runes_ascii: "list_all (\<lambda>c. byteOf c < 0x80) s \<Longrightarrow> runes s = map (\<lambda>c. [c]) s"
  by (induction s) (simp_all add: runes.simps seqLength_def)

lemma runes_wf: "r \<in> set (runes s) \<Longrightarrow> r \<noteq> [] \<and> length r \<le> 4"
proof (induction s rule: runes.induct)
  case (2 c s)
  have "seqLength (c # s) \<le> 4" by (simp add: seqLength_def Let_def)
  then show ?case
    using 2 by (cases "seqLength (c # s) = 0")
      (auto simp: runes.simps(2) [of c s] replacementRune_def)
qed simp

subsection \<open>Case folding\<close>

text \<open>
  \<open>strings.ToLower\<close> as far as a comparison with ASCII text can see it: the ASCII
  capitals, and the two other code points whose lower case is an ASCII letter
  (U+0130 gives \<open>i\<close>, U+212A gives \<open>k\<close>). Every other rune maps to a rune outside ASCII.
\<close>

definition lowerChar :: "char \<Rightarrow> char" where
  "lowerChar c =
     (let n = (of_char c :: nat) in if 65 \<le> n \<and> n \<le> 90 then char_of (n + 32) else c)"

fun toLowerASCII :: "string \<Rightarrow> string" where
  "toLowerASCII (a # b # c # s) =
     (if [a, b] = [CHR 0xC4, CHR 0xB0] then CHR ''i'' # toLowerASCII (c # s)
      else if [a, b, c] = [CHR 0xE2, CHR 0x84, CHR 0xAA]
        then CHR ''k'' # toLowerASCII s
      else lowerChar a # toLowerASCII (b # c # s))"
| "toLowerASCII [a, b] =
     (if [a, b] = [CHR 0xC4, CHR 0xB0] then ''i''
      else [lowerChar a, lowerChar b])"
| "toLowerASCII s = map lowerChar s"

subsection \<open>Decimal integers\<close>

definition isDigit :: "char \<Rightarrow> bool" where
  "isDigit c \<longleftrightarrow> 48 \<le> (of_char c :: nat) \<and> (of_char c :: nat) \<le> 57"

definition digitVal :: "char \<Rightarrow> nat" where
  "digitVal c = of_char c - 48"

definition digitChar :: "nat \<Rightarrow> char" where
  "digitChar n = char_of (48 + n)"

fun digitsVal :: "nat \<Rightarrow> string \<Rightarrow> nat" where
  "digitsVal acc [] = acc"
| "digitsVal acc (c # s) = digitsVal (acc * 10 + digitVal c) s"

fun natString :: "nat \<Rightarrow> string" where
  "natString n = (if n < 10 then [digitChar n] else natString (n div 10) @ [digitChar (n mod 10)])"

declare natString.simps [simp del]

text \<open>\<open>strconv.FormatInt(n, 10)\<close>.\<close>

definition intString :: "int \<Rightarrow> string" where
  "intString i = (if i < 0 then CHR ''-'' # natString (nat (- i)) else natString (nat i))"

text \<open>\<open>strconv.ParseInt(s, 10, 64)\<close> and \<open>strconv.Atoi\<close> on a 64-bit platform.\<close>

definition parseNat :: "string \<Rightarrow> nat option" where
  "parseNat s = (if s \<noteq> [] \<and> list_all isDigit s then Some (digitsVal 0 s) else None)"

definition Atoi :: "string \<Rightarrow> int option" where
  "Atoi s =
     (case s of
        [] \<Rightarrow> None
      | c # t \<Rightarrow>
          (if c = CHR ''-'' then
             (case parseNat t of
                None \<Rightarrow> None
              | Some n \<Rightarrow> (if int n \<le> 2 ^ 63 then Some (- int n) else None))
           else
             (case parseNat (if c = CHR ''+'' then t else s) of
                None \<Rightarrow> None
              | Some n \<Rightarrow> (if int n < 2 ^ 63 then Some (int n) else None))))"

subsection \<open>Integer literals: \<open>strconv.ParseInt(s, 0, 64)\<close> and \<open>ParseBool\<close>\<close>

definition isHexLetter :: "char \<Rightarrow> bool" where
  "isHexLetter c \<longleftrightarrow> lowerChar c \<in> set ''abcdef''"

definition hexVal :: "char \<Rightarrow> nat" where
  "hexVal c = of_char (lowerChar c) - 87"

text \<open>Digit separators: one underscore, between digits or after a base prefix.\<close>

datatype saw = SawStart | SawDigit | SawUnder | SawOther

fun underscoresFrom :: "bool \<Rightarrow> saw \<Rightarrow> string \<Rightarrow> bool" where
  "underscoresFrom hex w [] = (w \<noteq> SawUnder)"
| "underscoresFrom hex w (c # s) =
     (if isDigit c \<or> hex \<and> isHexLetter c then underscoresFrom hex SawDigit s
      else if c = CHR ''_'' then w = SawDigit \<and> underscoresFrom hex SawUnder s
      else w \<noteq> SawUnder \<and> underscoresFrom hex SawOther s)"

definition underscoreOK :: "string \<Rightarrow> bool" where
  "underscoreOK s =
     (case s of
        a # b # r \<Rightarrow>
          (if a = CHR ''0'' \<and> lowerChar b \<in> set ''box''
           then underscoresFrom (lowerChar b = CHR ''x'') SawDigit r
           else underscoresFrom False SawStart s)
      | _ \<Rightarrow> underscoresFrom False SawStart s)"

text \<open>The value of an unsigned literal in its own base; underscores have been checked.\<close>

fun baseDigits :: "nat \<Rightarrow> nat \<Rightarrow> string \<Rightarrow> nat option" where
  "baseDigits b acc [] = Some acc"
| "baseDigits b acc (c # s) =
     (if c = CHR ''_'' then baseDigits b acc s
      else (let d = (if isDigit c then digitVal c
                     else if 97 \<le> (of_char (lowerChar c) :: nat) \<and> (of_char (lowerChar c) :: nat) \<le> 122
                     then of_char (lowerChar c) - 87 else b)
            in if d < b then baseDigits b (acc * b + d) s else None))"

definition parseBase0 :: "string \<Rightarrow> nat option" where
  "parseBase0 s =
     (let (b, ds) = (case s of
                       z # c # r \<Rightarrow>
                         (if z \<noteq> CHR ''0'' then (10, s)
                          else if lowerChar c = CHR ''b'' \<and> r \<noteq> [] then (2, r)
                          else if lowerChar c = CHR ''o'' \<and> r \<noteq> [] then (8, r)
                          else if lowerChar c = CHR ''x'' \<and> r \<noteq> [] then (16, r)
                          else (8, c # r))
                     | _ \<Rightarrow> (10, s))
      in if s = [] \<or> CHR ''_'' \<in> set s \<and> \<not> underscoreOK s then None else baseDigits b 0 ds)"

definition ParseInt0 :: "string \<Rightarrow> int option" where
  "ParseInt0 s =
     (let (neg, t) = (case s of
                        c # u \<Rightarrow> (if c = CHR ''-'' then (True, u)
                                 else if c = CHR ''+'' then (False, u) else (False, s))
                      | [] \<Rightarrow> (False, []))
      in case parseBase0 t of
           None \<Rightarrow> None
         | Some n \<Rightarrow> (if neg then (if int n \<le> 2 ^ 63 then Some (- int n) else None)
                     else (if int n < 2 ^ 63 then Some (int n) else None)))"

definition ParseBool :: "string \<Rightarrow> bool option" where
  "ParseBool s =
     (if s \<in> {''1'', ''t'', ''T'', ''TRUE'', ''true'', ''True''} then Some True
      else if s \<in> {''0'', ''f'', ''F'', ''FALSE'', ''false'', ''False''} then Some False
      else None)"

text \<open>Evaluation of \<open>digitChar\<close> on the ten digits.\<close>

lemma digitChar_simps [simp]:
  "digitChar 0 = CHR ''0''"
  "digitChar (Suc 0) = CHR ''1''"
  "digitChar 2 = CHR ''2''"
  "digitChar 3 = CHR ''3''"
  "digitChar 4 = CHR ''4''"
  "digitChar 5 = CHR ''5''"
  "digitChar 6 = CHR ''6''"
  "digitChar 7 = CHR ''7''"
  "digitChar 8 = CHR ''8''"
  "digitChar 9 = CHR ''9''"
  by code_simp+

lemma isDigit_digitChar [simp]: "n < 10 \<Longrightarrow> isDigit (digitChar n)"
  by (simp add: isDigit_def digitChar_def)

lemma digitVal_digitChar [simp]: "n < 10 \<Longrightarrow> digitVal (digitChar n) = n"
  by (simp add: digitVal_def digitChar_def)

lemma digitsVal_append: "digitsVal a (s @ [c]) = digitsVal a s * 10 + digitVal c"
  by (induction s arbitrary: a) auto

lemma digitsVal_natString [simp]: "digitsVal 0 (natString n) = n"
proof (induction n rule: natString.induct)
  case (1 n)
  then show ?case
    by (cases "n < 10") (simp_all add: natString.simps [of n] digitsVal_append)
qed

lemma isDigit_natString: "list_all isDigit (natString n)"
proof (induction n rule: natString.induct)
  case (1 n)
  then show ?case by (cases "n < 10") (simp_all add: natString.simps [of n])
qed

lemma natString_nonempty [simp]: "natString n \<noteq> []"
  by (subst natString.simps) simp

lemma parseNat_natString [simp]: "parseNat (natString n) = Some n"
  by (simp add: parseNat_def isDigit_natString)

lemma hd_natString: "isDigit (hd (natString n))"
  using isDigit_natString [of n] by (cases "natString n") (auto simp: natString_nonempty)

lemma Atoi_natString: "n < 2 ^ 63 \<Longrightarrow> Atoi (natString n) = Some (int n)"
proof -
  assume n: "n < 2 ^ 63"
  obtain c t where ct: "natString n = c # t"
    by (cases "natString n") auto
  then have "isDigit c" using hd_natString [of n] by simp
  then have "c \<noteq> CHR ''-''" "c \<noteq> CHR ''+''"
    by (auto simp: isDigit_def)
  moreover have "parseNat (c # t) = Some n" using ct parseNat_natString [of n] by simp
  moreover from n have "int n < 2 ^ 63" by simp
  ultimately show ?thesis by (simp add: Atoi_def ct)
qed

end
