(* ===== verification/GoPath.thy ===== *)
theory GoPath
  imports GoStrings
begin

section \<open>Lexical paths: \<open>path.Clean\<close>, \<open>filepath.Join\<close>, \<open>Dir\<close>, \<open>Base\<close>\<close>

text \<open>
  The functions of the packages \<open>path\<close> and \<open>path/filepath\<close> (on Unix) that only look
  at the text of a path. A path is split at its slashes; \<open>cleanComp\<close> processes one
  component over a stack of the components kept so far (top first), as \<open>Clean\<close>'s
  loop does over its output buffer.
\<close>

definition cleanComp :: "bool \<Rightarrow> string list \<Rightarrow> string \<Rightarrow> string list" where
  "cleanComp rooted st c =
     (if c = [] \<or> c = ''.'' then st
      else if c = ''..'' then
        (case st of
           [] \<Rightarrow> (if rooted then [] else [''..''])
         | t # r \<Rightarrow> (if t = ''..'' then ''..'' # st else r))
      else c # st)"

definition cleanComps :: "bool \<Rightarrow> string list \<Rightarrow> string list" where
  "cleanComps rooted cs = rev (foldl (cleanComp rooted) [] cs)"

definition isAbs :: "string \<Rightarrow> bool" where
  "isAbs p \<longleftrightarrow> HasPrefix p ''/''"

definition Clean :: "string \<Rightarrow> string" where
  "Clean p =
     (if p = [] then ''.''
      else
        (let cs = cleanComps (isAbs p) (splitOn (CHR ''/'') p)
         in if isAbs p then CHR ''/'' # joinWith ''/'' cs
            else if cs = [] then ''.''
            else joinWith ''/'' cs))"

definition pathJoin :: "string list \<Rightarrow> string" where
  "pathJoin es =
     (case filter (\<lambda>e. e \<noteq> []) es of [] \<Rightarrow> [] | ne \<Rightarrow> Clean (joinWith ''/'' ne))"

definition pathDir :: "string \<Rightarrow> string" where
  "pathDir p =
     Clean (case LastIndex p (CHR ''/'') of None \<Rightarrow> [] | Some i \<Rightarrow> take (Suc i) p)"

definition pathBase :: "string \<Rightarrow> string" where
  "pathBase p =
     (if p = [] then ''.''
      else
        (let q = TrimRightSet p ''/'';
             b = (case LastIndex q (CHR ''/'') of None \<Rightarrow> q | Some i \<Rightarrow> drop (Suc i) q)
         in if b = [] then ''/'' else b))"

subsection \<open>Normal component lists\<close>

text \<open>The components an absolute cleaned path is made of.\<close>

definition normComp :: "string \<Rightarrow> bool" where
  "normComp c \<longleftrightarrow> c \<noteq> [] \<and> c \<noteq> ''.'' \<and> c \<noteq> ''..'' \<and> CHR ''/'' \<notin> set c"

definition absPath :: "string list \<Rightarrow> string" where
  "absPath cs = CHR ''/'' # joinWith ''/'' cs"

definition absComps :: "string \<Rightarrow> string list" where
  "absComps p = cleanComps True (splitOn (CHR ''/'') p)"

lemma cleanComp_norm:
  "\<forall>c \<in> set st. normComp c \<Longrightarrow> CHR ''/'' \<notin> set c \<Longrightarrow>
     \<forall>c \<in> set (cleanComp True st c). normComp c"
  unfolding cleanComp_def normComp_def by (cases st) simp_all

lemma cleanComps_norm:
  assumes "\<forall>c \<in> set cs. CHR ''/'' \<notin> set c"
  shows "\<forall>c \<in> set (cleanComps True cs). normComp c"
proof -
  have "\<forall>c \<in> set st. normComp c \<Longrightarrow> \<forall>c \<in> set cs. CHR ''/'' \<notin> set c \<Longrightarrow>
          \<forall>c \<in> set (foldl (cleanComp True) st cs). normComp c" for st
  proof (induction cs arbitrary: st)
    case Nil
    then show ?case by simp
  next
    case (Cons c cs)
    then have "\<forall>c \<in> set (cleanComp True st c). normComp c"
      by (intro cleanComp_norm) simp_all
    with Cons.IH [of "cleanComp True st c"] Cons.prems(2) show ?case by simp
  qed
  from this [of "[]"] assms show ?thesis by (simp add: cleanComps_def)
qed

lemma absComps_norm: "\<forall>c \<in> set (absComps p). normComp c"
  unfolding absComps_def by (rule cleanComps_norm) (auto dest: splitOn_no_sep)

lemma cleanComps_id:
  assumes "\<forall>c \<in> set cs. normComp c"
  shows "cleanComps rooted cs = cs"
proof -
  have "\<forall>c \<in> set cs. normComp c \<Longrightarrow> foldl (cleanComp rooted) st cs = rev cs @ st" for st
    by (induction cs arbitrary: st) (simp_all add: cleanComp_def normComp_def)
  from this [of "[]"] assms show ?thesis by (simp add: cleanComps_def)
qed

lemma Clean_abs: "isAbs p \<Longrightarrow> Clean p = absPath (absComps p)"
  by (cases p) (simp_all add: Clean_def absPath_def absComps_def isAbs_def HasPrefix_def)

lemma absPath_isAbs [simp]: "isAbs (absPath cs)"
  by (simp add: isAbs_def absPath_def HasPrefix_def)

lemma splitOn_joinWith_norm:
  "cs \<noteq> [] \<Longrightarrow> \<forall>c \<in> set cs. normComp c \<Longrightarrow> splitOn (CHR ''/'') (joinWith ''/'' cs) = cs"
  by (rule splitOn_joinWith) (auto simp: normComp_def)

lemma absComps_absPath:
  assumes "\<forall>c \<in> set cs. normComp c"
  shows "absComps (absPath cs) = cs"
proof (cases "cs = []")
  case True
  then show ?thesis by (simp add: absComps_def absPath_def cleanComps_def cleanComp_def)
next
  case False
  have "cleanComps True ([] # cs) = cleanComps True cs"
    by (simp add: cleanComps_def cleanComp_def)
  with False assms show ?thesis
    by (simp add: absComps_def absPath_def splitOn_joinWith_norm cleanComps_id)
qed

lemma absPath_inj:
  "\<forall>c \<in> set as. normComp c \<Longrightarrow> \<forall>c \<in> set bs. normComp c \<Longrightarrow>
     absPath as = absPath bs \<longleftrightarrow> as = bs"
  using absComps_absPath by metis

text \<open>A cleaned absolute path is a fixed point of \<open>Clean\<close>, made of normal components.\<close>

lemma Clean_idem_abs: "isAbs p \<Longrightarrow> Clean (Clean p) = Clean p"
  by (simp add: Clean_abs absComps_absPath absComps_norm)

lemma Clean_fixed_abs:
  assumes "isAbs p" and "Clean p = p"
  shows "p = absPath (absComps p)"
  using assms Clean_abs by simp

subsection \<open>Prefixes of paths are prefixes of components\<close>

lemma splitOn_append_sep: "splitOn c (u @ c # r) = splitOn c u @ splitOn c r"
proof (induction u)
  case Nil
  then show ?case by simp
next
  case (Cons x u)
  then show ?case
    by (cases "splitOn c u") auto
qed

lemma joinWith_append:
  "as \<noteq> [] \<Longrightarrow> bs \<noteq> [] \<Longrightarrow> joinWith sep (as @ bs) = joinWith sep as @ sep @ joinWith sep bs"
proof (induction as)
  case Nil
  then show ?case by simp
next
  case (Cons a as)
  then show ?case by (cases as) (simp_all add: joinWith_Cons)
qed

lemma joinWith_eq_Nil:
  "\<forall>c \<in> set cs. normComp c \<Longrightarrow> joinWith sep cs = [] \<longleftrightarrow> cs = []"
proof (induction cs)
  case Nil
  then show ?case by simp
next
  case (Cons c cs)
  then show ?case by (cases cs) (auto simp: normComp_def joinWith_Cons)
qed

lemma absPath_under:
  assumes as: "\<forall>c \<in> set as. normComp c" "as \<noteq> []" and bs: "\<forall>c \<in> set bs. normComp c"
  shows "prefix (absPath as @ ''/'') (absPath bs) \<longleftrightarrow> (\<exists>ds. ds \<noteq> [] \<and> bs = as @ ds)"
proof
  assume "prefix (absPath as @ ''/'') (absPath bs)"
  then obtain r where r: "joinWith ''/'' bs = joinWith ''/'' as @ CHR ''/'' # r"
    by (auto simp: absPath_def prefix_def)
  then have "bs \<noteq> []" by auto
  then have "bs = splitOn (CHR ''/'') (joinWith ''/'' as @ CHR ''/'' # r)"
    using bs splitOn_joinWith_norm r by metis
  also have "\<dots> = as @ splitOn (CHR ''/'') r"
    using as by (simp add: splitOn_append_sep splitOn_joinWith_norm)
  finally show "\<exists>ds. ds \<noteq> [] \<and> bs = as @ ds" using splitOn_nonempty by blast
next
  assume "\<exists>ds. ds \<noteq> [] \<and> bs = as @ ds"
  then show "prefix (absPath as @ ''/'') (absPath bs)"
    using as(2) by (auto simp: absPath_def joinWith_append)
qed

lemma absPath_under_root:
  assumes "\<forall>c \<in> set bs. normComp c"
  shows "\<not> prefix (absPath [] @ ''/'') (absPath bs)"
proof (cases bs)
  case Nil
  then show ?thesis by (simp add: absPath_def)
next
  case (Cons b bs')
  with assms obtain x y where "b = x # y" "x \<noteq> CHR ''/''"
    by (cases b) (auto simp: normComp_def)
  with Cons show ?thesis by (cases bs') (auto simp: absPath_def)
qed

subsection \<open>Joining a directory and a plain name\<close>

text \<open>A relative cleaned path: some \<open>..\<close> components, then normal ones.\<close>

definition relNorm :: "string list \<Rightarrow> bool" where
  "relNorm cs \<longleftrightarrow>
     (\<exists>k ns. cs = replicate k ''..'' @ ns \<and> (\<forall>c \<in> set ns. normComp c))"

definition relComps :: "string \<Rightarrow> string list" where
  "relComps p = cleanComps False (splitOn (CHR ''/'') p)"

lemma relNorm_dots: "relNorm (replicate k ''..'')"
  unfolding relNorm_def by (intro exI [of _ k] exI [of _ "[]"]) simp

lemma relNorm_append: "relNorm cs \<Longrightarrow> normComp n \<Longrightarrow> relNorm (cs @ [n])"
proof -
  assume "relNorm cs" and n: "normComp n"
  then obtain k ns where "cs = replicate k ''..'' @ ns" "\<forall>c \<in> set ns. normComp c"
    unfolding relNorm_def by blast
  with n show "relNorm (cs @ [n])"
    unfolding relNorm_def by (intro exI [of _ k] exI [of _ "ns @ [n]"]) simp
qed

lemma cleanComp_rel:
  assumes "relNorm (rev st)" and "CHR ''/'' \<notin> set c"
  shows "relNorm (rev (cleanComp False st c))"
proof -
  obtain k ns where st: "rev st = replicate k ''..'' @ ns" and ns: "\<forall>x \<in> set ns. normComp x"
    using assms(1) unfolding relNorm_def by blast
  consider "c = [] \<or> c = ''.''" | "c = ''..''" | "normComp c"
    using assms(2) unfolding normComp_def by blast
  then show ?thesis
  proof cases
    case 1
    then show ?thesis using assms(1) by (auto simp: cleanComp_def)
  next
    case 2
    show ?thesis
    proof (cases ns rule: rev_cases)
      case Nil
      then have "st = rev (replicate k ''..'')" using st by (metis append_Nil2 rev_rev_ident)
      then have "st = replicate k ''..''" by simp
      then have "cleanComp False st c = replicate (Suc k) ''..''"
        using 2 by (cases k) (simp_all add: cleanComp_def)
      then have "rev (cleanComp False st c) = replicate (Suc k) ''..''"
        by (simp only: rev_replicate)
      then show ?thesis by (simp only: relNorm_dots)
    next
      case (snoc ms m)
      have "rev st = (replicate k ''..'' @ ms) @ [m]" using st snoc by simp
      then have "st = m # rev (replicate k ''..'' @ ms)" by (metis rev_eq_Cons_iff rev_rev_ident)
      moreover have "m \<noteq> ''..''" using ns snoc by (simp add: normComp_def)
      ultimately have "rev (cleanComp False st c) = replicate k ''..'' @ ms"
        using 2 by (simp add: cleanComp_def)
      then show ?thesis using ns snoc unfolding relNorm_def
        by (intro exI [of _ k] exI [of _ ms]) simp
    qed
  next
    case 3
    then have "rev (cleanComp False st c) = rev st @ [c]"
      by (auto simp: cleanComp_def normComp_def)
    with 3 assms(1) show ?thesis by (simp add: relNorm_append)
  qed
qed

lemma relComps_norm: "relNorm (relComps p)"
proof -
  have "relNorm (rev st) \<Longrightarrow> \<forall>c \<in> set cs. CHR ''/'' \<notin> set c \<Longrightarrow>
          relNorm (rev (foldl (cleanComp False) st cs))" for st cs
    by (induction cs arbitrary: st) (simp_all add: cleanComp_rel)
  moreover have "relNorm (rev [])" using relNorm_dots [of 0] by simp
  ultimately show ?thesis
    using splitOn_no_sep unfolding relComps_def cleanComps_def by blast
qed

lemma cleanComps_rel_id: "relNorm cs \<Longrightarrow> cleanComps False cs = cs"
proof -
  assume "relNorm cs"
  then obtain k ns where cs: "cs = replicate k ''..'' @ ns" and ns: "\<forall>x \<in> set ns. normComp x"
    unfolding relNorm_def by blast
  have dots: "foldl (cleanComp False) (replicate j ''..'') (replicate k ''..'') = replicate (k + j) ''..''"
    for j
  proof (induction k arbitrary: j)
    case (Suc k)
    have "cleanComp False (replicate j ''..'') ''..'' = replicate (Suc j) ''..''"
      by (cases j) (simp_all add: cleanComp_def)
    with Suc.IH [of "Suc j"] show ?case by simp
  qed simp
  have "\<forall>x \<in> set ns. normComp x \<Longrightarrow> foldl (cleanComp False) st ns = rev ns @ st" for st
    by (induction ns arbitrary: st) (simp_all add: cleanComp_def normComp_def)
  with dots [of 0] ns cs show ?thesis by (simp add: cleanComps_def)
qed

lemma relNorm_sep:
  assumes "relNorm cs" and "c \<in> set cs"
  shows "c \<noteq> [] \<and> CHR ''/'' \<notin> set c"
proof -
  obtain k ns where "cs = replicate k ''..'' @ ns" and ns: "\<forall>x \<in> set ns. normComp x"
    using assms(1) unfolding relNorm_def by blast
  then have "c = ''..'' \<or> c \<in> set ns" using assms(2) by (auto simp: set_replicate_conv_if split: if_splits)
  then show ?thesis
  proof
    assume "c = ''..''"
    then show ?thesis by simp
  next
    assume "c \<in> set ns"
    with ns have "normComp c" by blast
    then show ?thesis by (simp add: normComp_def)
  qed
qed

text \<open>What \<open>Join(d, n)\<close> puts before a plain name \<open>n\<close>; it does not depend on the name.\<close>

definition joinBase :: "string \<Rightarrow> string" where
  "joinBase d =
     (if d = [] then []
      else if isAbs d then (if absComps d = [] then ''/'' else absPath (absComps d) @ ''/'')
      else if relComps d = [] then [] else joinWith ''/'' (relComps d) @ ''/'')"

lemma joinWith_snoc: "cs \<noteq> [] \<Longrightarrow> joinWith sep (cs @ [n]) = joinWith sep cs @ sep @ n"
  by (simp add: joinWith_append)

lemma comps_append_name:
  assumes "normComp n"
  shows "cleanComps rooted (splitOn (CHR ''/'') (d @ CHR ''/'' # n))
           = cleanComps rooted (splitOn (CHR ''/'') d) @ [n]"
  using assms by (simp add: cleanComps_def splitOn_append_sep splitOn_id normComp_def cleanComp_def)

lemma normComp_single: "normComp n \<Longrightarrow> cleanComps rooted (splitOn (CHR ''/'') n) = [n]"
  by (simp add: cleanComps_def splitOn_id normComp_def cleanComp_def)

lemma normComp_not_abs: "normComp n \<Longrightarrow> \<not> isAbs n"
  by (cases n) (auto simp: normComp_def isAbs_def HasPrefix_def)

lemma isAbs_append: "d \<noteq> [] \<Longrightarrow> isAbs (d @ r) = isAbs d"
  by (cases d) (auto simp: isAbs_def HasPrefix_def)

theorem pathJoin_base:
  assumes n: "normComp n"
  shows "pathJoin [d, n] = joinBase d @ n"
proof -
  have n0: "n \<noteq> []" using n by (simp add: normComp_def)
  consider "d = []" | "d \<noteq> []" "isAbs d" | "d \<noteq> []" "\<not> isAbs d" by blast
  then show ?thesis
  proof cases
    case 1
    then show ?thesis
      using n0 n by (simp add: pathJoin_def joinBase_def Clean_def normComp_single normComp_not_abs)
  next
    case 2
    have "pathJoin [d, n] = absPath (absComps d @ [n])"
      using 2 n0 comps_append_name [OF n, of True d]
      by (simp add: pathJoin_def Clean_abs isAbs_append absComps_def)
    then show ?thesis
      using 2 by (cases "absComps d = []") (simp_all add: joinBase_def absPath_def joinWith_snoc)
  next
    case 3
    have "pathJoin [d, n] = joinWith ''/'' (relComps d @ [n])"
      using 3 n0 comps_append_name [OF n, of False d]
      by (simp add: pathJoin_def Clean_def isAbs_append relComps_def)
    then show ?thesis
      using 3 by (cases "relComps d = []") (simp_all add: joinBase_def joinWith_snoc)
  qed
qed

lemma relComps_joinWith:
  assumes "relNorm cs" "cs \<noteq> []"
  shows "relComps (joinWith ''/'' cs) = cs"
  using assms relNorm_sep [OF assms(1)]
  by (simp add: relComps_def splitOn_joinWith cleanComps_rel_id)

lemma joinWith_rel_not_abs:
  assumes "relNorm cs" "cs \<noteq> []"
  shows "\<not> isAbs (joinWith ''/'' cs)" "joinWith ''/'' cs \<noteq> []"
proof -
  obtain c r where cs: "cs = c # r" using assms(2) by (cases cs) auto
  then obtain x y where "c = x # y" "x \<noteq> CHR ''/''"
    using relNorm_sep [OF assms(1), of c] by (cases c) auto
  with cs show "\<not> isAbs (joinWith ''/'' cs)" "joinWith ''/'' cs \<noteq> []"
    by (cases r; auto simp: isAbs_def HasPrefix_def)+
qed

lemma joinBase_absPath:
  assumes "cs \<noteq> []" and "\<forall>c \<in> set cs. normComp c"
  shows "joinBase (absPath cs) = absPath cs @ ''/''"
  using assms absComps_absPath [OF assms(2)] absPath_isAbs [of cs]
  unfolding joinBase_def by (simp add: absPath_def)

theorem joinBase_join:
  assumes n: "normComp n"
  shows "joinBase (joinBase d @ n) = joinBase d @ n @ ''/''"
proof -
  consider "d \<noteq> []" "isAbs d" | "\<not> (d \<noteq> [] \<and> isAbs d)" by blast
  then show ?thesis
  proof cases
    case 1
    then have e: "joinBase d @ n = absPath (absComps d @ [n])"
      by (cases "absComps d = []") (simp_all add: joinBase_def absPath_def joinWith_snoc)
    moreover have "joinBase (absPath (absComps d @ [n])) = absPath (absComps d @ [n]) @ ''/''"
      using n absComps_norm by (intro joinBase_absPath) auto
    ultimately show ?thesis by (metis append.assoc)
  next
    case 2
    define cs where "cs = (if d = [] then [] else relComps d)"
    have r: "relNorm (cs @ [n])"
      using n relComps_norm relNorm_dots [of 0] relNorm_append [of "[]" n]
      by (auto simp: cs_def intro: relNorm_append)
    have e: "joinBase d @ n = joinWith ''/'' (cs @ [n])"
      using 2 by (cases "cs = []") (auto simp: joinBase_def cs_def joinWith_snoc split: if_splits)
    have "joinBase (joinWith ''/'' (cs @ [n])) = joinWith ''/'' (cs @ [n]) @ ''/''"
      using relComps_joinWith [OF r] joinWith_rel_not_abs [OF r] by (simp add: joinBase_def)
    then show ?thesis unfolding e by (metis append.assoc e)
  qed
qed

text \<open>So a second name is appended after one slash, whatever the directory was.\<close>

lemma pathJoin_join:
  assumes "normComp n" "normComp m"
  shows "pathJoin [pathJoin [d, n], m] = joinBase d @ n @ ''/'' @ m"
  using assms by (simp add: pathJoin_base joinBase_join)

theorem pathJoin_base3:
  assumes n: "normComp n" and m: "normComp m"
  shows "pathJoin [d, n, m] = joinBase d @ n @ ''/'' @ m"
proof (cases "d = []")
  case True
  have "pathJoin [d, n, m] = pathJoin [n, m]" using True by (simp add: pathJoin_def)
  also have "\<dots> = pathJoin [pathJoin [[], n], m]"
    using n by (simp add: pathJoin_base) (simp add: joinBase_def)
  finally show ?thesis using True pathJoin_join [OF n m] by simp
next
  case False
  have ne: "n \<noteq> []" "m \<noteq> []" using n m by (simp_all add: normComp_def)
  have j: "joinWith ''/'' [d, n, m] = (d @ CHR ''/'' # n) @ CHR ''/'' # m" by simp
  have c: "cleanComps rooted (splitOn (CHR ''/'') ((d @ CHR ''/'' # n) @ CHR ''/'' # m))
             = cleanComps rooted (splitOn (CHR ''/'') d) @ [n, m]" for rooted
    using comps_append_name [OF m, of rooted "d @ CHR ''/'' # n"] comps_append_name [OF n, of rooted d]
    by simp
  have a: "isAbs ((d @ CHR ''/'' # n) @ CHR ''/'' # m) = isAbs d"
    using isAbs_append [OF False, of "CHR ''/'' # n @ CHR ''/'' # m"] by simp
  have e: "pathJoin [d, n, m] = Clean ((d @ CHR ''/'' # n) @ CHR ''/'' # m)"
    using False ne j by (simp add: pathJoin_def)
  let ?cs = "cleanComps (isAbs d) (splitOn (CHR ''/'') d)"
  have w: "joinWith ''/'' (?cs @ [n, m])
             = (if ?cs = [] then [] else joinWith ''/'' ?cs @ ''/'') @ n @ ''/'' @ m"
    by (cases "?cs = []") (simp_all add: joinWith_append)
  show ?thesis
    using False unfolding e Clean_def a c Let_def w
    by (simp add: joinBase_def absComps_def relComps_def absPath_def)
qed

end
