(* ===== verification/HostWiring.thy ===== *)
theory HostWiring
  imports GoPath
begin

section \<open>Host wiring (\<open>hostsetup.go\<close>, \<open>homebrew.go\<close>)\<close>

text \<open>
  The texts \<open>setup\<close> writes: the managed block of the gateway's environment file, which the
  gateway's service wrapper sources as a shell script, the launchd property list, and the
  path the list starts. The certificate and registration helpers of \<open>hostsetup.go\<close> are in
  theory \<open>HostSetup\<close>.
\<close>

subsection \<open>The launch agent\<close>

definition AgentLabel :: string where "AgentLabel = ''local.openshell-driver-applecontainer''"

definition blockBegin :: string where
  "blockBegin = ''# >>> openshell-driver-applecontainer setup >>>''"
definition blockEnd :: string where
  "blockEnd = ''# <<< openshell-driver-applecontainer setup <<<''"

definition launchdPATH :: string where
  "launchdPATH = ''/opt/homebrew/bin:/usr/local/bin:/usr/bin:/bin:/usr/sbin:/sbin''"

text \<open>
  \<open>xml.EscapeText\<close>, rune by rune: the five markup characters and the three white space
  controls get references, what XML does not allow becomes the replacement character.
\<close>

definition escapeRune :: "string \<Rightarrow> string" where
  "escapeRune r =
     (if r = [CHR 0x22] then ''&#34;''
      else if r = [CHR 0x27] then ''&#39;''
      else if r = ''&'' then ''&amp;''
      else if r = ''<'' then ''&lt;''
      else if r = ''>'' then ''&gt;''
      else if r = [CHR 0x09] then ''&#x9;''
      else if r = [CHR 0x0A] then ''&#xA;''
      else if r = [CHR 0x0D] then ''&#xD;''
      else if (length r = 1 \<and> byteOf (hd r) < 0x20) \<or> r = [CHR 0xEF, CHR 0xBF, CHR 0xBE]
          \<or> r = [CHR 0xEF, CHR 0xBF, CHR 0xBF] then replacementRune
      else r)"

definition xmlEscape :: "string \<Rightarrow> string" where
  "xmlEscape s = concat (map escapeRune (runes s))"

definition nl :: string where "nl = [CHR 0x0A]"
definition dq :: string where "dq = [CHR 0x22]"

definition plistKey :: "string \<Rightarrow> string \<Rightarrow> string" where
  "plistKey tab k = tab @ ''<key>'' @ k @ ''</key>'' @ nl"

definition plistString :: "string \<Rightarrow> string \<Rightarrow> string" where
  "plistString tab v = tab @ ''<string>'' @ v @ ''</string>'' @ nl"

text \<open>The fixed parts of the list, before and between the inserted paths.\<close>

definition plistProlog :: string where
  "plistProlog =
     ''<?xml version='' @ dq @ ''1.0'' @ dq @ '' encoding='' @ dq @ ''UTF-8'' @ dq @ ''?>'' @ nl
     @ ''<!DOCTYPE plist PUBLIC '' @ dq @ ''-//Apple//DTD PLIST 1.0//EN'' @ dq @ '' '' @ dq
     @ ''http://www.apple.com/DTDs/PropertyList-1.0.dtd'' @ dq @ ''>'' @ nl
     @ ''<plist version='' @ dq @ ''1.0'' @ dq @ ''>'' @ nl @ ''<dict>'' @ nl
     @ plistKey [CHR 0x09] ''Label'' @ plistString [CHR 0x09] AgentLabel
     @ plistKey [CHR 0x09] ''ProgramArguments'' @ [CHR 0x09] @ ''<array>'' @ nl"

definition plistEnvironment :: string where
  "plistEnvironment =
     [CHR 0x09] @ ''</array>'' @ nl @ plistKey [CHR 0x09] ''EnvironmentVariables''
     @ [CHR 0x09] @ ''<dict>'' @ nl
     @ plistKey [CHR 0x09, CHR 0x09] ''PATH'' @ plistString [CHR 0x09, CHR 0x09] launchdPATH
     @ plistKey [CHR 0x09, CHR 0x09] ''OPENSHELL_LOCAL_TLS_DIR''"

definition plistOptions :: string where
  "plistOptions =
     [CHR 0x09] @ ''</dict>'' @ nl
     @ plistKey [CHR 0x09] ''RunAtLoad'' @ [CHR 0x09] @ ''<true/>'' @ nl
     @ plistKey [CHR 0x09] ''KeepAlive'' @ [CHR 0x09] @ ''<true/>'' @ nl
     @ plistKey [CHR 0x09] ''StandardOutPath''"

definition RenderLaunchAgent :: "string \<Rightarrow> string \<Rightarrow> string \<Rightarrow> string" where
  "RenderLaunchAgent binPath tlsDir logPath =
     plistProlog @ plistString [CHR 0x09, CHR 0x09] (xmlEscape binPath)
     @ plistEnvironment @ plistString [CHR 0x09, CHR 0x09] (xmlEscape tlsDir)
     @ plistOptions @ plistString [CHR 0x09] (xmlEscape logPath)
     @ plistKey [CHR 0x09] ''StandardErrorPath'' @ plistString [CHR 0x09] (xmlEscape logPath)
     @ ''</dict>'' @ nl @ ''</plist>'' @ nl"

subsection \<open>The gateway's settings\<close>

definition shellQuote :: "string \<Rightarrow> string" where
  "shellQuote s =
     [CHR 0x27] @ concat (map (\<lambda>c. if c = CHR 0x27 then [CHR 0x27, CHR 0x5C, CHR 0x27, CHR 0x27] else [c]) s)
       @ [CHR 0x27]"

definition GatewayEnvLines :: "string \<Rightarrow> string \<Rightarrow> string list" where
  "GatewayEnvLines socket tlsDir =
     [''OPENSHELL_DRIVERS=applecontainer'',
      ''OPENSHELL_COMPUTE_DRIVER_SOCKET='' @ shellQuote socket,
      ''OPENSHELL_BIND_ADDRESS=0.0.0.0'',
      ''OPENSHELL_ENABLE_MTLS_AUTH=true'',
      ''OPENSHELL_LOCAL_TLS_DIR='' @ shellQuote tlsDir]"

subsection \<open>The managed block\<close>

lemma Index_add_length: "Index s p = Some i \<Longrightarrow> i + length p \<le> length s"
  using Index_Some [of s p i] by (auto dest!: prefix_length_le)

text \<open>Every round removes at least an end marker, so the loop ends.\<close>

function RemoveManagedBlock :: "string \<Rightarrow> string" where
  "RemoveManagedBlock existing =
     (case Index existing blockBegin of
        None \<Rightarrow> existing
      | Some b \<Rightarrow>
          (case Index (drop b existing) blockEnd of
             None \<Rightarrow> TrimRightSet (take b existing) [CHR 0x0D, CHR 0x0A] @ nl
           | Some e \<Rightarrow>
               (let rest = TrimPrefix (TrimPrefix (drop (b + e + length blockEnd) existing) [CHR 0x0D]) nl;
                    head = take b existing
                in RemoveManagedBlock (if TrimSpace head = [] then rest else head @ rest))))"
  by pat_completeness auto
termination
proof (relation "measure length")
  fix existing b e rest head
  assume b: "Index existing blockBegin = Some b" and e: "Index (drop b existing) blockEnd = Some e"
    and rest: "rest = TrimPrefix (TrimPrefix (drop (b + e + length blockEnd) existing) [CHR 0x0D]) nl"
    and head: "head = take b existing"
  have "length (TrimPrefix s p) \<le> length s" for s p by (simp add: TrimPrefix_def)
  then have "length rest \<le> length existing - (b + e + length blockEnd)"
    unfolding rest by (metis length_drop order_trans)
  moreover have "e + length blockEnd \<le> length existing - b" using Index_add_length [OF e] by simp
  moreover have "b \<le> length existing" using Index_Some [OF b] by simp
  moreover have "length blockEnd > 0" by (simp add: blockEnd_def)
  moreover have "length head \<le> b" by (simp add: head)
  ultimately have "length rest < length existing" "length head + length rest < length existing" by linarith+
  then show "((if TrimSpace head = [] then rest else head @ rest), existing) \<in> measure length" by simp
qed simp

definition UpsertManagedBlock :: "string \<Rightarrow> string list \<Rightarrow> string" where
  "UpsertManagedBlock existing lines =
     (let body = blockBegin @ nl @ joinWith nl lines @ nl @ blockEnd @ nl;
          stripped = RemoveManagedBlock existing
      in if TrimSpace stripped = [] then body
         else (if HasSuffix stripped nl then stripped else stripped @ nl) @ body)"

subsection \<open>The binary's path\<close>

fun caskOf :: "string list \<Rightarrow> string option" where
  "caskOf (p # q # ps) = (if p = ''Caskroom'' \<and> q \<noteq> [] then Some q else caskOf (q # ps))"
| "caskOf _ = None"

definition HomebrewCask :: "string \<Rightarrow> string option" where
  "HomebrewCask binPath = caskOf (splitOn (CHR ''/'') binPath)"

text \<open>\<open>ev\<close> is \<open>filepath.EvalSymlinks\<close>, \<open>None\<close> its error.\<close>

definition resolveBinPath :: "(string \<Rightarrow> string option) \<Rightarrow> string \<Rightarrow> string" where
  "resolveBinPath ev exe =
     (case ev exe of
        None \<Rightarrow> exe
      | Some resolved \<Rightarrow> if HomebrewCask resolved \<noteq> None then exe else resolved)"

subsection \<open>Sourcing the settings\<close>

text \<open>
  What a POSIX shell makes of a word: single quotes are literal up to the next one, a
  backslash outside quotes takes the next character, a special character ends the word.
\<close>

definition shSpecial :: string where
  "shSpecial = [CHR 0x20, CHR 0x09, CHR 0x0A, CHR 0x22, CHR 0x24, CHR 0x26, CHR 0x28, CHR 0x29, CHR 0x3B,
     CHR 0x3C, CHR 0x3E, CHR 0x60, CHR 0x7C, CHR 0x23, CHR 0x2A, CHR 0x3F, CHR 0x5B, CHR 0x7E]"

fun shWord :: "bool \<Rightarrow> string \<Rightarrow> (string \<times> string) option" where
  "shWord True [] = None"
| "shWord True (c # s) =
     (if c = CHR 0x27 then shWord False s else map_option (apfst (Cons c)) (shWord True s))"
| "shWord False [] = Some ([], [])"
| "shWord False [c] =
     (if c = CHR 0x27 \<or> c = CHR 0x5C then None
      else if c \<in> set shSpecial then Some ([], [c]) else Some ([c], []))"
| "shWord False (c # d # s) =
     (if c = CHR 0x27 then shWord True (d # s)
      else if c = CHR 0x5C then map_option (apfst (Cons d)) (shWord False s)
      else if c \<in> set shSpecial then Some ([], c # d # s)
      else map_option (apfst (Cons c)) (shWord False (d # s)))"

text \<open>An assignment that is the whole line.\<close>

definition shAssign :: "string \<Rightarrow> (string \<times> string) option" where
  "shAssign l =
     (case Index l ''='' of
        None \<Rightarrow> None
      | Some i \<Rightarrow>
          (case shWord False (drop (Suc i) l) of
             Some (v, []) \<Rightarrow> Some (take i l, v)
           | _ \<Rightarrow> None))"

definition quoteBody :: "string \<Rightarrow> string" where
  "quoteBody s = concat (map (\<lambda>c. if c = CHR 0x27 then [CHR 0x27, CHR 0x5C, CHR 0x27, CHR 0x27] else [c]) s)"

lemma shWord_body:
  "shWord True (quoteBody v @ CHR 0x27 # rest) = map_option (apfst (append v)) (shWord False rest)"
proof (induction v)
  case Nil
  show ?case by (cases "shWord False rest") (simp_all add: quoteBody_def prod_eq_iff)
next
  case (Cons c v)
  then show ?case
    by (cases "shWord False rest"; cases "quoteBody v @ CHR 0x27 # rest") (auto simp: quoteBody_def apfst_def)
qed

lemma shWord_quote: "shWord False (shellQuote v) = Some (v, [])"
proof -
  have "shellQuote v = CHR 0x27 # quoteBody v @ [CHR 0x27]" by (simp add: shellQuote_def quoteBody_def)
  then show ?thesis using shWord_body [of v "[]"] by (cases "quoteBody v @ [CHR 0x27]") auto
qed

lemma Index_first: "\<not> prefix p (c # s) \<Longrightarrow> Index (c # s) p = map_option Suc (Index s p)"
  by simp

lemma Index_char: "c \<notin> set u \<Longrightarrow> Index (u @ c # v) [c] = Some (length u)"
  by (induction u) auto

lemma shAssign_eq: "CHR ''='' \<notin> set k \<Longrightarrow> shWord False w = Some (v, []) \<Longrightarrow> shAssign (k @ ''='' @ w) = Some (k, v)"
  by (simp add: shAssign_def Index_char)

text \<open>
  C21. The settings survive being sourced by a shell: whatever characters the socket path and
  the certificate directory contain (spaces, quotes, dollars, backslashes, newlines), each
  line of the block is one assignment, and its value is exactly the path.
\<close>

theorem GatewayEnvLines_sourced:
  "map shAssign (GatewayEnvLines socket tlsDir) =
     [Some (''OPENSHELL_DRIVERS'', ''applecontainer''),
      Some (''OPENSHELL_COMPUTE_DRIVER_SOCKET'', socket),
      Some (''OPENSHELL_BIND_ADDRESS'', ''0.0.0.0''),
      Some (''OPENSHELL_ENABLE_MTLS_AUTH'', ''true''),
      Some (''OPENSHELL_LOCAL_TLS_DIR'', tlsDir)]"
proof -
  have "shAssign ''OPENSHELL_DRIVERS=applecontainer'' = Some (''OPENSHELL_DRIVERS'', ''applecontainer'')"
    "shAssign ''OPENSHELL_BIND_ADDRESS=0.0.0.0'' = Some (''OPENSHELL_BIND_ADDRESS'', ''0.0.0.0'')"
    "shAssign ''OPENSHELL_ENABLE_MTLS_AUTH=true'' = Some (''OPENSHELL_ENABLE_MTLS_AUTH'', ''true'')"
    by code_simp+
  moreover have "shAssign (''OPENSHELL_COMPUTE_DRIVER_SOCKET='' @ shellQuote socket)
      = Some (''OPENSHELL_COMPUTE_DRIVER_SOCKET'', socket)"
    using shAssign_eq [OF _ shWord_quote, of "''OPENSHELL_COMPUTE_DRIVER_SOCKET''" socket] by simp
  moreover have "shAssign (''OPENSHELL_LOCAL_TLS_DIR='' @ shellQuote tlsDir)
      = Some (''OPENSHELL_LOCAL_TLS_DIR'', tlsDir)"
    using shAssign_eq [OF _ shWord_quote, of "''OPENSHELL_LOCAL_TLS_DIR''" tlsDir] by simp
  ultimately show ?thesis by (simp add: GatewayEnvLines_def)
qed

subsection \<open>The block comes and goes\<close>

text \<open>A marker has no line break, so it lies within one line.\<close>

lemma Index_line:
  assumes p: "p \<noteq> []" "c \<notin> set p"
  shows "Index (u @ c # v) p = (case Index u p of Some i \<Rightarrow> Some i
     | None \<Rightarrow> map_option (\<lambda>i. Suc (length u + i)) (Index v p))"
proof (induction u)
  case Nil
  have "\<not> prefix p (c # v)" using p by (cases p) auto
  then show ?case using p by simp
next
  case (Cons x u)
  have "prefix p (x # u @ c # v) \<longleftrightarrow> prefix p (x # u)"
  proof
    assume "prefix p (x # u @ c # v)"
    then consider "prefix p (x # u)" | "strict_prefix (x # u) p"
      using prefix_same_cases [of p "(x # u) @ c # v" "x # u"] by (auto simp: strict_prefix_def)
    then show "prefix p (x # u)"
    proof cases
      case 2
      then obtain z zs where z: "p = (x # u) @ z # zs" by (auto elim: strict_prefixE')
      with \<open>prefix p (x # u @ c # v)\<close> have "z = c" by simp
      then show ?thesis using z p by simp
    qed
  qed (use prefix_prefix [of p "x # u" "c # v"] in simp)
  then show ?case using Cons.IH by (auto split: option.split simp: option.map_comp comp_def)
qed

lemma Contains_append_line:
  "p \<noteq> [] \<Longrightarrow> CHR 0x0A \<notin> set p \<Longrightarrow> Contains (u @ nl) p \<longleftrightarrow> Contains u p"
  using Index_line [of p "CHR 0x0A" u "[]"] by (simp add: Contains_def nl_def split: option.split)

lemma markers: "blockBegin \<noteq> []" "CHR 0x0A \<notin> set blockBegin" "blockEnd \<noteq> []" "CHR 0x0A \<notin> set blockEnd"
  "Index blockBegin blockEnd = None"
  by (code_simp)+

lemma Contains_prefix: "prefix u s \<Longrightarrow> Contains u p \<Longrightarrow> Contains s p"
  unfolding Contains_iff prefix_def by (metis append.assoc)

lemma Index_self: "Index (p @ s) p = Some 0"
  by (cases p; cases s) simp_all

lemma RemoveManagedBlock_clean: "\<not> Contains s blockBegin \<Longrightarrow> RemoveManagedBlock s = s"
  by (simp add: Contains_def)

declare RemoveManagedBlock.simps [simp del]

lemma TrimRightSet_prefix: "prefix (TrimRightSet s cs) s"
  using suffix_dropWhile [of "\<lambda>c. c \<in> set cs" "rev s"] by (simp add: TrimRightSet_def suffix_to_prefix)

lemma RemoveManagedBlock_none: "\<not> Contains (RemoveManagedBlock s) blockBegin"
proof (induction s rule: RemoveManagedBlock.induct)
  case (1 s)
  show ?case
  proof (cases "Index s blockBegin")
    case None
    then show ?thesis by (simp add: RemoveManagedBlock.simps [of s] Contains_def)
  next
    case (Some b)
    note b = Some
    show ?thesis
    proof (cases "Index (drop b s) blockEnd")
      case None
      have "\<not> Contains (take b s) blockBegin"
      proof
        assume "Contains (take b s) blockBegin"
        then obtain us vs where t: "take b s = us @ blockBegin @ vs" by (auto simp: Contains_iff)
        have "length (take b s) \<le> b" by simp
        moreover have "0 < length blockBegin" using markers(1) by simp
        ultimately have "length us < b" unfolding t length_append by linarith
        moreover have "s = (us @ blockBegin @ vs) @ drop b s" unfolding t [symmetric] by simp
        then have "drop (length us) s = blockBegin @ vs @ drop b s"
          by (metis append.assoc append_eq_conv_conj)
        ultimately show False using Index_least [OF b] by (metis prefixI)
      qed
      then have "\<not> Contains (TrimRightSet (take b s) [CHR 0x0D, CHR 0x0A] @ nl) blockBegin"
        using Contains_append_line [OF markers(1,2)] Contains_prefix [OF TrimRightSet_prefix] by blast
      then show ?thesis using b None by (simp add: RemoveManagedBlock.simps [of s])
    next
      case (Some e)
      then show ?thesis using 1 [OF b Some refl refl] b by (simp add: RemoveManagedBlock.simps [of s] Let_def)
    qed
  qed
qed

definition blockBody :: "string list \<Rightarrow> string" where
  "blockBody lines = blockBegin @ nl @ joinWith nl lines @ nl @ blockEnd @ nl"

text \<open>Settings that do not contain the markers themselves.\<close>

definition markerFree :: "string list \<Rightarrow> bool" where
  "markerFree lines \<longleftrightarrow> \<not> Contains (joinWith nl lines) blockEnd"

lemma Index_blockEnd:
  assumes "markerFree lines"
  shows "Index (blockBody lines) blockEnd = Some (length blockBegin + 1 + length (joinWith nl lines) + 1)"
proof -
  have "Index (joinWith nl lines @ CHR 0x0A # blockEnd @ nl) blockEnd = Some (length (joinWith nl lines) + 1)"
    using assms by (simp add: Index_line [OF markers(3,4)] Index_self markerFree_def Contains_def)
  then show ?thesis
    using Index_line [OF markers(3,4), of blockBegin "joinWith nl lines @ CHR 0x0A # blockEnd @ nl"]
    by (simp add: blockBody_def nl_def markers)
qed

text \<open>Removing a block that stands at the end, after text without a marker.\<close>

lemma Remove_append:
  assumes s: "\<not> Contains s blockBegin" "s = [] \<or> HasSuffix s nl" and l: "markerFree lines"
  shows "RemoveManagedBlock (s @ blockBody lines) = (if TrimSpace s = [] then [] else s)"
proof -
  have p: "Index (blockBody lines) blockBegin = Some 0"
    by (simp add: blockBody_def Index_self)
  have b: "Index (s @ blockBody lines) blockBegin = Some (length s)"
  proof (cases "s = []")
    case False
    then obtain u where u: "s = u @ nl" using s(2) by (auto simp: HasSuffix_def suffix_def)
    then have "Index u blockBegin = None"
      using s(1) Contains_append_line [OF markers(1,2), of u] by (simp add: Contains_def)
    then show ?thesis using Index_line [OF markers(1,2), of u "blockBody lines"] p by (simp add: u nl_def)
  qed (use p in simp)
  have "drop (length s + (length blockBegin + 1 + length (joinWith nl lines) + 1) + length blockEnd) (s @ blockBody lines)
      = nl"
    by (simp add: blockBody_def nl_def)
  then have "RemoveManagedBlock (s @ blockBody lines) = RemoveManagedBlock (if TrimSpace s = [] then [] else s)"
    using b Index_blockEnd [OF l]
    by (subst RemoveManagedBlock.simps) (simp add: TrimPrefix_def HasPrefix_def nl_def)
  moreover have "RemoveManagedBlock [] = []" by code_simp
  ultimately show ?thesis using s(1) by (simp add: RemoveManagedBlock_clean)
qed

text \<open>A line break at the end does not change what \<open>TrimSpace\<close> leaves.\<close>

lemma dropOne_line:
  assumes "list_all (\<lambda>w. w = nl \<or> CHR 0x0A \<notin> set w) ws" and "s \<noteq> []"
  shows "dropOne ws (s @ nl) = map_option (\<lambda>r. r @ nl) (dropOne ws s)"
  using assms(1)
proof (induction ws)
  case (Cons w ws)
  have "prefix w (s @ nl) \<longleftrightarrow> prefix w s" if "w \<noteq> []"
  proof
    assume p: "prefix w (s @ nl)"
    then consider "prefix w s" | "w = s @ nl" by (auto simp: nl_def prefix_snoc)
    then show "prefix w s"
    proof cases
      case 2
      then have "w = nl" using Cons.prems by (auto simp: nl_def)
      then show ?thesis using 2 assms(2) by (simp add: nl_def)
    qed
  qed simp
  moreover have "drop (length w) (s @ nl) = drop (length w) s @ nl" if "prefix w s"
    using prefix_length_le [OF that] by simp
  ultimately show ?case using Cons by auto
qed simp

lemma dropOne_newline:
  assumes "list_all (\<lambda>w. w = nl \<or> CHR 0x0A \<notin> set w) ws" and "nl \<in> set ws"
  shows "dropOne ws (CHR 0x0A # s) = Some s"
  using assms
proof (induction ws)
  case (Cons w ws)
  show ?case
  proof (cases "w = nl")
    case False
    then have "CHR 0x0A \<notin> set w" using Cons.prems by simp
    then have "\<not> (w \<noteq> [] \<and> prefix w (CHR 0x0A # s))" by (cases w) auto
    then show ?thesis using Cons False by (cases "w = []") auto
  qed (simp add: nl_def)
qed simp

lemma trimLeftOf_Nil: "trimLeftOf ws [] = []"
  using trimLeftOf_suffix [of ws "[]"] by simp

lemma trimLeftOf_line:
  assumes "list_all (\<lambda>w. w = nl \<or> CHR 0x0A \<notin> set w) ws" and "nl \<in> set ws"
  shows "trimLeftOf ws (s @ nl) = (if trimLeftOf ws s = [] then [] else trimLeftOf ws s @ nl)"
  using assms
proof (induction ws s rule: trimLeftOf.induct)
  case (1 ws s)
  show ?case
  proof (cases "s = []")
    case True
    have "dropOne ws nl = Some []" using dropOne_newline [OF 1(2,3), of "[]"] by (simp add: nl_def)
    then show ?thesis using True by (simp add: trimLeftOf.simps [of ws nl] trimLeftOf_Nil)
  next
    case False
    note d = dropOne_line [OF 1(2) False]
    show ?thesis
    proof (cases "dropOne ws s")
      case None
      then show ?thesis using d False by (simp add: trimLeftOf.simps [of ws s] trimLeftOf.simps [of ws "s @ nl"])
    next
      case (Some r)
      then show ?thesis using d 1(1) [OF Some 1(2,3)]
        by (simp add: trimLeftOf.simps [of ws s] trimLeftOf.simps [of ws "s @ nl"])
    qed
  qed
qed

lemma TrimSpace_line: "TrimSpace (s @ nl) = TrimSpace s"
proof -
  have w: "list_all (\<lambda>w. w = nl \<or> CHR 0x0A \<notin> set w) spaceRunes" "nl \<in> set spaceRunes"
    "list_all (\<lambda>w. w = nl \<or> CHR 0x0A \<notin> set w) (map rev spaceRunes)" "nl \<in> set (map rev spaceRunes)"
    by (code_simp)+
  have "trimRightOf spaceRunes (t @ nl) = trimRightOf spaceRunes t" for t
    using dropOne_newline [OF w(3,4), of "rev t"]
    by (simp add: trimRightOf_def nl_def trimLeftOf.simps [of _ "CHR 0x0A # rev t"])
  moreover have "trimRightOf spaceRunes [] = []" by (simp add: trimRightOf_def trimLeftOf_Nil)
  ultimately show ?thesis by (simp add: TrimSpace_def trimLeftOf_line [OF w(1,2)])
qed

text \<open>The user's part of the file as \<open>setup\<close> leaves it.\<close>

definition userPart :: "string \<Rightarrow> string" where
  "userPart s = (if TrimSpace s = [] then [] else if HasSuffix s nl then s else s @ nl)"

lemma HasSuffix_line [simp]: "HasSuffix (s @ p) p"
  by (auto simp: HasSuffix_def suffix_def)

lemma Upsert_eq: "UpsertManagedBlock e ls = userPart (RemoveManagedBlock e) @ blockBody ls"
  by (simp add: UpsertManagedBlock_def userPart_def blockBody_def Let_def)

lemma Remove_Upsert:
  assumes "markerFree ls"
  shows "RemoveManagedBlock (UpsertManagedBlock e ls) = userPart (RemoveManagedBlock e)"
proof -
  let ?s = "RemoveManagedBlock e"
  have n: "\<not> Contains (userPart ?s) blockBegin"
    using RemoveManagedBlock_none [of e] Contains_append_line [OF markers(1,2), of ?s]
    by (auto simp: userPart_def Contains_def markers)
  have h: "userPart ?s = [] \<or> HasSuffix (userPart ?s) nl" by (simp add: userPart_def)
  have "(if TrimSpace (userPart ?s) = [] then [] else userPart ?s) = userPart ?s"
    by (simp add: userPart_def TrimSpace_line)
  then show ?thesis using Remove_append [OF n h assms] by (simp add: Upsert_eq)
qed

lemma userPart_idem: "userPart (userPart s) = userPart s"
  by (simp add: userPart_def TrimSpace_line)

text \<open>
  Setup can be repeated: writing the block into a file that already has one, whatever
  its old settings were, gives the file that a single run with the new settings gives.
\<close>

theorem UpsertManagedBlock_repeat:
  assumes "markerFree old"
  shows "UpsertManagedBlock (UpsertManagedBlock e old) new = UpsertManagedBlock e new"
  using Remove_Upsert [OF assms, of e] by (simp add: Upsert_eq userPart_idem)

text \<open>
  Uninstalling undoes setup: from a file without a block, adding the block and removing
  it again gives the file back, except that a missing final line break is added and a file of
  white space only becomes empty.
\<close>

theorem managed_block_roundtrip:
  assumes "\<not> Contains e blockBegin" and "markerFree ls"
  shows "RemoveManagedBlock (UpsertManagedBlock e ls) =
    (if TrimSpace e = [] then [] else if HasSuffix e nl then e else e @ nl)"
  using Remove_Upsert [OF assms(2), of e] assms(1) by (simp add: RemoveManagedBlock_clean userPart_def)

lemma demo_markerFree: "markerFree (GatewayEnvLines ''/tmp/d.sock'' ''/opt/tls'')"
  unfolding markerFree_def by code_simp

theorem UpsertManagedBlock_repeat_witness:
  "UpsertManagedBlock (UpsertManagedBlock ''A=1'' (GatewayEnvLines ''/tmp/d.sock'' ''/opt/tls'')) [''B=2'']
     = UpsertManagedBlock ''A=1'' [''B=2'']"
  by (rule UpsertManagedBlock_repeat [OF demo_markerFree])

theorem managed_block_roundtrip_witness:
  "RemoveManagedBlock (UpsertManagedBlock ''A=1'' (GatewayEnvLines ''/tmp/d.sock'' ''/opt/tls'')) = ''A=1'' @ nl"
proof -
  have "\<not> Contains ''A=1'' blockBegin" by code_simp
  from managed_block_roundtrip [OF this demo_markerFree] show ?thesis
    by (simp add: HasSuffix_def nl_def suffix_def TrimSpace_visible visible_def)
qed


subsection \<open>No path is markup\<close>

lemma seqLength_cont:
  "seqLength (c # s) \<le> 1 \<or> 0x80 \<le> byteOf c \<and> seqLength (c # s) - 1 \<le> length (takeWhile isCont s)"
  by (auto simp: seqLength_def Let_def)

lemma take_cont: "k \<le> length (takeWhile isCont s) \<Longrightarrow> x \<in> set (take k s) \<Longrightarrow> isCont x"
proof -
  assume k: "k \<le> length (takeWhile isCont s)" and x: "x \<in> set (take k s)"
  have "take k s = take k (takeWhile isCont s)"
    using k by (metis takeWhile_dropWhile_id take_append diff_is_0_eq' take0 append_Nil2 take_eq_Nil)
  then show "isCont x" using x by (metis in_set_takeD set_takeWhileD)
qed

lemma runes_bytes: "r \<in> set (runes s) \<Longrightarrow> (\<exists>c. r = [c]) \<or> (\<forall>c \<in> set r. 0x80 \<le> byteOf c)"
proof (induction s rule: runes.induct)
  case (2 c s)
  let ?n = "seqLength (c # s)"
  have "(\<exists>x. take ?n (c # s) = [x]) \<or> (\<forall>x \<in> set (take ?n (c # s)). 0x80 \<le> byteOf x)" if "?n \<noteq> 0"
  proof (cases "?n = 1")
    case False
    with seqLength_cont [of c s] that have c: "0x80 \<le> byteOf c" "?n - 1 \<le> length (takeWhile isCont s)" by auto
    have "take ?n (c # s) = c # take (?n - 1) s" using that by (simp add: take_Cons')
    then show ?thesis using c take_cont [OF c(2)] by (auto simp: isCont_def)
  qed simp
  moreover have "\<forall>x \<in> set replacementRune. 0x80 \<le> byteOf x" by code_simp
  ultimately show ?case using 2 by (cases "?n = 0") (auto simp: runes.simps(2) [of c s])
qed simp

definition markup :: "char set" where "markup = {CHR ''<'', CHR ''>'', CHR 0x22, CHR 0x27}"

definition escapes :: "string list" where
  "escapes = [''&#34;'', ''&#39;'', ''&amp;'', ''&lt;'', ''&gt;'', ''&#x9;'', ''&#xA;'', ''&#xD;'', replacementRune]"

lemma if_cases_intro:
  "A \<in> X \<Longrightarrow> B \<in> X \<or> B = r \<and> Q \<Longrightarrow> (if a then A else B) \<in> X \<or> (if a then A else B) = r \<and> \<not> a \<and> Q"
  by auto

lemma escapeRune_cases:
  "escapeRune r \<in> set escapes
   \<or> escapeRune r = r \<and> r \<noteq> [CHR 0x22] \<and> r \<noteq> [CHR 0x27] \<and> r \<noteq> ''&'' \<and> r \<noteq> ''<'' \<and> r \<noteq> ''>''
       \<and> r \<noteq> [CHR 0x09] \<and> r \<noteq> [CHR 0x0A] \<and> r \<noteq> [CHR 0x0D]
       \<and> \<not> ((length r = 1 \<and> byteOf (hd r) < 0x20) \<or> r = [CHR 0xEF, CHR 0xBF, CHR 0xBE]
             \<or> r = [CHR 0xEF, CHR 0xBF, CHR 0xBF]) \<and> True"
  unfolding escapeRune_def
  by (intro if_cases_intro) (simp_all only: escapes_def list.set insert_iff simp_thms)

lemma escapes_no_markup: "list_all (\<lambda>w. list_all (\<lambda>c. c \<notin> set [CHR ''<'', CHR ''>'', CHR 0x22, CHR 0x27]) w) escapes"
  by code_simp

lemma escapeRune_no_markup:
  assumes "(\<exists>c. r = [c]) \<or> (\<forall>c \<in> set r. 0x80 \<le> byteOf c)"
  shows "set (escapeRune r) \<inter> markup = {}"
proof (cases "escapeRune r \<in> set escapes")
  case True
  then have "list_all (\<lambda>c. c \<notin> set [CHR ''<'', CHR ''>'', CHR 0x22, CHR 0x27]) (escapeRune r)"
    using escapes_no_markup by (simp only: list_all_iff [of _ escapes])
  then show ?thesis by (auto simp: list_all_iff markup_def)
next
  case False
  then have e: "escapeRune r = r" "r \<noteq> [CHR 0x22]" "r \<noteq> [CHR 0x27]" "r \<noteq> ''<''" "r \<noteq> ''>''"
    using escapeRune_cases [of r] by blast+
  have "\<forall>x \<in> markup. byteOf x < 0x80" by (simp add: markup_def)
  moreover have "set r \<inter> markup = {}" if "r = [c]" for c using e that by (auto simp: markup_def)
  ultimately show ?thesis using assms e(1) by fastforce
qed

lemma xmlEscape_no_markup: "set (xmlEscape s) \<inter> markup = {}"
proof -
  have "set (escapeRune r) \<inter> markup = {}" if "r \<in> set (runes s)" for r
    by (rule escapeRune_no_markup [OF runes_bytes [OF that]])
  then show ?thesis by (auto simp: xmlEscape_def)
qed

lemma count_escape:
  "count_list (xmlEscape s) (CHR ''<'') = 0" "count_list (xmlEscape s) (CHR ''>'') = 0"
  "count_list (xmlEscape s) (CHR 0x22) = 0"
  using xmlEscape_no_markup [of s] by (auto simp: markup_def count_list_0_iff)

lemma count_plistString:
  "count_list (plistString tab (xmlEscape v)) (CHR ''<'') = count_list (plistString tab []) (CHR ''<'')"
  "count_list (plistString tab (xmlEscape v)) (CHR ''>'') = count_list (plistString tab []) (CHR ''>'')"
  "count_list (plistString tab (xmlEscape v)) (CHR 0x22) = count_list (plistString tab []) (CHR 0x22)"
  by (simp_all add: plistString_def count_escape)

text \<open>
  The property list has the same markup whatever the binary's path, the certificate
  directory and the log path are: the brackets and quotes of the file are those of its fixed
  text, so no path can add or close an element.
\<close>

theorem RenderLaunchAgent_markup:
  "count_list (RenderLaunchAgent binPath tlsDir logPath) (CHR ''<'') = count_list (RenderLaunchAgent [] [] []) (CHR ''<'')
   \<and> count_list (RenderLaunchAgent binPath tlsDir logPath) (CHR ''>'') = count_list (RenderLaunchAgent [] [] []) (CHR ''>'')
   \<and> count_list (RenderLaunchAgent binPath tlsDir logPath) (CHR 0x22) = count_list (RenderLaunchAgent [] [] []) (CHR 0x22)"
  unfolding RenderLaunchAgent_def count_list_append count_plistString by (intro conjI refl)

end
