(* ===== verification/ComputeApi.thy ===== *)
theory ComputeApi
  imports GoStrings
begin

section \<open>The compute-driver messages (\<open>internal/gen/computev1\<close>)\<close>

text \<open>
  The protobuf messages the driver reads and emits, as records with the fields of the
  generated structs (less protobuf's own bookkeeping). A message pointer is an option,
  \<open>None\<close> being nil, and the generated getters are nil-safe as in the source. A
  protobuf map is an association list with distinct keys, in the order a \<open>range\<close>
  happens to visit it. A \<open>google.protobuf.Struct\<close> is a \<open>JValue\<close> tree.
\<close>

subsection \<open>Dynamic values\<close>

text \<open>
  \<open>JInvalid\<close> is a value \<open>protojson\<close> refuses to marshal: one without a kind, or a
  number that is not finite.
\<close>

datatype JValue =
    JNull
  | JBool bool
  | JNum string
  | JStr string
  | JList "JValue list"
  | JObj "(string \<times> JValue) list"
  | JInvalid

type_synonym Struct = "(string \<times> JValue) list"

type_synonym strmap = "(string \<times> string) list"

subsection \<open>Messages\<close>

text \<open>
  A human-readable message keeps its structure: a literal text, a rendered error, or a
  message with a console tail appended to it.
\<close>

datatype message =
    Msg string
  | MErr err
  | MTail message string

record DriverResourceRequirements =
  CpuRequest :: string
  CpuLimit :: string
  MemoryRequest :: string
  MemoryLimit :: string

record DriverSandboxTemplate =
  tplImage :: string
  tplAgentSocketPath :: string
  tplLabels :: strmap
  tplEnvironment :: strmap
  tplResources :: "DriverResourceRequirements option"
  tplDriverConfig :: "Struct option"

text \<open>\<open>GpuResourceRequirements\<close> holds an optional \<open>uint32\<close> count.\<close>

record ResourceRequirements =
  Gpu :: "nat option option"

record DriverSandboxSpec =
  spLogLevel :: string
  spEnvironment :: strmap
  spTemplate :: "DriverSandboxTemplate option"
  spResourceRequirements :: "ResourceRequirements option"
  spSandboxToken :: string
  spCommand :: "string list"
  spTty :: bool

text \<open>The transition time is kept as seconds since the epoch; \<open>None\<close> is the empty text.\<close>

record DriverCondition =
  dcType :: string
  dcStatus :: string
  dcReason :: string
  dcMessage :: message
  dcLastTransitionTime :: "int option"

record DriverSandboxStatus =
  stSandboxName :: string
  stInstanceId :: string
  stConditions :: "DriverCondition list"
  stDeleting :: bool

record DriverSandbox =
  sbId :: string
  sbName :: string
  sbNamespace :: string
  sbSpec :: "DriverSandboxSpec option"
  sbStatus :: "DriverSandboxStatus option"
  sbWorkspace :: string

record DriverPlatformEvent =
  peTimestampMs :: int
  peSource :: string
  peType :: string
  peReason :: string
  peMessage :: message

datatype WatchSandboxesEvent =
    WSandbox DriverSandbox
  | WDeleted string
  | WPlatformEvent string DriverPlatformEvent

subsection \<open>The generated getters\<close>

definition GetId :: "DriverSandbox option \<Rightarrow> string" where
  "GetId sb = (case sb of None \<Rightarrow> [] | Some s \<Rightarrow> sbId s)"

definition GetName :: "DriverSandbox option \<Rightarrow> string" where
  "GetName sb = (case sb of None \<Rightarrow> [] | Some s \<Rightarrow> sbName s)"

definition GetWorkspace :: "DriverSandbox option \<Rightarrow> string" where
  "GetWorkspace sb = (case sb of None \<Rightarrow> [] | Some s \<Rightarrow> sbWorkspace s)"

definition GetSpec :: "DriverSandbox option \<Rightarrow> DriverSandboxSpec option" where
  "GetSpec sb = (case sb of None \<Rightarrow> None | Some s \<Rightarrow> sbSpec s)"

definition GetStatus :: "DriverSandbox option \<Rightarrow> DriverSandboxStatus option" where
  "GetStatus sb = (case sb of None \<Rightarrow> None | Some s \<Rightarrow> sbStatus s)"

definition GetLogLevel :: "DriverSandboxSpec option \<Rightarrow> string" where
  "GetLogLevel sp = (case sp of None \<Rightarrow> [] | Some s \<Rightarrow> spLogLevel s)"

definition GetSpecEnvironment :: "DriverSandboxSpec option \<Rightarrow> strmap" where
  "GetSpecEnvironment sp = (case sp of None \<Rightarrow> [] | Some s \<Rightarrow> spEnvironment s)"

definition GetTemplate :: "DriverSandboxSpec option \<Rightarrow> DriverSandboxTemplate option" where
  "GetTemplate sp = (case sp of None \<Rightarrow> None | Some s \<Rightarrow> spTemplate s)"

definition GetResourceRequirements :: "DriverSandboxSpec option \<Rightarrow> ResourceRequirements option" where
  "GetResourceRequirements sp = (case sp of None \<Rightarrow> None | Some s \<Rightarrow> spResourceRequirements s)"

definition GetSandboxToken :: "DriverSandboxSpec option \<Rightarrow> string" where
  "GetSandboxToken sp = (case sp of None \<Rightarrow> [] | Some s \<Rightarrow> spSandboxToken s)"

definition GetCommand :: "DriverSandboxSpec option \<Rightarrow> string list" where
  "GetCommand sp = (case sp of None \<Rightarrow> [] | Some s \<Rightarrow> spCommand s)"

definition GetTty :: "DriverSandboxSpec option \<Rightarrow> bool" where
  "GetTty sp = (case sp of None \<Rightarrow> False | Some s \<Rightarrow> spTty s)"

definition GetGpu :: "ResourceRequirements option \<Rightarrow> nat option option" where
  "GetGpu rr = (case rr of None \<Rightarrow> None | Some r \<Rightarrow> Gpu r)"

definition GetImage :: "DriverSandboxTemplate option \<Rightarrow> string" where
  "GetImage t = (case t of None \<Rightarrow> [] | Some x \<Rightarrow> tplImage x)"

definition GetAgentSocketPath :: "DriverSandboxTemplate option \<Rightarrow> string" where
  "GetAgentSocketPath t = (case t of None \<Rightarrow> [] | Some x \<Rightarrow> tplAgentSocketPath x)"

definition GetLabels :: "DriverSandboxTemplate option \<Rightarrow> strmap" where
  "GetLabels t = (case t of None \<Rightarrow> [] | Some x \<Rightarrow> tplLabels x)"

definition GetTplEnvironment :: "DriverSandboxTemplate option \<Rightarrow> strmap" where
  "GetTplEnvironment t = (case t of None \<Rightarrow> [] | Some x \<Rightarrow> tplEnvironment x)"

definition GetResources :: "DriverSandboxTemplate option \<Rightarrow> DriverResourceRequirements option" where
  "GetResources t = (case t of None \<Rightarrow> None | Some x \<Rightarrow> tplResources x)"

definition GetDriverConfig :: "DriverSandboxTemplate option \<Rightarrow> Struct option" where
  "GetDriverConfig t = (case t of None \<Rightarrow> None | Some x \<Rightarrow> tplDriverConfig x)"

definition GetCpuRequest :: "DriverResourceRequirements option \<Rightarrow> string" where
  "GetCpuRequest r = (case r of None \<Rightarrow> [] | Some x \<Rightarrow> CpuRequest x)"

definition GetCpuLimit :: "DriverResourceRequirements option \<Rightarrow> string" where
  "GetCpuLimit r = (case r of None \<Rightarrow> [] | Some x \<Rightarrow> CpuLimit x)"

definition GetMemoryRequest :: "DriverResourceRequirements option \<Rightarrow> string" where
  "GetMemoryRequest r = (case r of None \<Rightarrow> [] | Some x \<Rightarrow> MemoryRequest x)"

definition GetMemoryLimit :: "DriverResourceRequirements option \<Rightarrow> string" where
  "GetMemoryLimit r = (case r of None \<Rightarrow> [] | Some x \<Rightarrow> MemoryLimit x)"

definition GetDeleting :: "DriverSandboxStatus option \<Rightarrow> bool" where
  "GetDeleting st = (case st of None \<Rightarrow> False | Some s \<Rightarrow> stDeleting s)"

definition GetConditions :: "DriverSandboxStatus option \<Rightarrow> DriverCondition list" where
  "GetConditions st = (case st of None \<Rightarrow> [] | Some s \<Rightarrow> stConditions s)"

lemmas api_getters = GetId_def GetName_def GetWorkspace_def GetSpec_def GetStatus_def
  GetLogLevel_def GetSpecEnvironment_def GetTemplate_def GetResourceRequirements_def
  GetSandboxToken_def GetCommand_def GetTty_def GetGpu_def GetImage_def GetAgentSocketPath_def
  GetLabels_def GetTplEnvironment_def GetResources_def GetDriverConfig_def GetCpuRequest_def
  GetCpuLimit_def GetMemoryRequest_def GetMemoryLimit_def GetDeleting_def GetConditions_def

lemma getters_nil [simp]:
  "GetSpec None = None" "GetTemplate None = None" "GetResources None = None"
  "GetId None = []" "GetImage None = []" "GetCommand None = []" "GetDriverConfig None = None"
  by (simp_all add: api_getters)

end
