(* ===== verification/Json.thy ===== *)
theory Json
  imports ComputeApi
begin

section \<open>JSON as \<open>encoding/json\<close> reads and writes it\<close>

text \<open>
  The decoder the driver runs on the CLI's listings and the release lookup, and the encoder
  behind the JSON it hands to the guest. \<open>json.Unmarshal\<close> is three steps: the scanner's
  grammar as a lexer over bytes and a stack machine over tokens, giving a value tree, then
  the type-directed assignment of the tree to Go values, with its case-folded keys, its
  ignored unknown keys and its reused slice memory. That what the encoder writes is read back
  as the same tree is shown in theory \<open>JsonRoundtrip\<close>.
\<close>

subsection \<open>Strings\<close>

definition encodeRune :: "nat \<Rightarrow> string" where
  "encodeRune n =
     (if n < 0x80 then [char_of n]
      else if n < 0x800 then [char_of (0xC0 + n div 64), char_of (0x80 + n mod 64)]
      else if n < 0x10000 then
        [char_of (0xE0 + n div 4096), char_of (0x80 + n div 64 mod 64), char_of (0x80 + n mod 64)]
      else [char_of (0xF0 + n div 262144), char_of (0x80 + n div 4096 mod 64),
            char_of (0x80 + n div 64 mod 64), char_of (0x80 + n mod 64)])"

definition hexNibble :: "char \<Rightarrow> nat option" where
  "hexNibble c =
     (let n = byteOf c
      in if isDigit c then Some (n - 48)
         else if 97 \<le> n \<and> n \<le> 102 then Some (n - 87)
         else if 65 \<le> n \<and> n \<le> 70 then Some (n - 55)
         else None)"

fun hex4 :: "string \<Rightarrow> (nat \<times> string) option" where
  "hex4 (a # b # c # d # s) =
     (case (hexNibble a, hexNibble b, hexNibble c, hexNibble d) of
        (Some x, Some y, Some z, Some w) \<Rightarrow> Some (((x * 16 + y) * 16 + z) * 16 + w, s)
      | _ \<Rightarrow> None)"
| "hex4 s = None"

text \<open>
  What follows \<open>\u\<close>: a surrogate needs its other half in the next escape, and is the
  replacement rune otherwise (the next escape then stands for itself).
\<close>

definition uEscape :: "string \<Rightarrow> (string \<times> string) option" where
  "uEscape s =
     (case hex4 s of
        None \<Rightarrow> None
      | Some (n, s1) \<Rightarrow>
          (if n < 0xD800 \<or> 0xE000 \<le> n then Some (encodeRune n, s1)
           else (case s1 of
                   x # y # s2 \<Rightarrow>
                     (if x = CHR 0x5C \<and> y = CHR ''u'' then
                        (case hex4 s2 of
                           Some (m, s3) \<Rightarrow>
                             (if n < 0xDC00 \<and> 0xDC00 \<le> m \<and> m < 0xE000
                              then Some (encodeRune (0x10000 + (n - 0xD800) * 0x400 + (m - 0xDC00)), s3)
                              else Some (replacementRune, s1))
                         | None \<Rightarrow> Some (replacementRune, s1))
                      else Some (replacementRune, s1))
                 | _ \<Rightarrow> Some (replacementRune, s1))))"

definition strEscape :: "string \<Rightarrow> (string \<times> string) option" where
  "strEscape s =
     (case s of
        [] \<Rightarrow> None
      | e # r \<Rightarrow>
          (if e = CHR 0x22 \<or> e = CHR 0x5C \<or> e = CHR ''/'' then Some ([e], r)
           else if e = CHR ''b'' then Some ([CHR 0x08], r)
           else if e = CHR ''f'' then Some ([CHR 0x0C], r)
           else if e = CHR ''n'' then Some ([CHR 0x0A], r)
           else if e = CHR ''r'' then Some ([CHR 0x0D], r)
           else if e = CHR ''t'' then Some ([CHR 0x09], r)
           else if e = CHR ''u'' then uEscape r
           else None))"

lemma hex4_shorter: "hex4 s = Some (n, r) \<Longrightarrow> length r < length s"
  by (induction s rule: hex4.induct) (auto split: option.splits)

lemma uEscape_shorter: "uEscape s = Some (t, r) \<Longrightarrow> length r < length s"
  by (auto simp: uEscape_def dest!: hex4_shorter split: option.splits list.splits if_splits)

lemma strEscape_shorter: "strEscape s = Some (t, r) \<Longrightarrow> length r < length s"
  by (auto simp: strEscape_def dest: uEscape_shorter split: list.splits if_splits)

text \<open>The rest of a string after its opening quote: its decoded bytes and what follows it.\<close>

function unquote :: "string \<Rightarrow> (string \<times> string) option" where
  "unquote [] = None"
| "unquote (c # s) =
     (if c = CHR 0x22 then Some ([], s)
      else if c = CHR 0x5C then
        (case strEscape s of
           None \<Rightarrow> None
         | Some (t, r) \<Rightarrow> map_option (apfst ((@) t)) (unquote r))
      else if byteOf c < 0x20 then None
      else if seqLength (c # s) = 0 then map_option (apfst ((@) replacementRune)) (unquote s)
      else map_option (apfst ((@) (take (seqLength (c # s)) (c # s))))
             (unquote (drop (seqLength (c # s)) (c # s))))"
  by pat_completeness auto
termination
  by (relation "measure length") (auto dest: strEscape_shorter)

declare unquote.simps [simp del]

subsection \<open>Numbers\<close>

text \<open>Each part of a literal and what follows it, or nothing when the grammar breaks there.\<close>

definition numDigits :: "string \<Rightarrow> (string \<times> string) option" where
  "numDigits s = (if takeWhile isDigit s = [] then None else Some (takeWhile isDigit s, dropWhile isDigit s))"

definition numInt :: "string \<Rightarrow> (string \<times> string) option" where
  "numInt s =
     (case s of
        [] \<Rightarrow> None
      | c # r \<Rightarrow> (if c = CHR ''0'' then Some ([c], r) else numDigits s))"

definition numSign :: "string \<Rightarrow> string \<Rightarrow> string \<times> string" where
  "numSign signs s = (case s of [] \<Rightarrow> ([], []) | c # r \<Rightarrow> (if c \<in> set signs then ([c], r) else ([], s)))"

definition numFrac :: "string \<Rightarrow> (string \<times> string) option" where
  "numFrac s =
     (case s of
        [] \<Rightarrow> Some ([], [])
      | c # r \<Rightarrow> (if c = CHR ''.'' then map_option (apfst ((#) c)) (numDigits r) else Some ([], s)))"

definition numExp :: "string \<Rightarrow> (string \<times> string) option" where
  "numExp s =
     (case s of
        [] \<Rightarrow> Some ([], [])
      | c # r \<Rightarrow>
          (if c = CHR ''e'' \<or> c = CHR ''E'' then
             (case numSign ''+-'' r of
                (sg, r1) \<Rightarrow> map_option (apfst (\<lambda>ds. c # sg @ ds)) (numDigits r1))
           else Some ([], s)))"

definition lexNumber :: "string \<Rightarrow> (string \<times> string) option" where
  "lexNumber s =
     (case numSign ''-'' s of
        (sg, s1) \<Rightarrow>
          (case numInt s1 of
             None \<Rightarrow> None
           | Some (i, s2) \<Rightarrow>
               (case numFrac s2 of
                  None \<Rightarrow> None
                | Some (f, s3) \<Rightarrow> map_option (apfst (\<lambda>e. sg @ i @ f @ e)) (numExp s3))))"

subsection \<open>Tokens\<close>

datatype token = TLBrace | TRBrace | TLBrack | TRBrack | TComma | TColon | TVal JValue

definition isJsonSpace :: "char \<Rightarrow> bool" where
  "isJsonSpace c \<longleftrightarrow> c = CHR 0x20 \<or> c = CHR 0x09 \<or> c = CHR 0x0A \<or> c = CHR 0x0D"

definition lexWord :: "string \<Rightarrow> JValue \<Rightarrow> string \<Rightarrow> (token \<times> string) option" where
  "lexWord w v s = (if prefix w s then Some (TVal v, drop (length w) s) else None)"

definition lexOne :: "char \<Rightarrow> string \<Rightarrow> (token \<times> string) option" where
  "lexOne c s =
     (if c = CHR ''{'' then Some (TLBrace, s)
      else if c = CHR ''}'' then Some (TRBrace, s)
      else if c = CHR ''['' then Some (TLBrack, s)
      else if c = CHR '']'' then Some (TRBrack, s)
      else if c = CHR '','' then Some (TComma, s)
      else if c = CHR '':'' then Some (TColon, s)
      else if c = CHR 0x22 then map_option (apfst (\<lambda>t. TVal (JStr t))) (unquote s)
      else if c = CHR ''t'' then lexWord ''rue'' (JBool True) s
      else if c = CHR ''f'' then lexWord ''alse'' (JBool False) s
      else if c = CHR ''n'' then lexWord ''ull'' JNull s
      else map_option (apfst (\<lambda>t. TVal (JNum t))) (lexNumber (c # s)))"

lemma unquote_shorter: "unquote s = Some (t, r) \<Longrightarrow> length r < length s"
proof (induction s arbitrary: t rule: unquote.induct)
  case (2 c s)
  then show ?case
    by (auto simp: unquote.simps(2) [of c s] dest!: strEscape_shorter split: if_splits option.splits prod.splits)
      fastforce+
qed (simp add: unquote.simps)

lemma numDigits_shorter: "numDigits s = Some (t, r) \<Longrightarrow> length r < length s"
proof -
  assume "numDigits s = Some (t, r)"
  then have "takeWhile isDigit s \<noteq> []" "r = dropWhile isDigit s" by (auto simp: numDigits_def split: if_splits)
  moreover have "length s = length (takeWhile isDigit s) + length (dropWhile isDigit s)"
    by (metis length_append takeWhile_dropWhile_id)
  ultimately show ?thesis by (cases "takeWhile isDigit s") auto
qed

lemma lexNumber_shorter:
  assumes "lexNumber s = Some (t, r)"
  shows "length r < length s"
proof -
  have sg: "numSign c u = (a, v) \<Longrightarrow> length v \<le> length u" for c u a v
    by (auto simp: numSign_def split: list.splits if_splits)
  have i: "numInt u = Some (a, v) \<Longrightarrow> length v < length u" for u a v
    by (auto simp: numInt_def dest: numDigits_shorter split: list.splits if_splits)
  have f: "numFrac u = Some (a, v) \<Longrightarrow> length v \<le> length u" for u a v
    by (auto simp: numFrac_def dest!: numDigits_shorter split: list.splits if_splits)
  have e: "numExp u = Some (a, v) \<Longrightarrow> length v \<le> length u" for u a v
    by (auto simp: numExp_def dest!: numDigits_shorter sg split: list.splits if_splits prod.splits)
  obtain g s1 i' s2 f' s3 e' where
    "numSign ''-'' s = (g, s1)" "numInt s1 = Some (i', s2)" "numFrac s2 = Some (f', s3)" "numExp s3 = Some (e', r)"
    using assms by (auto simp: lexNumber_def split: prod.splits option.splits)
  from sg [OF this(1)] i [OF this(2)] f [OF this(3)] e [OF this(4)] show ?thesis by linarith
qed

lemma lexOne_shorter: "lexOne c s = Some (t, r) \<Longrightarrow> length r < Suc (length s)"
  by (auto simp: lexOne_def lexWord_def dest!: unquote_shorter lexNumber_shorter split: if_splits)

function lexTokens :: "string \<Rightarrow> token list option" where
  "lexTokens [] = Some []"
| "lexTokens (c # s) =
     (if isJsonSpace c then lexTokens s
      else (case lexOne c s of
              None \<Rightarrow> None
            | Some (t, r) \<Rightarrow> map_option ((#) t) (lexTokens r)))"
  by pat_completeness auto
termination
  by (relation "measure length") (auto dest: lexOne_shorter)

declare lexTokens.simps [simp del]

subsection \<open>Values\<close>

text \<open>
  The open arrays and objects, innermost first (an object may be waiting for the value of a
  key), and what may come next. Nesting deeper than 10000 is refused.
\<close>

datatype frame = FArr "JValue list" | FObj Struct | FMem Struct string

datatype pstate =
    PValue "frame list"      \<comment> \<open>a value\<close>
  | PFirst "frame list"      \<comment> \<open>a value, or the end of the empty array\<close>
  | PKey "frame list" bool   \<comment> \<open>a key, or (when true) the end of the empty object\<close>
  | PColon "frame list"
  | PAfter "frame list"      \<comment> \<open>a comma or the end of the innermost\<close>
  | PDone JValue

definition maxNestingDepth :: nat where "maxNestingDepth = 10000"

fun putValue :: "JValue \<Rightarrow> frame list \<Rightarrow> pstate" where
  "putValue v (FArr vs # fr) = PAfter (FArr (vs @ [v]) # fr)"
| "putValue v (FMem fs k # fr) = PAfter (FObj (fs @ [(k, v)]) # fr)"
| "putValue v fr = PDone v"

definition openFrame :: "(frame list \<Rightarrow> pstate) \<Rightarrow> frame \<Rightarrow> frame list \<Rightarrow> pstate option" where
  "openFrame next f fr = (if length fr < maxNestingDepth then Some (next (f # fr)) else None)"

definition stepValue :: "frame list \<Rightarrow> token \<Rightarrow> pstate option" where
  "stepValue fr t =
     (case t of
        TVal v \<Rightarrow> Some (putValue v fr)
      | TLBrack \<Rightarrow> openFrame PFirst (FArr []) fr
      | TLBrace \<Rightarrow> openFrame (\<lambda>fr. PKey fr True) (FObj []) fr
      | _ \<Rightarrow> None)"

fun stepToken :: "pstate \<Rightarrow> token \<Rightarrow> pstate option" where
  "stepToken (PValue fr) t = stepValue fr t"
| "stepToken (PFirst (FArr vs # fr)) TRBrack = Some (putValue (JList vs) fr)"
| "stepToken (PFirst fr) t = stepValue fr t"
| "stepToken (PKey (FObj fs # fr) e) (TVal (JStr k)) = Some (PColon (FMem fs k # fr))"
| "stepToken (PKey (FObj fs # fr) True) TRBrace = Some (putValue (JObj fs) fr)"
| "stepToken (PColon fr) TColon = Some (PValue fr)"
| "stepToken (PAfter (FArr vs # fr)) TComma = Some (PValue (FArr vs # fr))"
| "stepToken (PAfter (FArr vs # fr)) TRBrack = Some (putValue (JList vs) fr)"
| "stepToken (PAfter (FObj fs # fr)) TComma = Some (PKey (FObj fs # fr) False)"
| "stepToken (PAfter (FObj fs # fr)) TRBrace = Some (putValue (JObj fs) fr)"
| "stepToken _ _ = None"

fun runTokens :: "pstate \<Rightarrow> token list \<Rightarrow> pstate option" where
  "runTokens p [] = Some p"
| "runTokens p (t # ts) = (case stepToken p t of None \<Rightarrow> None | Some p' \<Rightarrow> runTokens p' ts)"

definition parseJSON :: "string \<Rightarrow> JValue option" where
  "parseJSON data =
     (case lexTokens data of
        None \<Rightarrow> None
      | Some ts \<Rightarrow> (case runTokens (PValue []) ts of Some (PDone v) \<Rightarrow> Some v | _ \<Rightarrow> None))"

subsection \<open>Assigning a tree to a Go value\<close>

text \<open>
  The Go types the driver decodes into, a struct by the tags of its fields. A slice is its
  visible elements and the stale ones behind them in the backing array, which a second key
  for the same field finds again; a fresh slice is nil.
\<close>

datatype gotype = GTString | GTInt64 | GTStrMap | GTSlice gotype | GTStruct "(string \<times> gotype) list"

datatype goval =
    VString string
  | VInt int
  | VStrMap strmap
  | VSlice "goval list" "goval list"
  | VStruct "(string \<times> goval) list"

fun zeroValue :: "gotype \<Rightarrow> goval" where
  "zeroValue GTString = VString []"
| "zeroValue GTInt64 = VInt 0"
| "zeroValue GTStrMap = VStrMap []"
| "zeroValue (GTSlice t) = VSlice [] []"
| "zeroValue (GTStruct fs) = VStruct (map (\<lambda>(n, t). (n, zeroValue t)) fs)"

text \<open>
  Keys are compared after case folding: ASCII letters, and the two other runes that fold to
  one (U+212A and U+017F). An exact match goes first.
\<close>

definition foldKey :: "string \<Rightarrow> string" where
  "foldKey s =
     concat (map (\<lambda>r. if r = [CHR 0xE2, CHR 0x84, CHR 0xAA] then ''k''
                      else if r = [CHR 0xC5, CHR 0xBF] then ''s''
                      else (case r of [c] \<Rightarrow> [lowerChar c] | _ \<Rightarrow> r)) (runes s))"

definition fieldFor :: "(string \<times> gotype) list \<Rightarrow> string \<Rightarrow> (string \<times> gotype) option" where
  "fieldFor fs k =
     (case List.find (\<lambda>p. fst p = k) fs of
        Some p \<Rightarrow> Some p
      | None \<Rightarrow> List.find (\<lambda>p. foldKey (fst p) = foldKey k) fs)"

definition getField :: "string \<Rightarrow> (string \<times> goval) list \<Rightarrow> goval" where
  "getField n vs = (case map_of vs n of Some v \<Rightarrow> v | None \<Rightarrow> VString [])"

definition setField :: "string \<Rightarrow> goval \<Rightarrow> (string \<times> goval) list \<Rightarrow> (string \<times> goval) list" where
  "setField n v vs = map (\<lambda>(m, w). (m, if m = n then v else w)) vs"

fun decodeStrMap :: "strmap \<Rightarrow> Struct \<Rightarrow> strmap option" where
  "decodeStrMap m [] = Some m"
| "decodeStrMap m ((k, JStr s) # fs) = decodeStrMap (AList.update k s m) fs"
| "decodeStrMap m ((k, JNull) # fs) = decodeStrMap (AList.update k [] m) fs"
| "decodeStrMap m _ = None"

text \<open>
  \<open>None\<close> is a value of the wrong kind, a number that is no integer of 64 bits included:
  Go goes on with the other fields, but the call fails and the callers drop the result.
\<close>

fun decodeValue :: "gotype \<Rightarrow> goval \<Rightarrow> JValue \<Rightarrow> goval option"
  and decodeElems :: "gotype \<Rightarrow> goval list \<Rightarrow> JValue list \<Rightarrow> goval list option"
  and decodeMembers :: "(string \<times> gotype) list \<Rightarrow> (string \<times> goval) list \<Rightarrow> Struct
    \<Rightarrow> (string \<times> goval) list option"
where
  "decodeValue (GTSlice t) old JNull = Some (VSlice [] [])"
| "decodeValue GTStrMap old JNull = Some (VStrMap [])"
| "decodeValue t old JNull = Some old"
| "decodeValue GTString old (JStr s) = Some (VString s)"
| "decodeValue GTInt64 old (JNum n) = map_option VInt (Atoi n)"
| "decodeValue GTStrMap (VStrMap m) (JObj fs) = map_option VStrMap (decodeStrMap m fs)"
| "decodeValue (GTSlice t) old (JList []) = Some (VSlice [] [])"
| "decodeValue (GTSlice t) (VSlice vis hid) (JList (v # vs)) =
     map_option (\<lambda>ws. VSlice ws (drop (length ws) (vis @ hid))) (decodeElems t (vis @ hid) (v # vs))"
| "decodeValue (GTStruct ts) (VStruct os) (JObj fs) = map_option VStruct (decodeMembers ts os fs)"
| "decodeValue t old v = None"
| "decodeElems t cells [] = Some []"
| "decodeElems t cells (v # vs) =
     (case decodeValue t (case cells of [] \<Rightarrow> zeroValue t | c # _ \<Rightarrow> c) v of
        None \<Rightarrow> None
      | Some w \<Rightarrow> map_option ((#) w) (decodeElems t (drop 1 cells) vs))"
| "decodeMembers ts os [] = Some os"
| "decodeMembers ts os ((k, v) # fs) =
     (case fieldFor ts k of
        None \<Rightarrow> decodeMembers ts os fs
      | Some (n, t) \<Rightarrow>
          (case decodeValue t (getField n os) v of
             None \<Rightarrow> None
           | Some w \<Rightarrow> decodeMembers ts (setField n w os) fs))"

definition Unmarshal :: "gotype \<Rightarrow> string \<Rightarrow> goval option" where
  "Unmarshal t data =
     (case parseJSON data of None \<Rightarrow> None | Some v \<Rightarrow> decodeValue t (zeroValue t) v)"

text \<open>Reading a decoded value.\<close>

fun goString :: "goval \<Rightarrow> string" where "goString (VString s) = s" | "goString _ = []"
fun goInt :: "goval \<Rightarrow> int" where "goInt (VInt i) = i" | "goInt _ = 0"
fun goStrMap :: "goval \<Rightarrow> strmap" where "goStrMap (VStrMap m) = m" | "goStrMap _ = []"
fun goSlice :: "goval \<Rightarrow> goval list" where "goSlice (VSlice vs hid) = vs" | "goSlice _ = []"

text \<open>The field a path of tags leads to.\<close>

fun goField :: "string list \<Rightarrow> goval \<Rightarrow> goval" where
  "goField [] v = v"
| "goField (n # ns) (VStruct vs) = goField ns (getField n vs)"
| "goField (n # ns) v = VString []"

subsection \<open>The encoder\<close>

definition hexDigit :: "nat \<Rightarrow> char" where
  "hexDigit n = (if n < 10 then digitChar n else char_of (87 + n))"

definition jsonRune :: "string \<Rightarrow> string" where
  "jsonRune r =
     (case r of
        [c] \<Rightarrow>
          (if c = CHR 0x22 \<or> c = CHR 0x5C then [CHR 0x5C, c]
           else if c = CHR 0x08 then [CHR 0x5C, CHR ''b'']
           else if c = CHR 0x0C then [CHR 0x5C, CHR ''f'']
           else if c = CHR 0x0A then [CHR 0x5C, CHR ''n'']
           else if c = CHR 0x0D then [CHR 0x5C, CHR ''r'']
           else if c = CHR 0x09 then [CHR 0x5C, CHR ''t'']
           else if byteOf c < 0x20 \<or> c \<in> set ''<>&''
           then [CHR 0x5C] @ ''u00'' @ [hexDigit (byteOf c div 16), hexDigit (byteOf c mod 16)]
           else [c])
      | _ \<Rightarrow>
          (if r = replacementRune then [CHR 0x5C] @ ''ufffd''
           else if r = [CHR 0xE2, CHR 0x80, CHR 0xA8] then [CHR 0x5C] @ ''u2028''
           else if r = [CHR 0xE2, CHR 0x80, CHR 0xA9] then [CHR 0x5C] @ ''u2029''
           else r))"

text \<open>A well-formed U+FFFD in the input is kept; only invalid bytes are escaped.\<close>

function jsonChars :: "string \<Rightarrow> string" where
  "jsonChars [] = []"
| "jsonChars (c # s) =
     (if seqLength (c # s) = 0 then [CHR 0x5C] @ ''ufffd'' @ jsonChars s
      else (let r = take (seqLength (c # s)) (c # s)
            in (if r = replacementRune then r else jsonRune r)
               @ jsonChars (drop (seqLength (c # s)) (c # s))))"
  by pat_completeness auto
termination
  by (relation "measure length") auto

definition jsonString :: "string \<Rightarrow> string" where
  "jsonString s = [CHR 0x22] @ jsonChars s @ [CHR 0x22]"

text \<open>
  \<open>json.Marshal\<close> of a tree, and \<open>json.MarshalIndent\<close>: \<open>br d\<close> is the break in front of an
  element at depth \<open>d\<close>, \<open>colon\<close> what separates a key from its value.
\<close>

fun encodeWith :: "(nat \<Rightarrow> string) \<Rightarrow> string \<Rightarrow> nat \<Rightarrow> JValue \<Rightarrow> string" where
  "encodeWith br colon d JNull = ''null''"
| "encodeWith br colon d (JBool b) = (if b then ''true'' else ''false'')"
| "encodeWith br colon d (JNum n) = n"
| "encodeWith br colon d (JStr s) = jsonString s"
| "encodeWith br colon d (JList vs) =
     (if vs = [] then ''[]''
      else ''['' @ br (Suc d) @ joinWith ('','' @ br (Suc d)) (map (encodeWith br colon (Suc d)) vs)
           @ br d @ '']'')"
| "encodeWith br colon d (JObj fs) =
     (if fs = [] then ''{}''
      else ''{'' @ br (Suc d)
           @ joinWith ('','' @ br (Suc d))
               (map (\<lambda>(k, v). jsonString k @ colon @ encodeWith br colon (Suc d) v) fs)
           @ br d @ ''}'')"
| "encodeWith br colon d JInvalid = []"

definition encodeJSON :: "JValue \<Rightarrow> string" where
  "encodeJSON v = encodeWith (\<lambda>_. []) '':'' 0 v"

definition indentJSON :: "JValue \<Rightarrow> string" where
  "indentJSON v = encodeWith (\<lambda>d. CHR 0x0A # replicate (2 * d) (CHR 0x20)) '': '' 0 v"

subsection \<open>Reading a string back\<close>

text \<open>A Go string as text: the bytes that are no UTF-8 replaced by U+FFFD.\<close>

definition validUTF8 :: "string \<Rightarrow> string" where
  "validUTF8 s = concat (runes s)"

lemma validUTF8_ascii: "list_all (\<lambda>c. byteOf c < 0x80) s \<Longrightarrow> validUTF8 s = s"
  by (simp add: validUTF8_def runes_ascii)

lemma takeWhile_Suc: "Suc n \<le> length (takeWhile P r) \<Longrightarrow> \<exists>x r'. r = x # r' \<and> P x \<and> n \<le> length (takeWhile P r')"
  by (cases r) (auto split: if_splits)

text \<open>A well-formed sequence at the front, and what its bytes are.\<close>

lemma seqLength_cases:
  assumes "seqLength s = n" and "n \<noteq> 0"
  obtains (ascii) c r where "s = c # r" "n = 1" "byteOf c < 0x80"
  | (two) a x r where "s = a # x # r" "n = 2" "0x80 \<le> byteOf a" "isCont x"
  | (three) a x y r where "s = a # x # y # r" "n = 3" "0x80 \<le> byteOf a" "isCont x" "isCont y"
  | (four) a x y z r where "s = a # x # y # z # r" "n = 4" "0x80 \<le> byteOf a" "isCont x" "isCont y" "isCont z"
proof -
  obtain a r where s: "s = a # r" using assms by (cases s) (auto simp: seqLength_def)
  let ?k = "length (takeWhile isCont r)"
  have k: "1 \<le> ?k \<Longrightarrow> \<exists>x r1. r = x # r1 \<and> isCont x"
    "2 \<le> ?k \<Longrightarrow> \<exists>x y r1. r = x # y # r1 \<and> isCont x \<and> isCont y"
    "3 \<le> ?k \<Longrightarrow> \<exists>x y z r1. r = x # y # z # r1 \<and> isCont x \<and> isCont y \<and> isCont z"
    by (auto simp: numeral_2_eq_2 numeral_3_eq_3 dest!: takeWhile_Suc)
  have "n = 1 \<and> byteOf a < 0x80 \<or> n = 2 \<and> 0x80 \<le> byteOf a \<and> 1 \<le> ?k
    \<or> n = 3 \<and> 0x80 \<le> byteOf a \<and> 2 \<le> ?k \<or> n = 4 \<and> 0x80 \<le> byteOf a \<and> 3 \<le> ?k"
    using assms by (auto simp: s seqLength_def Let_def split: if_splits)
  then show thesis
  proof (elim disjE conjE)
    assume "n = 1" "byteOf a < 0x80"
    then show thesis using ascii s by blast
  next
    assume h: "n = 2" "0x80 \<le> byteOf a" "1 \<le> ?k"
    from k(1) [OF h(3)] show thesis using two h s by blast
  next
    assume h: "n = 3" "0x80 \<le> byteOf a" "2 \<le> ?k"
    from k(2) [OF h(3)] show thesis using three h s by blast
  next
    assume h: "n = 4" "0x80 \<le> byteOf a" "3 \<le> ?k"
    from k(3) [OF h(3)] show thesis using four h s by blast
  qed
qed

text \<open>It stays one whatever follows it.\<close>

lemma seqLength_take:
  assumes "seqLength s = n" and "n \<noteq> 0"
  shows "seqLength (take n s @ t) = n \<and> length (take n s) = n"
  using assms by (rule seqLength_cases) (use assms in \<open>auto simp: seqLength_def Let_def split: if_splits\<close>)

end
