(* ===== verification/Backend.thy ===== *)
theory Backend
  imports Json "HOL-Library.List_Lexorder" "HOL-Library.Char_ord"
begin

section \<open>The container runtime (\<open>internal/backend\<close>)\<close>

text \<open>
  The types of the \<open>Runtime\<close> interface, the interface itself as a record of state
  transformers over a world \<open>'w\<close>, and the CLI implementation: its argument vectors, its
  reading of what the command prints, its reading of failures. A Go context is a \<open>bool\<close>:
  whether it has been cancelled when the call is made. The interface's documented laws are the
  locale \<open>vm_runtime\<close>, which \<open>FakeRuntime\<close> and \<open>CliContract\<close> interpret.
\<close>

subsection \<open>Types\<close>

record VolumeMount =
  HostPath :: string
  GuestPath :: string
  vmReadOnly :: bool

record RunSpec =
  rsName :: string
  rsImage :: string
  rsNetwork :: string
  rsVolumes :: "VolumeMount list"
  rsTmpfs :: "string list"
  rsEnv :: strmap
  rsLabels :: strmap
  rsCPUs :: int
  rsMemoryMB :: int
  rsEntrypoint :: string
  rsArgs :: "string list"
  rsKernel :: string
  rsUID :: "int option"
  rsGID :: "int option"
  rsCapAdd :: "string list"

definition zeroRunSpec :: RunSpec where
  "zeroRunSpec = \<lparr>rsName = [], rsImage = [], rsNetwork = [], rsVolumes = [], rsTmpfs = [],
     rsEnv = [], rsLabels = [], rsCPUs = 0, rsMemoryMB = 0, rsEntrypoint = [], rsArgs = [],
     rsKernel = [], rsUID = None, rsGID = None, rsCapAdd = []\<rparr>"

record NetworkAttachment =
  naNetwork :: string
  naHostname :: string
  naIPv4Address :: string
  naIPv4Gateway :: string

record Container =
  cID :: string
  cState :: string
  cImageRef :: string
  cImageDigest :: string
  cLabels :: strmap
  cNetworks :: "NetworkAttachment list"
  cCPUs :: int
  cMemoryBytes :: int
  cCreatedAt :: string
  cStartedAt :: string

record Image =
  imReference :: string
  imDigest :: string
  imUser :: string

record Network =
  nwName :: string
  nwIPv4Gateway :: string
  nwIPv4Subnet :: string

text \<open>\<open>Container.IPv4\<close>: the first attachment with an address decides.\<close>

fun firstIPv4 :: "NetworkAttachment list \<Rightarrow> string" where
  "firstIPv4 [] = []"
| "firstIPv4 (n # ns) =
     (case Index (naIPv4Address n) ''/'' of
        Some i \<Rightarrow> take i (naIPv4Address n)
      | None \<Rightarrow> (if naIPv4Address n \<noteq> [] then naIPv4Address n else firstIPv4 ns))"

definition IPv4 :: "Container \<Rightarrow> string" where
  "IPv4 c = firstIPv4 (cNetworks c)"

subsection \<open>The \<open>Runtime\<close> interface\<close>

text \<open>
  \<open>rtCopyFrom\<close> (container, guest path, host path) returns the bytes the runtime leaves at
  the host path; updating the host file system with them is the caller's step in the model.
\<close>

record 'w Runtime =
  rtRun :: "bool \<Rightarrow> RunSpec \<Rightarrow> 'w \<Rightarrow> (err + string) \<times> 'w"
  rtDelete :: "bool \<Rightarrow> string \<Rightarrow> 'w \<Rightarrow> err option \<times> 'w"
  rtStop :: "bool \<Rightarrow> string \<Rightarrow> 'w \<Rightarrow> err option \<times> 'w"
  rtStart :: "bool \<Rightarrow> string \<Rightarrow> 'w \<Rightarrow> err option \<times> 'w"
  rtList :: "bool \<Rightarrow> bool \<Rightarrow> 'w \<Rightarrow> (err + Container list) \<times> 'w"
  rtGet :: "bool \<Rightarrow> string \<Rightarrow> 'w \<Rightarrow> (err + Container) \<times> 'w"
  rtImageList :: "bool \<Rightarrow> 'w \<Rightarrow> (err + Image list) \<times> 'w"
  rtImagePull :: "bool \<Rightarrow> string \<Rightarrow> string \<Rightarrow> 'w \<Rightarrow> err option \<times> 'w"
  rtCreate :: "bool \<Rightarrow> string \<Rightarrow> string \<Rightarrow> 'w \<Rightarrow> (err + string) \<times> 'w"
  rtCopyFrom :: "bool \<Rightarrow> string \<Rightarrow> string \<Rightarrow> string \<Rightarrow> 'w \<Rightarrow> (err + string) \<times> 'w"
  rtNetworks :: "bool \<Rightarrow> 'w \<Rightarrow> (err + Network list) \<times> 'w"
  rtNetworkCreate :: "bool \<Rightarrow> string \<Rightarrow> 'w \<Rightarrow> err option \<times> 'w"
  rtLogs :: "bool \<Rightarrow> string \<Rightarrow> int \<Rightarrow> 'w \<Rightarrow> (err + string) \<times> 'w"
  rtSystemStart :: "bool \<Rightarrow> 'w \<Rightarrow> err option \<times> 'w"
  rtVersion :: "bool \<Rightarrow> 'w \<Rightarrow> (err + string) \<times> 'w"

subsection \<open>Argument vectors of \<open>container run\<close>\<close>

definition sortedKeys :: "strmap \<Rightarrow> string list" where
  "sortedKeys m = sort (map fst m)"

definition mapGet :: "strmap \<Rightarrow> string \<Rightarrow> string" where
  "mapGet m k = (case map_of m k of None \<Rightarrow> [] | Some v \<Rightarrow> v)"

definition volumeArg :: "VolumeMount \<Rightarrow> string" where
  "volumeArg v =
     HostPath v @ '':'' @ GuestPath v @ (if vmReadOnly v then '':ro'' else [])"

text \<open>The flags, then the image, then its arguments.\<close>

definition runFlags :: "RunSpec \<Rightarrow> string list" where
  "runFlags spec =
     [''run'', ''--detach'', ''--name'', rsName spec]
     @ (if rsNetwork spec \<noteq> [] then [''--network'', rsNetwork spec] else [])
     @ concat (map (\<lambda>v. [''--volume'', volumeArg v]) (rsVolumes spec))
     @ concat (map (\<lambda>t. [''--tmpfs'', t]) (rsTmpfs spec))
     @ concat (map (\<lambda>k. [''--env'', k @ ''='' @ mapGet (rsEnv spec) k]) (sortedKeys (rsEnv spec)))
     @ concat (map (\<lambda>k. [''--label'', k @ ''='' @ mapGet (rsLabels spec) k])
         (sortedKeys (rsLabels spec)))
     @ (if rsCPUs spec > 0 then [''--cpus'', intString (rsCPUs spec)] else [])
     @ (if rsMemoryMB spec > 0 then [''--memory'', intString (rsMemoryMB spec) @ ''M''] else [])
     @ (case rsUID spec of None \<Rightarrow> [] | Some u \<Rightarrow> [''--uid'', intString u])
     @ (case rsGID spec of None \<Rightarrow> [] | Some g \<Rightarrow> [''--gid'', intString g])
     @ concat (map (\<lambda>c. [''--cap-add'', c]) (rsCapAdd spec))
     @ (if rsKernel spec \<noteq> [] then [''--kernel'', rsKernel spec] else [])
     @ (if rsEntrypoint spec \<noteq> [] then [''--entrypoint'', rsEntrypoint spec] else [])"

definition RunArgs :: "RunSpec \<Rightarrow> string list" where
  "RunArgs spec = runFlags spec @ [rsImage spec] @ rsArgs spec"

subsection \<open>Parsing the CLI's output\<close>

definition isNotFound :: "string \<Rightarrow> bool" where
  "isNotFound stderr =
     (let s = toLowerASCII stderr
      in Contains s ''not found'' \<or> Contains s ''does not exist'' \<or> Contains s ''no such'')"

fun firstVersion :: "string list \<Rightarrow> string" where
  "firstVersion [] = []"
| "firstVersion (f0 # fs) =
     (let f = TrimSet f0 ''()v''; parts = splitOn (CHR ''.'') f
      in if length parts = 3 \<and> list_all (\<lambda>p. Atoi p \<noteq> None) parts then f
         else firstVersion fs)"

definition ParseVersionOutput :: "string \<Rightarrow> string" where
  "ParseVersionOutput out = firstVersion (Fields out)"

text \<open>
  The structs the listings are decoded into, as the Go types \<open>Unmarshal\<close> is directed by and
  as records: \<open>lsEntryOf\<close> reads the record off the decoded value, field by field.
\<close>

record lsNetwork =
  lnNetwork :: string
  lnHostname :: string
  lnIPv4Address :: string
  lnIPv4Gateway :: string

record lsEntry =
  lsID :: string
  lsState :: string
  lsStarted :: string
  lsNetworks :: "lsNetwork list"
  lsCreationDate :: string
  lsImageReference :: string
  lsImageDigest :: string
  lsLabels :: strmap
  lsCPUs :: int
  lsMemoryInBytes :: int

definition lsNetworkType :: gotype where
  "lsNetworkType = GTStruct
     [(''network'', GTString), (''hostname'', GTString), (''ipv4Address'', GTString),
      (''ipv4Gateway'', GTString)]"

definition lsEntryType :: gotype where
  "lsEntryType = GTStruct
     [(''id'', GTString),
      (''status'', GTStruct
         [(''state'', GTString), (''startedDate'', GTString), (''networks'', GTSlice lsNetworkType)]),
      (''configuration'', GTStruct
         [(''creationDate'', GTString),
          (''image'', GTStruct
             [(''reference'', GTString), (''descriptor'', GTStruct [(''digest'', GTString)])]),
          (''labels'', GTStrMap),
          (''resources'', GTStruct [(''cpus'', GTInt64), (''memoryInBytes'', GTInt64)])])]"

definition lsNetworkOf :: "goval \<Rightarrow> lsNetwork" where
  "lsNetworkOf v =
     \<lparr>lnNetwork = goString (goField [''network''] v), lnHostname = goString (goField [''hostname''] v),
      lnIPv4Address = goString (goField [''ipv4Address''] v),
      lnIPv4Gateway = goString (goField [''ipv4Gateway''] v)\<rparr>"

definition lsEntryOf :: "goval \<Rightarrow> lsEntry" where
  "lsEntryOf v =
     \<lparr>lsID = goString (goField [''id''] v),
      lsState = goString (goField [''status'', ''state''] v),
      lsStarted = goString (goField [''status'', ''startedDate''] v),
      lsNetworks = map lsNetworkOf (goSlice (goField [''status'', ''networks''] v)),
      lsCreationDate = goString (goField [''configuration'', ''creationDate''] v),
      lsImageReference = goString (goField [''configuration'', ''image'', ''reference''] v),
      lsImageDigest = goString (goField [''configuration'', ''image'', ''descriptor'', ''digest''] v),
      lsLabels = goStrMap (goField [''configuration'', ''labels''] v),
      lsCPUs = goInt (goField [''configuration'', ''resources'', ''cpus''] v),
      lsMemoryInBytes = goInt (goField [''configuration'', ''resources'', ''memoryInBytes''] v)\<rparr>"

definition toContainer :: "lsEntry \<Rightarrow> Container" where
  "toContainer e =
     \<lparr>cID = lsID e, cState = lsState e, cImageRef = lsImageReference e,
      cImageDigest = lsImageDigest e, cLabels = lsLabels e,
      cNetworks = map (\<lambda>n. \<lparr>naNetwork = lnNetwork n, naHostname = lnHostname n,
         naIPv4Address = lnIPv4Address n, naIPv4Gateway = lnIPv4Gateway n\<rparr>) (lsNetworks e),
      cCPUs = lsCPUs e, cMemoryBytes = lsMemoryInBytes e,
      cCreatedAt = lsCreationDate e, cStartedAt = lsStarted e\<rparr>"

definition ParseContainerList :: "string \<Rightarrow> err + Container list" where
  "ParseContainerList data =
     (case Unmarshal (GTSlice lsEntryType) data of
        None \<Rightarrow> Inl (errorf ''parse container list: %w'' [])
      | Some v \<Rightarrow> Inr (map (\<lambda>e. toContainer (lsEntryOf e)) (goSlice v)))"

record imageEntry =
  ieName :: string
  ieDigest :: string
  ieVariants :: "(string \<times> string) list" \<comment> \<open>architecture and OCI user of each variant\<close>

definition imageEntryType :: gotype where
  "imageEntryType = GTStruct
     [(''configuration'', GTStruct
         [(''name'', GTString), (''descriptor'', GTStruct [(''digest'', GTString)])]),
      (''variants'', GTSlice (GTStruct
         [(''config'', GTStruct
             [(''architecture'', GTString), (''config'', GTStruct [(''User'', GTString)])])]))]"

definition imageEntryOf :: "goval \<Rightarrow> imageEntry" where
  "imageEntryOf v =
     \<lparr>ieName = goString (goField [''configuration'', ''name''] v),
      ieDigest = goString (goField [''configuration'', ''descriptor'', ''digest''] v),
      ieVariants = map (\<lambda>w. (goString (goField [''config'', ''architecture''] w),
                             goString (goField [''config'', ''config'', ''User''] w)))
                     (goSlice (goField [''variants''] v))\<rparr>"

fun variantUser :: "(string \<times> string) list \<Rightarrow> string option" where
  "variantUser [] = None"
| "variantUser ((arch, user) # vs) = (if arch = ''arm64'' then Some user else variantUser vs)"

definition imageUser :: "imageEntry \<Rightarrow> string" where
  "imageUser e =
     (case variantUser (ieVariants e) of
        Some u \<Rightarrow> u
      | None \<Rightarrow> (case ieVariants e of [] \<Rightarrow> [] | v # _ \<Rightarrow> snd v))"

definition imageOf :: "imageEntry \<Rightarrow> Image" where
  "imageOf e = \<lparr>imReference = ieName e, imDigest = ieDigest e, imUser = imageUser e\<rparr>"

definition ParseImageList :: "string \<Rightarrow> err + Image list" where
  "ParseImageList data =
     (case Unmarshal (GTSlice imageEntryType) data of
        None \<Rightarrow> Inl (errorf ''parse image list: %w'' [])
      | Some v \<Rightarrow> Inr (map (\<lambda>e. imageOf (imageEntryOf e)) (goSlice v)))"

definition networkEntryType :: gotype where
  "networkEntryType = GTStruct
     [(''id'', GTString), (''status'', GTStruct [(''ipv4Gateway'', GTString), (''ipv4Subnet'', GTString)])]"

definition networkOf :: "goval \<Rightarrow> Network" where
  "networkOf v =
     \<lparr>nwName = goString (goField [''id''] v),
      nwIPv4Gateway = goString (goField [''status'', ''ipv4Gateway''] v),
      nwIPv4Subnet = goString (goField [''status'', ''ipv4Subnet''] v)\<rparr>"

definition ParseNetworkList :: "string \<Rightarrow> err + Network list" where
  "ParseNetworkList data =
     (case Unmarshal (GTSlice networkEntryType) data of
        None \<Rightarrow> Inl (errorf ''parse network list: %w'' [])
      | Some v \<Rightarrow> Inr (map networkOf (goSlice v)))"

subsection \<open>The CLI runtime\<close>

text \<open>
  A command runner executes one command: its standard output, standard error and error.
\<close>

type_synonym 'w CommandRunner =
  "bool \<Rightarrow> string \<Rightarrow> string list \<Rightarrow> 'w \<Rightarrow> (string \<times> string \<times> err option) \<times> 'w"

record 'w CLI =
  cliBin :: string
  cliRunner :: "'w CommandRunner"
  cliCopied :: "string \<Rightarrow> 'w \<Rightarrow> string"

definition cliRun :: "'w CLI \<Rightarrow> bool \<Rightarrow> string list \<Rightarrow> 'w \<Rightarrow> (err + string) \<times> 'w" where
  "cliRun c ctx args w =
     (case cliRunner c ctx (cliBin c) args w of
        ((stdout, stderr, None), w') \<Rightarrow> (Inr stdout, w')
      | ((stdout, stderr, Some e), w') \<Rightarrow>
          (let m0 = TrimSpace stderr;
               msg = (if m0 = [] then TrimSpace stdout else m0)
           in (Inl (if isNotFound msg
                    then Err KNotFound ''%w: %s %s: %s'' [cliBin c, joinWith '' '' args, msg]
                    else Wrap ''%s %s: %w: %s'' [cliBin c, joinWith '' '' args, msg] e), w')))"

definition errOf :: "(err + 'a) \<times> 'w \<Rightarrow> err option \<times> 'w" where
  "errOf r = (case r of (Inl e, w) \<Rightarrow> (Some e, w) | (Inr _, w) \<Rightarrow> (None, w))"

definition mapRes :: "('a \<Rightarrow> err + 'b) \<Rightarrow> (err + 'a) \<times> 'w \<Rightarrow> (err + 'b) \<times> 'w" where
  "mapRes f r = (case r of (Inl e, w) \<Rightarrow> (Inl e, w) | (Inr x, w) \<Rightarrow> (f x, w))"

definition stopGraceSeconds :: string where "stopGraceSeconds = ''10''"

definition cliList :: "'w CLI \<Rightarrow> bool \<Rightarrow> bool \<Rightarrow> 'w \<Rightarrow> (err + Container list) \<times> 'w" where
  "cliList c ctx all w =
     mapRes ParseContainerList
       (cliRun c ctx (if all then [''ls'', ''--all'', ''--format'', ''json'']
                      else [''ls'', ''--format'', ''json'']) w)"

definition cliGet :: "'w CLI \<Rightarrow> bool \<Rightarrow> string \<Rightarrow> 'w \<Rightarrow> (err + Container) \<times> 'w" where
  "cliGet c ctx name w =
     mapRes (\<lambda>cs. case List.find (\<lambda>x. cID x = name) cs of
                   Some x \<Rightarrow> Inr x
                 | None \<Rightarrow> Inl (Err KNotFound ''%w: container %q'' [name]))
       (cliList c ctx True w)"

definition cliLogs :: "'w CLI \<Rightarrow> bool \<Rightarrow> string \<Rightarrow> int \<Rightarrow> 'w \<Rightarrow> (err + string) \<times> 'w" where
  "cliLogs c ctx name tail w =
     cliRun c ctx ([''logs''] @ (if tail > 0 then [''-n'', intString tail] else []) @ [name]) w"

definition cliImagePull :: "'w CLI \<Rightarrow> bool \<Rightarrow> string \<Rightarrow> string \<Rightarrow> 'w \<Rightarrow> err option \<times> 'w" where
  "cliImagePull c ctx ref platform w =
     errOf (cliRun c ctx ([''image'', ''pull'', ref]
       @ (if platform \<noteq> [] then [''--platform'', platform] else [])) w)"

definition cliRunVM :: "'w CLI \<Rightarrow> bool \<Rightarrow> RunSpec \<Rightarrow> 'w \<Rightarrow> (err + string) \<times> 'w" where
  "cliRunVM c ctx spec w = mapRes (\<lambda>out. Inr (TrimSpace out)) (cliRun c ctx (RunArgs spec) w)"

definition cliDelete :: "'w CLI \<Rightarrow> bool \<Rightarrow> string \<Rightarrow> 'w \<Rightarrow> err option \<times> 'w" where
  "cliDelete c ctx name w = errOf (cliRun c ctx [''delete'', ''--force'', name] w)"

definition cliStop :: "'w CLI \<Rightarrow> bool \<Rightarrow> string \<Rightarrow> 'w \<Rightarrow> err option \<times> 'w" where
  "cliStop c ctx name w = errOf (cliRun c ctx [''stop'', ''--time'', stopGraceSeconds, name] w)"

definition cliStart :: "'w CLI \<Rightarrow> bool \<Rightarrow> string \<Rightarrow> 'w \<Rightarrow> err option \<times> 'w" where
  "cliStart c ctx name w = errOf (cliRun c ctx [''start'', name] w)"

definition cliVersion :: "'w CLI \<Rightarrow> bool \<Rightarrow> 'w \<Rightarrow> (err + string) \<times> 'w" where
  "cliVersion c ctx w = mapRes (\<lambda>out. Inr (ParseVersionOutput out)) (cliRun c ctx [''--version''] w)"

definition cliImageList :: "'w CLI \<Rightarrow> bool \<Rightarrow> 'w \<Rightarrow> (err + Image list) \<times> 'w" where
  "cliImageList c ctx w =
     mapRes ParseImageList
       (cliRun c ctx [''image'', ''ls'', ''--format'', ''json''] w)"

definition cliCreate :: "'w CLI \<Rightarrow> bool \<Rightarrow> string \<Rightarrow> string \<Rightarrow> 'w \<Rightarrow> (err + string) \<times> 'w" where
  "cliCreate c ctx name img w =
     mapRes (\<lambda>out. Inr (TrimSpace out)) (cliRun c ctx [''create'', ''--name'', name, img] w)"

text \<open>
  \<open>CopyFrom\<close> hands the host path to the CLI, which writes the file: \<open>cliCopied\<close> is what
  the command left there.
\<close>

definition cliCopyFrom ::
  "'w CLI \<Rightarrow> bool \<Rightarrow> string \<Rightarrow> string \<Rightarrow> string \<Rightarrow> 'w \<Rightarrow> (err + string) \<times> 'w" where
  "cliCopyFrom c ctx name guestPath hostPath w =
     (case cliRun c ctx [''cp'', name @ '':'' @ guestPath, hostPath] w of
        (Inl e, w') \<Rightarrow> (Inl e, w')
      | (Inr _, w') \<Rightarrow> (Inr (cliCopied c hostPath w'), w'))"

definition cliNetworks :: "'w CLI \<Rightarrow> bool \<Rightarrow> 'w \<Rightarrow> (err + Network list) \<times> 'w" where
  "cliNetworks c ctx w =
     mapRes ParseNetworkList
       (cliRun c ctx [''network'', ''ls'', ''--format'', ''json''] w)"

definition cliNetworkCreate :: "'w CLI \<Rightarrow> bool \<Rightarrow> string \<Rightarrow> 'w \<Rightarrow> err option \<times> 'w" where
  "cliNetworkCreate c ctx name w = errOf (cliRun c ctx [''network'', ''create'', name] w)"

definition cliSystemStart :: "'w CLI \<Rightarrow> bool \<Rightarrow> 'w \<Rightarrow> err option \<times> 'w" where
  "cliSystemStart c ctx w = errOf (cliRun c ctx [''system'', ''start''] w)"

definition cliRuntime :: "'w CLI \<Rightarrow> 'w Runtime" where
  "cliRuntime c =
     \<lparr>rtRun = cliRunVM c, rtDelete = cliDelete c, rtStop = cliStop c, rtStart = cliStart c,
      rtList = cliList c, rtGet = cliGet c, rtImageList = cliImageList c,
      rtImagePull = cliImagePull c, rtCreate = cliCreate c, rtCopyFrom = cliCopyFrom c,
      rtNetworks = cliNetworks c, rtNetworkCreate = cliNetworkCreate c, rtLogs = cliLogs c,
      rtSystemStart = cliSystemStart c, rtVersion = cliVersion c\<rparr>"

subsection \<open>Facts about the argument vectors\<close>

lemma sortedKeys_map_of:
  assumes "distinct (keysOf m)" and "distinct (keysOf m')" and "map_of m = map_of m'"
  shows "sortedKeys m = sortedKeys m'"
proof -
  have "set (map fst m) = set (map fst m')"
    using set_keysOf [of m] set_keysOf [of m'] assms(3) by (simp add: keysOf_def)
  moreover have "distinct (map fst m)" "distinct (map fst m')"
    using assms by (simp_all add: keysOf_def)
  ultimately show ?thesis
    by (simp add: sortedKeys_def sorted_distinct_set_unique)
qed

lemma set_sortedKeys [simp]: "set (sortedKeys m) = dom (map_of m)"
  by (simp add: sortedKeys_def dom_map_of_conv_image_fst)

lemma mapGet_Some [simp]: "map_of m k = Some v \<Longrightarrow> mapGet m k = v"
  by (simp add: mapGet_def)

text \<open>The name of every option \<open>runFlags\<close> can emit.\<close>

definition flagNames :: "string set" where
  "flagNames = {''--network'', ''--volume'', ''--tmpfs'', ''--env'', ''--label'', ''--cpus'',
     ''--memory'', ''--uid'', ''--gid'', ''--cap-add'', ''--kernel'', ''--entrypoint''}"

text \<open>A list of options, each followed by its one value.\<close>

fun flagPairs :: "string list \<Rightarrow> bool" where
  "flagPairs [] = True"
| "flagPairs [x] = False"
| "flagPairs (x # y # r) \<longleftrightarrow> x \<in> flagNames \<and> flagPairs r"

lemma flagPairs_append: "flagPairs as \<Longrightarrow> flagPairs (as @ bs) = flagPairs bs"
  by (induction as rule: flagPairs.induct) auto

lemma flagPairs_concat:
  "(\<And>x. x \<in> set xs \<Longrightarrow> flagPairs (f x)) \<Longrightarrow> flagPairs (concat (map f xs))"
  by (induction xs) (simp_all add: flagPairs_append)

subsection \<open>The contract of the interface\<close>

text \<open>
  What the comments of \<open>backend.go\<close> promise: \<open>vms w\<close> is the state of each container
  the runtime knows, by name. A deletion or a stop of an unknown container answers
  \<open>ErrNotFound\<close> and changes nothing; a successful one removes the container, or leaves
  it not running; a started or freshly run container is running; a listing with
  \<open>all=true\<close> shows every container; images, networks and logs do not touch them; and an
  operation on one container leaves every other one as it was.
\<close>

definition byName :: "Container list \<Rightarrow> string \<Rightarrow> Container option" where
  "byName cs = map_of (rev (map (\<lambda>c. (cID c, c)) cs))"

locale vm_runtime =
  fixes rt :: "'w Runtime"
    and vms :: "'w \<Rightarrow> string \<Rightarrow> string option"
    and good :: "'w \<Rightarrow> bool"
  assumes run_good: "good w \<Longrightarrow> rtRun rt c sp w = (rb, w') \<Longrightarrow> good w'"
    and run_ok: "good w \<Longrightarrow> rtRun rt c sp w = (Inr i, w') \<Longrightarrow> vms w' = (vms w)(rsName sp \<mapsto> ''running'')"
    and run_frame: "good w \<Longrightarrow> rtRun rt c sp w = (rb, w') \<Longrightarrow> m \<noteq> rsName sp \<Longrightarrow> vms w' m = vms w m"
    and delete_frame: "good w \<Longrightarrow> rtDelete rt c n w = (r, w') \<Longrightarrow> m \<noteq> n \<Longrightarrow> vms w' m = vms w m"
    and stop_frame: "good w \<Longrightarrow> rtStop rt c n w = (r, w') \<Longrightarrow> m \<noteq> n \<Longrightarrow> vms w' m = vms w m"
    and start_frame: "good w \<Longrightarrow> rtStart rt c n w = (r, w') \<Longrightarrow> m \<noteq> n \<Longrightarrow> vms w' m = vms w m"
    and delete_good: "good w \<Longrightarrow> rtDelete rt c n w = (r, w') \<Longrightarrow> good w'"
    and delete_ok: "good w \<Longrightarrow> rtDelete rt c n w = (None, w') \<Longrightarrow> vms w' = (vms w)(n := None)"
    and delete_notfound: "good w \<Longrightarrow> rtDelete rt c n w = (Some e, w') \<Longrightarrow> isNotFoundErr e \<Longrightarrow>
           vms w n = None \<and> vms w' = vms w"
    and stop_good: "good w \<Longrightarrow> rtStop rt c n w = (r, w') \<Longrightarrow> good w'"
    and stop_ok: "good w \<Longrightarrow> rtStop rt c n w = (None, w') \<Longrightarrow>
           (\<exists>st. st \<noteq> ''running'' \<and> vms w' = (vms w)(n \<mapsto> st))"
    and start_good: "good w \<Longrightarrow> rtStart rt c n w = (r, w') \<Longrightarrow> good w'"
    and start_ok: "good w \<Longrightarrow> rtStart rt c n w = (None, w') \<Longrightarrow> vms w' = (vms w)(n \<mapsto> ''running'')"
    and list_good: "good w \<Longrightarrow> rtList rt c a w = (rl, w') \<Longrightarrow> good w' \<and> vms w' = vms w"
    and list_all: "good w \<Longrightarrow> rtList rt c True w = (Inr cs, w') \<Longrightarrow>
           vms w n = map_option cState (byName cs n)"
    and get_good: "good w \<Longrightarrow> rtGet rt c n w = (rg, w') \<Longrightarrow> good w' \<and> vms w' = vms w"
    and get_ok: "good w \<Longrightarrow> rtGet rt c n w = (Inr x, w') \<Longrightarrow> vms w n = Some (cState x)"
    and image_list_good: "good w \<Longrightarrow> rtImageList rt c w = (ri, w') \<Longrightarrow> good w' \<and> vms w' = vms w"
    and image_pull_good: "good w \<Longrightarrow> rtImagePull rt c im pf w = (r, w') \<Longrightarrow> good w' \<and> vms w' = vms w"
    and copy_good: "good w \<Longrightarrow> rtCopyFrom rt c n p h w = (rb, w') \<Longrightarrow> good w' \<and> vms w' = vms w"
    and logs_good: "good w \<Longrightarrow> rtLogs rt c n k w = (rb, w') \<Longrightarrow> good w' \<and> vms w' = vms w"
begin

text \<open>A container that was cleared and run again is running, whatever it was before.\<close>

lemma clear_then_run:
  assumes "good w" and "rtDelete rt c n w = (d, w1)" and "rtRun rt c' sp w1 = (Inr i, w2)"
    and "rsName sp = n"
  shows "vms w2 n = Some ''running''"
proof -
  have "good w1" using delete_good assms by blast
  then have "vms w2 = (vms w1)(n \<mapsto> ''running'')" using run_ok assms by blast
  then show ?thesis by simp
qed

text \<open>A stop that answers success leaves the container known and not running.\<close>

lemma stopped_state:
  assumes "good w" and "rtStop rt c n w = (None, w')"
  shows "\<exists>st. vms w' n = Some st \<and> st \<noteq> ''running''"
  using stop_ok [OF assms] by auto

end

end
