(* ===== verification/FakeRuntime.thy ===== *)
theory FakeRuntime
  imports Backend
begin

section \<open>The in-memory runtime (\<open>internal/backend/fake.go\<close>)\<close>

text \<open>
  The repository's own implementation of \<open>Runtime\<close> over an in-memory state, with its
  injected failures. It is a provider of the interface: it interprets \<open>vm_runtime\<close>.
  \<open>fakeRun\<close> is a run with no \<open>RunBlock\<close> set; \<open>fakeRunHeld\<close> is one behind that channel.
\<close>

record fakeContainer =
  fcCtr :: Container
  fcSpec :: RunSpec
  fcLogs :: string

record Fake =
  fkContainers :: "(string \<times> fakeContainer) list"
  fkImages :: "Image list"
  fkNetworks :: "Network list"
  fkRunCalls :: "RunSpec list"
  fkPulls :: "string list"
  fkRunError :: "err option"
  fkCopySrc :: "string option"
  fkNetworkListError :: "err option"
  fkStopError :: "err option"
  fkStartError :: "err option"
  fkVersionString :: string
  fkStops :: "string list"
  fkStarts :: "string list"

definition emptyFake :: Fake where
  "emptyFake = \<lparr>fkContainers = [], fkImages = [], fkNetworks = [], fkRunCalls = [], fkPulls = [],
     fkRunError = None, fkCopySrc = None, fkNetworkListError = None, fkStopError = None,
     fkStartError = None, fkVersionString = [], fkStops = [], fkStarts = []\<rparr>"

definition ctxCanceled :: err where
  "ctxCanceled = Err KCanceled ''context canceled'' []"

definition containerNotFound :: "string \<Rightarrow> err" where
  "containerNotFound name = Err KNotFound ''%w: container %q'' [name]"

text \<open>A signed 64-bit shift left by 20, as \<open>spec.MemoryMB << 20\<close> wraps.\<close>

definition wrap64 :: "int \<Rightarrow> int" where
  "wrap64 x = (x + 2 ^ 63) mod 2 ^ 64 - 2 ^ 63"

definition fakeCtrOf :: "RunSpec \<Rightarrow> Container" where
  "fakeCtrOf spec =
     \<lparr>cID = rsName spec, cState = ''running'', cImageRef = rsImage spec, cImageDigest = [],
      cLabels = rsLabels spec,
      cNetworks = [\<lparr>naNetwork = rsNetwork spec, naHostname = rsName spec,
        naIPv4Address = ''192.168.65.9/24'', naIPv4Gateway = ''192.168.65.1''\<rparr>],
      cCPUs = rsCPUs spec, cMemoryBytes = wrap64 (rsMemoryMB spec * 2 ^ 20),
      cCreatedAt = [], cStartedAt = []\<rparr>"

definition fakeRun :: "bool \<Rightarrow> RunSpec \<Rightarrow> Fake \<Rightarrow> (err + string) \<times> Fake" where
  "fakeRun ctx spec f0 =
     (let f = f0\<lparr>fkRunCalls := fkRunCalls f0 @ [spec]\<rparr>
      in case fkRunError f of
           Some e \<Rightarrow> (Inl e, f\<lparr>fkRunError := None\<rparr>)
         | None \<Rightarrow>
             (if ctx then (Inl ctxCanceled, f)
              else (Inr (rsName spec),
                    f\<lparr>fkContainers := AList.update (rsName spec)
                        \<lparr>fcCtr = fakeCtrOf spec, fcSpec = spec, fcLogs = []\<rparr> (fkContainers f)\<rparr>)))"

text \<open>
  \<open>RunBlock\<close> holds a create in flight: \<open>None\<close> is the nil channel, \<open>Some ready\<close> one that has
  something to receive or not. A run that can neither receive nor see its context end has not
  returned (\<open>None\<close>); when both are possible \<open>picked\<close> is the case the select takes. A run
  that gives up at the channel is not among the recorded calls.
\<close>

definition fakeRunHeld ::
  "bool option \<Rightarrow> bool \<Rightarrow> bool \<Rightarrow> RunSpec \<Rightarrow> Fake \<Rightarrow> ((err + string) \<times> Fake) option" where
  "fakeRunHeld block picked ctx spec f =
     (case block of
        None \<Rightarrow> Some (fakeRun ctx spec f)
      | Some ready \<Rightarrow>
          (if ready \<and> (\<not> ctx \<or> picked) then Some (fakeRun ctx spec f)
           else if ctx then Some (Inl ctxCanceled, f)
           else None))"

definition fakeDelete :: "bool \<Rightarrow> string \<Rightarrow> Fake \<Rightarrow> err option \<times> Fake" where
  "fakeDelete ctx name f =
     (case map_of (fkContainers f) name of
        None \<Rightarrow> (Some (containerNotFound name), f)
      | Some _ \<Rightarrow> (None, f\<lparr>fkContainers := AList.delete name (fkContainers f)\<rparr>))"

definition setCtrState :: "string \<Rightarrow> string \<Rightarrow> Fake \<Rightarrow> err option \<times> Fake" where
  "setCtrState name st f =
     (case map_of (fkContainers f) name of
        None \<Rightarrow> (Some (containerNotFound name), f)
      | Some c \<Rightarrow>
          (None, f\<lparr>fkContainers :=
             AList.update name (c\<lparr>fcCtr := (fcCtr c)\<lparr>cState := st\<rparr>\<rparr>) (fkContainers f)\<rparr>))"

definition fakeStop :: "bool \<Rightarrow> string \<Rightarrow> Fake \<Rightarrow> err option \<times> Fake" where
  "fakeStop ctx name f0 =
     (let f = f0\<lparr>fkStops := fkStops f0 @ [name]\<rparr>
      in case fkStopError f of
           Some e \<Rightarrow> (Some e, f\<lparr>fkStopError := None\<rparr>)
         | None \<Rightarrow> setCtrState name ''stopped'' f)"

definition fakeStart :: "bool \<Rightarrow> string \<Rightarrow> Fake \<Rightarrow> err option \<times> Fake" where
  "fakeStart ctx name f0 =
     (let f = f0\<lparr>fkStarts := fkStarts f0 @ [name]\<rparr>
      in case fkStartError f of
           Some e \<Rightarrow> (Some e, f\<lparr>fkStartError := None\<rparr>)
         | None \<Rightarrow> setCtrState name ''running'' f)"

definition fakeVersion :: "bool \<Rightarrow> Fake \<Rightarrow> (err + string) \<times> Fake" where
  "fakeVersion ctx f = (Inr (fkVersionString f), f)"

definition fakeList :: "bool \<Rightarrow> bool \<Rightarrow> Fake \<Rightarrow> (err + Container list) \<times> Fake" where
  "fakeList ctx all f =
     (Inr (filter (\<lambda>c. all \<or> cState c = ''running'') (map (\<lambda>p. fcCtr (snd p)) (fkContainers f))), f)"

definition fakeGet :: "bool \<Rightarrow> string \<Rightarrow> Fake \<Rightarrow> (err + Container) \<times> Fake" where
  "fakeGet ctx name f =
     (case map_of (fkContainers f) name of
        None \<Rightarrow> (Inl (containerNotFound name), f)
      | Some c \<Rightarrow> (Inr (fcCtr c), f))"

definition fakeImageList :: "bool \<Rightarrow> Fake \<Rightarrow> (err + Image list) \<times> Fake" where
  "fakeImageList ctx f = (Inr (fkImages f), f)"

text \<open>\<open>%04d\<close> on a natural number.\<close>

definition pad4 :: "nat \<Rightarrow> string" where
  "pad4 n = (let s = natString n in replicate (4 - length s) (CHR ''0'') @ s)"

definition fakeImagePull :: "bool \<Rightarrow> string \<Rightarrow> string \<Rightarrow> Fake \<Rightarrow> err option \<times> Fake" where
  "fakeImagePull ctx ref platform f0 =
     (let f = f0\<lparr>fkPulls := fkPulls f0 @ [ref]\<rparr>
      in (None, f\<lparr>fkImages := fkImages f @
            [\<lparr>imReference = ref, imDigest = ''sha256:pulled'' @ pad4 (length (fkPulls f)),
              imUser = []\<rparr>]\<rparr>))"

definition fakeCreate :: "bool \<Rightarrow> string \<Rightarrow> string \<Rightarrow> Fake \<Rightarrow> (err + string) \<times> Fake" where
  "fakeCreate ctx name img f =
     (Inr name, f\<lparr>fkContainers := AList.update name
        \<lparr>fcCtr = (fakeCtrOf zeroRunSpec)\<lparr>cID := name, cState := ''created'', cImageRef := img,
            cNetworks := []\<rparr>,
         fcSpec = zeroRunSpec, fcLogs = []\<rparr> (fkContainers f)\<rparr>)"

definition elfPlaceholder :: string where
  "elfPlaceholder = char_of (0x7f::nat) # ''ELF'' @ replicate 4 (char_of (0::nat))"

definition fakeCopyFrom :: "bool \<Rightarrow> string \<Rightarrow> string \<Rightarrow> string \<Rightarrow> Fake \<Rightarrow> (err + string) \<times> Fake" where
  "fakeCopyFrom ctx name guestPath hostPath f =
     (case map_of (fkContainers f) name of
        None \<Rightarrow> (Inl (containerNotFound name), f)
      | Some _ \<Rightarrow>
          (Inr (case fkCopySrc f of None \<Rightarrow> elfPlaceholder | Some d \<Rightarrow> d), f))"

definition fakeNetworks :: "bool \<Rightarrow> Fake \<Rightarrow> (err + Network list) \<times> Fake" where
  "fakeNetworks ctx f =
     (case fkNetworkListError f of
        Some e \<Rightarrow> (Inl e, f)
      | None \<Rightarrow> (Inr (fkNetworks f), f))"

definition fakeNetworkCreate :: "bool \<Rightarrow> string \<Rightarrow> Fake \<Rightarrow> err option \<times> Fake" where
  "fakeNetworkCreate ctx name f =
     (None, f\<lparr>fkNetworks := fkNetworks f @
        [\<lparr>nwName = name, nwIPv4Gateway = ''192.168.65.1'', nwIPv4Subnet = ''192.168.65.0/24''\<rparr>]\<rparr>)"

definition fakeSystemStart :: "bool \<Rightarrow> Fake \<Rightarrow> err option \<times> Fake" where
  "fakeSystemStart ctx f = (None, f)"

definition fakeLogs :: "bool \<Rightarrow> string \<Rightarrow> int \<Rightarrow> Fake \<Rightarrow> (err + string) \<times> Fake" where
  "fakeLogs ctx name tail f =
     (case map_of (fkContainers f) name of
        None \<Rightarrow> (Inl (containerNotFound name), f)
      | Some c \<Rightarrow> (Inr (fcLogs c), f))"

definition fakeRuntime :: "Fake Runtime" where
  "fakeRuntime =
     \<lparr>rtRun = fakeRun, rtDelete = fakeDelete, rtStop = fakeStop, rtStart = fakeStart,
      rtList = fakeList, rtGet = fakeGet, rtImageList = fakeImageList,
      rtImagePull = fakeImagePull, rtCreate = fakeCreate, rtCopyFrom = fakeCopyFrom,
      rtNetworks = fakeNetworks, rtNetworkCreate = fakeNetworkCreate, rtLogs = fakeLogs,
      rtSystemStart = fakeSystemStart, rtVersion = fakeVersion\<rparr>"

text \<open>What tests do to the runtime behind the driver's back.\<close>

definition AddImage :: "string \<Rightarrow> string \<Rightarrow> Fake \<Rightarrow> Fake" where
  "AddImage ref digest f =
     f\<lparr>fkImages := fkImages f @ [\<lparr>imReference = ref, imDigest = digest, imUser = []\<rparr>]\<rparr>"

definition AddImageWithUser :: "string \<Rightarrow> string \<Rightarrow> string \<Rightarrow> Fake \<Rightarrow> Fake" where
  "AddImageWithUser ref digest user f =
     f\<lparr>fkImages := fkImages f @ [\<lparr>imReference = ref, imDigest = digest, imUser = user\<rparr>]\<rparr>"

definition SetState :: "string \<Rightarrow> string \<Rightarrow> Fake \<Rightarrow> Fake" where
  "SetState name st f = snd (setCtrState name st f)"

definition SetLogs :: "string \<Rightarrow> string \<Rightarrow> Fake \<Rightarrow> Fake" where
  "SetLogs name logs f =
     (case map_of (fkContainers f) name of
        None \<Rightarrow> f
      | Some c \<Rightarrow> f\<lparr>fkContainers := AList.update name (c\<lparr>fcLogs := logs\<rparr>) (fkContainers f)\<rparr>)"

text \<open>What they read of it: copies, so a later call changes none.\<close>

definition fakeRunCalls :: "Fake \<Rightarrow> RunSpec list" where "fakeRunCalls f = fkRunCalls f"
definition fakePulls :: "Fake \<Rightarrow> string list" where "fakePulls f = fkPulls f"
definition fakeStops :: "Fake \<Rightarrow> string list" where "fakeStops f = fkStops f"
definition fakeStarts :: "Fake \<Rightarrow> string list" where "fakeStarts f = fkStarts f"

definition AddNetwork :: "Network \<Rightarrow> Fake \<Rightarrow> Fake" where
  "AddNetwork n f = f\<lparr>fkNetworks := fkNetworks f @ [n]\<rparr>"

subsection \<open>The fake keeps the interface's contract\<close>

definition ctrStates :: "(string \<times> fakeContainer) list \<Rightarrow> string \<Rightarrow> string option" where
  "ctrStates m n = map_option (\<lambda>c. cState (fcCtr c)) (map_of m n)"

definition goodCtrs :: "(string \<times> fakeContainer) list \<Rightarrow> bool" where
  "goodCtrs m \<longleftrightarrow> distinct (keysOf m) \<and> (\<forall>n c. map_of m n = Some c \<longrightarrow> cID (fcCtr c) = n)"

definition fakeVMs :: "Fake \<Rightarrow> string \<Rightarrow> string option" where
  "fakeVMs f = ctrStates (fkContainers f)"

definition fakeGood :: "Fake \<Rightarrow> bool" where
  "fakeGood f = goodCtrs (fkContainers f)"

lemmas fake_views = fakeVMs_def fakeGood_def

lemmas fake_ops = fakeRun_def fakeDelete_def fakeStop_def fakeStart_def fakeList_def fakeGet_def
  fakeImageList_def fakeImagePull_def fakeCopyFrom_def fakeLogs_def setCtrState_def Let_def

lemma fakeRuntime_sel [simp]:
  "rtRun fakeRuntime = fakeRun" "rtDelete fakeRuntime = fakeDelete"
  "rtStop fakeRuntime = fakeStop" "rtStart fakeRuntime = fakeStart"
  "rtList fakeRuntime = fakeList" "rtGet fakeRuntime = fakeGet"
  "rtImageList fakeRuntime = fakeImageList" "rtImagePull fakeRuntime = fakeImagePull"
  "rtCreate fakeRuntime = fakeCreate" "rtCopyFrom fakeRuntime = fakeCopyFrom"
  "rtNetworks fakeRuntime = fakeNetworks" "rtNetworkCreate fakeRuntime = fakeNetworkCreate"
  "rtLogs fakeRuntime = fakeLogs" "rtSystemStart fakeRuntime = fakeSystemStart"
  "rtVersion fakeRuntime = fakeVersion"
  by (simp_all add: fakeRuntime_def)

lemma goodCtrs_update [simp]:
  "goodCtrs m \<Longrightarrow> cID (fcCtr c) = n \<Longrightarrow> goodCtrs (AList.update n c m)"
  by (auto simp: goodCtrs_def split: if_splits)

lemma goodCtrs_delete [simp]: "goodCtrs m \<Longrightarrow> goodCtrs (AList.delete n m)"
  by (auto simp: goodCtrs_def split: if_splits)

lemma ctrStates_update [simp]:
  "ctrStates (AList.update n c m) = (ctrStates m)(n \<mapsto> cState (fcCtr c))"
  by (auto simp: ctrStates_def)

lemma ctrStates_delete [simp]: "ctrStates (AList.delete n m) = (ctrStates m)(n := None)"
  by (auto simp: ctrStates_def)

lemma fakeCtrOf_sel [simp]: "cID (fakeCtrOf spec) = rsName spec" "cState (fakeCtrOf spec) = ''running''"
  by (simp_all add: fakeCtrOf_def)

lemma byName_fake:
  assumes "goodCtrs m"
  shows "byName (map (\<lambda>p. fcCtr (snd p)) m) n = map_option fcCtr (map_of m n)"
proof -
  have k: "cID (fcCtr c) = k" if "(k, c) \<in> set m" for k c
    using that assms by (auto simp: goodCtrs_def set_pair_map_of)
  then have e: "map (\<lambda>p. (cID (fcCtr (snd p)), fcCtr (snd p))) m = map (\<lambda>(k, c). (k, fcCtr c)) m"
    by (auto intro!: map_cong)
  have "map fst (map (\<lambda>(k, c). (k, fcCtr c)) m) = keysOf m" by (auto simp: keysOf_def)
  then have "distinct (map fst (map (\<lambda>(k, c). (k, fcCtr c)) m))"
    using assms by (simp add: goodCtrs_def)
  then have "map_of (rev (map (\<lambda>(k, c). (k, fcCtr c)) m)) n = map_of (map (\<lambda>(k, c). (k, fcCtr c)) m) n"
    by (simp only: map_of_rev_distinct)
  then show ?thesis
    by (simp add: byName_def comp_def e map_of_map_snd [of "\<lambda>_. fcCtr"])
qed

lemma setCtr_good:
  assumes "goodCtrs (fkContainers f)" and "setCtrState n st f = (r, f')"
  shows "goodCtrs (fkContainers f')"
proof (cases "map_of (fkContainers f) n")
  case None
  with assms show ?thesis by (simp add: setCtrState_def)
next
  case (Some c)
  with assms(1) have "cID (fcCtr c) = n" by (auto simp: goodCtrs_def)
  with assms Some show ?thesis by (auto simp: setCtrState_def)
qed

lemma setCtr_ok:
  "setCtrState n st f = (None, f') \<Longrightarrow>
     ctrStates (fkContainers f') = (ctrStates (fkContainers f))(n \<mapsto> st)"
  by (auto simp: setCtrState_def split: option.splits)

lemma fakeStop_good:
  "goodCtrs (fkContainers w) \<Longrightarrow> fakeStop c n w = (r, w') \<Longrightarrow> goodCtrs (fkContainers w')"
  by (auto simp: fakeStop_def Let_def split: option.splits
      elim!: setCtr_good [of "w\<lparr>fkStops := fkStops w @ [n]\<rparr>", rotated])

lemma fakeStart_good:
  "goodCtrs (fkContainers w) \<Longrightarrow> fakeStart c n w = (r, w') \<Longrightarrow> goodCtrs (fkContainers w')"
  by (auto simp: fakeStart_def Let_def split: option.splits
      elim!: setCtr_good [of "w\<lparr>fkStarts := fkStarts w @ [n]\<rparr>", rotated])

interpretation fk: vm_runtime fakeRuntime fakeVMs fakeGood
proof unfold_locales
  fix c n sp w w' rb i e r a rl rg ri im pf p h k cs x m
  show "fakeGood w \<Longrightarrow> rtRun fakeRuntime c sp w = (rb, w') \<Longrightarrow> fakeGood w'"
    by (auto simp: fakeRun_def Let_def fake_views split: option.splits if_splits)
  show "fakeGood w \<Longrightarrow> rtRun fakeRuntime c sp w = (Inr i, w') \<Longrightarrow>
          fakeVMs w' = (fakeVMs w)(rsName sp \<mapsto> ''running'')"
    by (auto simp: fakeRun_def Let_def fake_views split: option.splits if_splits)
  show "fakeGood w \<Longrightarrow> rtRun fakeRuntime c sp w = (rb, w') \<Longrightarrow> m \<noteq> rsName sp \<Longrightarrow> fakeVMs w' m = fakeVMs w m"
    by (auto simp: fakeRun_def Let_def fake_views split: option.splits if_splits)
  show "fakeGood w \<Longrightarrow> rtDelete fakeRuntime c n w = (r, w') \<Longrightarrow> m \<noteq> n \<Longrightarrow> fakeVMs w' m = fakeVMs w m"
    by (auto simp: fakeDelete_def fake_views split: option.splits)
  show "fakeGood w \<Longrightarrow> rtStop fakeRuntime c n w = (r, w') \<Longrightarrow> m \<noteq> n \<Longrightarrow> fakeVMs w' m = fakeVMs w m"
    by (auto simp: fakeStop_def setCtrState_def Let_def fake_views split: option.splits)
  show "fakeGood w \<Longrightarrow> rtStart fakeRuntime c n w = (r, w') \<Longrightarrow> m \<noteq> n \<Longrightarrow> fakeVMs w' m = fakeVMs w m"
    by (auto simp: fakeStart_def setCtrState_def Let_def fake_views split: option.splits)
  show "fakeGood w \<Longrightarrow> rtDelete fakeRuntime c n w = (r, w') \<Longrightarrow> fakeGood w'"
    by (auto simp: fakeDelete_def fake_views split: option.splits)
  show "fakeGood w \<Longrightarrow> rtDelete fakeRuntime c n w = (None, w') \<Longrightarrow> fakeVMs w' = (fakeVMs w)(n := None)"
    by (auto simp: fakeDelete_def fake_views split: option.splits)
  show "fakeGood w \<Longrightarrow> rtDelete fakeRuntime c n w = (Some e, w') \<Longrightarrow> isNotFoundErr e \<Longrightarrow>
          fakeVMs w n = None \<and> fakeVMs w' = fakeVMs w"
    by (auto simp: fakeDelete_def fake_views ctrStates_def split: option.splits)
  show "fakeGood w \<Longrightarrow> rtStop fakeRuntime c n w = (r, w') \<Longrightarrow> fakeGood w'"
    by (auto simp: fake_views dest: fakeStop_good)
  show "fakeGood w \<Longrightarrow> rtStop fakeRuntime c n w = (None, w') \<Longrightarrow>
          \<exists>st. st \<noteq> ''running'' \<and> fakeVMs w' = (fakeVMs w)(n \<mapsto> st)"
    by (auto simp: fakeStop_def Let_def fake_views dest!: setCtr_ok split: option.splits
        intro!: exI [of _ "''stopped''"])
  show "fakeGood w \<Longrightarrow> rtStart fakeRuntime c n w = (r, w') \<Longrightarrow> fakeGood w'"
    by (auto simp: fake_views dest: fakeStart_good)
  show "fakeGood w \<Longrightarrow> rtStart fakeRuntime c n w = (None, w') \<Longrightarrow>
          fakeVMs w' = (fakeVMs w)(n \<mapsto> ''running'')"
    by (auto simp: fakeStart_def Let_def fake_views dest!: setCtr_ok split: option.splits)
  show "fakeGood w \<Longrightarrow> rtList fakeRuntime c a w = (rl, w') \<Longrightarrow> fakeGood w' \<and> fakeVMs w' = fakeVMs w"
    by (auto simp: fakeList_def)
  show "fakeGood w \<Longrightarrow> rtList fakeRuntime c True w = (Inr cs, w') \<Longrightarrow>
          fakeVMs w n = map_option cState (byName cs n)"
    by (auto simp: fakeList_def byName_fake fake_views ctrStates_def option.map_comp comp_def)
  show "fakeGood w \<Longrightarrow> rtGet fakeRuntime c n w = (rg, w') \<Longrightarrow> fakeGood w' \<and> fakeVMs w' = fakeVMs w"
    by (auto simp: fakeGet_def split: option.splits)
  show "fakeGood w \<Longrightarrow> rtGet fakeRuntime c n w = (Inr x, w') \<Longrightarrow> fakeVMs w n = Some (cState x)"
    by (auto simp: fakeGet_def fake_views ctrStates_def split: option.splits)
  show "fakeGood w \<Longrightarrow> rtImageList fakeRuntime c w = (ri, w') \<Longrightarrow> fakeGood w' \<and> fakeVMs w' = fakeVMs w"
    by (auto simp: fakeImageList_def)
  show "fakeGood w \<Longrightarrow> rtImagePull fakeRuntime c im pf w = (r, w') \<Longrightarrow> fakeGood w' \<and> fakeVMs w' = fakeVMs w"
    by (auto simp: fakeImagePull_def Let_def fake_views)
  show "fakeGood w \<Longrightarrow> rtCopyFrom fakeRuntime c n p h w = (rb, w') \<Longrightarrow> fakeGood w' \<and> fakeVMs w' = fakeVMs w"
    by (auto simp: fakeCopyFrom_def split: option.splits)
  show "fakeGood w \<Longrightarrow> rtLogs fakeRuntime c n k w = (rb, w') \<Longrightarrow> fakeGood w' \<and> fakeVMs w' = fakeVMs w"
    by (auto simp: fakeLogs_def split: option.splits)
qed

text \<open>Behind the channel or not, a run that returns has run once, or was cancelled and left no trace.\<close>

lemma fakeRunHeld_outcome:
  assumes "fakeRunHeld block picked ctx spec f = Some (r, f')"
  shows "(r, f') = fakeRun ctx spec f \<or> ctx \<and> r = Inl ctxCanceled \<and> f' = f"
  using assms by (auto simp: fakeRunHeld_def split: option.splits if_splits)

lemma fakeRunHeld_calls:
  assumes "fakeRunHeld block picked ctx spec f = Some (r, f')"
  shows "fakeRunCalls f' = fakeRunCalls f @ [spec] \<or> ctx \<and> fakeRunCalls f' = fakeRunCalls f"
  using fakeRunHeld_outcome [OF assms]
  by (auto simp: fakeRunCalls_def fakeRun_def Let_def split: option.splits if_splits)

end
