(* ===== verification/Config.thy ===== *)
theory Config
  imports GoPath
begin

section \<open>Configuration (\<open>internal/config/config.go\<close>)\<close>

text \<open>
  The driver's configuration: flags over environment over defaults. The process
  environment is a function from names to optional values (\<open>os.LookupEnv\<close>), the
  existence of a file is a predicate on paths, and the output of
  \<open>openshell-gateway --version\<close> is an optional string. \<open>parseFlags\<close> is the loop of
  \<open>flag.FlagSet.Parse\<close> with the flags this program declares.
\<close>

record Config =
  cfgSocket :: string
  cfgStateDir :: string
  cfgNetwork :: string
  cfgDefaultImage :: string
  cfgSupervisorImage :: string
  cfgSupervisorImageExplicit :: bool
  cfgGRPCEndpoint :: string
  cfgGuestTLSCA :: string
  cfgGuestTLSCert :: string
  cfgGuestTLSKey :: string
  cfgNamespace :: string
  cfgCPUs :: int
  cfgMemoryMB :: int
  cfgKernel :: string
  cfgAllowHostMounts :: bool
  cfgHostMountRoot :: string
  cfgAllowedNetworks :: "string list"
  cfgNetworkPolicyFile :: string
  cfgLogLevel :: string

type_synonym procenv = "string \<Rightarrow> string option"

subsection \<open>Environment and defaults\<close>

definition envPrefix :: string where "envPrefix = ''OSHL_AC_''"

definition Getenv :: "procenv \<Rightarrow> string \<Rightarrow> string" where
  "Getenv env n = (case env n of None \<Rightarrow> [] | Some v \<Rightarrow> v)"

definition UserHomeDir :: "procenv \<Rightarrow> string option" where
  "UserHomeDir env = (if Getenv env ''HOME'' = [] then None else Some (Getenv env ''HOME''))"

definition envOr :: "procenv \<Rightarrow> string \<Rightarrow> string \<Rightarrow> string" where
  "envOr env n d = (case env (envPrefix @ n) of Some v \<Rightarrow> v | None \<Rightarrow> d)"

definition envOrInt :: "procenv \<Rightarrow> string \<Rightarrow> int \<Rightarrow> int" where
  "envOrInt env n d =
     (case env (envPrefix @ n) of
        Some v \<Rightarrow> (case Atoi v of Some i \<Rightarrow> i | None \<Rightarrow> d)
      | None \<Rightarrow> d)"

definition envOrBool :: "procenv \<Rightarrow> string \<Rightarrow> bool \<Rightarrow> bool" where
  "envOrBool env n d =
     (case env (envPrefix @ n) of
        Some v \<Rightarrow> (case ParseBool v of Some b \<Rightarrow> b | None \<Rightarrow> d)
      | None \<Rightarrow> d)"

definition defaultStateDir :: "procenv \<Rightarrow> string" where
  "defaultStateDir env =
     (if Getenv env ''XDG_STATE_HOME'' \<noteq> []
      then pathJoin [Getenv env ''XDG_STATE_HOME'', ''openshell-applecontainer'']
      else (case UserHomeDir env of
              None \<Rightarrow> ''state''
            | Some h \<Rightarrow> pathJoin [h, ''.local'', ''state'', ''openshell-applecontainer'']))"

definition SupervisorRepo :: string where
  "SupervisorRepo = ''ghcr.io/nvidia/openshell/supervisor''"

definition PinnedSupervisorTag :: string where
  "PinnedSupervisorTag = ''0.0.96''"

definition PinnedSupervisorImage :: string where
  "PinnedSupervisorImage = SupervisorRepo @ '':'' @ PinnedSupervisorTag"

text \<open>The match of \<open>^v?(\\d+\\.\\d+\\.\\d+)$\<close>: the version without its \<open>v\<close>.\<close>

definition versionRe :: "string \<Rightarrow> string option" where
  "versionRe s =
     (let t = TrimPrefix s ''v'';
          ps = splitOn (CHR ''.'') t
      in if length ps = 3 \<and> list_all (\<lambda>p. p \<noteq> [] \<and> list_all isDigit p) ps then Some t else None)"

text \<open>\<open>out\<close> is the standard output of the gateway binary, \<open>None\<close> if running it failed.\<close>

definition GatewayVersion :: "string option \<Rightarrow> string" where
  "GatewayVersion out =
     (case out of
        None \<Rightarrow> []
      | Some o' \<Rightarrow>
          (let fields = Fields o'
           in if fields = [] then []
              else (case versionRe (last fields) of None \<Rightarrow> [] | Some v \<Rightarrow> v)))"

definition ResolveSupervisorImage :: "string option \<Rightarrow> Config \<Rightarrow> Config" where
  "ResolveSupervisorImage out c =
     (if cfgSupervisorImageExplicit c then c
      else (let ver = GatewayVersion out
            in if ver = [] then c
               else (let want = SupervisorRepo @ '':'' @ ver
                     in if want = cfgSupervisorImage c then c
                        else c\<lparr>cfgSupervisorImage := want\<rparr>)))"

definition homebrewGatewayTLSDir :: string where
  "homebrewGatewayTLSDir = ''/opt/homebrew/var/openshell/tls''"

definition DefaultGuestTLSDir :: "procenv \<Rightarrow> (string \<Rightarrow> bool) \<Rightarrow> string" where
  "DefaultGuestTLSDir env exists =
     (if Getenv env ''OPENSHELL_LOCAL_TLS_DIR'' \<noteq> [] then Getenv env ''OPENSHELL_LOCAL_TLS_DIR''
      else
        (let xdg = (if Getenv env ''XDG_STATE_HOME'' \<noteq> []
                    then pathJoin [Getenv env ''XDG_STATE_HOME'', ''openshell'', ''tls'']
                    else (case UserHomeDir env of
                            Some h \<Rightarrow> pathJoin [h, ''.local'', ''state'', ''openshell'', ''tls'']
                          | None \<Rightarrow> []))
         in case find (\<lambda>d. d \<noteq> [] \<and> exists (pathJoin [d, ''ca.crt''])) [homebrewGatewayTLSDir, xdg] of
              Some d \<Rightarrow> d
            | None \<Rightarrow> (if xdg \<noteq> [] then xdg else homebrewGatewayTLSDir)))"

subsection \<open>Flags\<close>

definition splitList :: "string \<Rightarrow> string list" where
  "splitList s = filter (\<lambda>p. p \<noteq> []) (map TrimSpace (splitOn (CHR '','') s))"

text \<open>
  A partly parsed command line: the configuration so far, the raw value of
  \<open>--allowed-networks\<close>, and the names of the flags that were set.
\<close>

record Flags =
  flCfg :: Config
  flAllowed :: string
  flSet :: "string list"

definition flagDefaults :: "procenv \<Rightarrow> (string \<Rightarrow> bool) \<Rightarrow> Flags" where
  "flagDefaults env exists =
     (let tlsDir = DefaultGuestTLSDir env exists
      in \<lparr>flCfg =
           \<lparr>cfgSocket = envOr env ''SOCKET'' ''/tmp/oshl-ac/driver.sock'',
            cfgStateDir = envOr env ''STATE_DIR'' (defaultStateDir env),
            cfgNetwork = envOr env ''NETWORK'' ''oshl'',
            cfgDefaultImage = envOr env ''DEFAULT_IMAGE''
              ''ghcr.io/nvidia/openshell-community/sandboxes/base:latest'',
            cfgSupervisorImage = envOr env ''SUPERVISOR_IMAGE'' PinnedSupervisorImage,
            cfgSupervisorImageExplicit = False,
            cfgGRPCEndpoint = envOr env ''GRPC_ENDPOINT'' [],
            cfgGuestTLSCA = envOr env ''GUEST_TLS_CA'' (pathJoin [tlsDir, ''ca.crt'']),
            cfgGuestTLSCert = envOr env ''GUEST_TLS_CERT'' (pathJoin [tlsDir, ''client'', ''tls.crt'']),
            cfgGuestTLSKey = envOr env ''GUEST_TLS_KEY'' (pathJoin [tlsDir, ''client'', ''tls.key'']),
            cfgNamespace = envOr env ''NAMESPACE'' ''default'',
            cfgCPUs = envOrInt env ''CPUS'' 2,
            cfgMemoryMB = envOrInt env ''MEMORY_MB'' 2048,
            cfgKernel = envOr env ''KERNEL'' [],
            cfgAllowHostMounts = envOrBool env ''ALLOW_HOST_MOUNTS'' False,
            cfgHostMountRoot = envOr env ''HOST_MOUNT_ROOT'' [],
            cfgAllowedNetworks = [],
            cfgNetworkPolicyFile = envOr env ''NETWORK_POLICY_FILE'' [],
            cfgLogLevel = envOr env ''LOG_LEVEL'' ''info''\<rparr>,
          flAllowed = envOr env ''ALLOWED_NETWORKS'' [],
          flSet = []\<rparr>)"

text \<open>The string flags and the field each one writes.\<close>

definition stringFlags :: "(string \<times> (string \<Rightarrow> Config \<Rightarrow> Config)) list" where
  "stringFlags =
     [(''socket'', \<lambda>v. cfgSocket_update (\<lambda>_. v)),
      (''state-dir'', \<lambda>v. cfgStateDir_update (\<lambda>_. v)),
      (''network'', \<lambda>v. cfgNetwork_update (\<lambda>_. v)),
      (''default-image'', \<lambda>v. cfgDefaultImage_update (\<lambda>_. v)),
      (''supervisor-image'', \<lambda>v. cfgSupervisorImage_update (\<lambda>_. v)),
      (''grpc-endpoint'', \<lambda>v. cfgGRPCEndpoint_update (\<lambda>_. v)),
      (''guest-tls-ca'', \<lambda>v. cfgGuestTLSCA_update (\<lambda>_. v)),
      (''guest-tls-cert'', \<lambda>v. cfgGuestTLSCert_update (\<lambda>_. v)),
      (''guest-tls-key'', \<lambda>v. cfgGuestTLSKey_update (\<lambda>_. v)),
      (''namespace'', \<lambda>v. cfgNamespace_update (\<lambda>_. v)),
      (''kernel'', \<lambda>v. cfgKernel_update (\<lambda>_. v)),
      (''host-mount-root'', \<lambda>v. cfgHostMountRoot_update (\<lambda>_. v)),
      (''network-policy-file'', \<lambda>v. cfgNetworkPolicyFile_update (\<lambda>_. v)),
      (''log-level'', \<lambda>v. cfgLogLevel_update (\<lambda>_. v))]"

definition intFlags :: "(string \<times> (int \<Rightarrow> Config \<Rightarrow> Config)) list" where
  "intFlags = [(''cpus'', \<lambda>v. cfgCPUs_update (\<lambda>_. v)), (''memory'', \<lambda>v. cfgMemoryMB_update (\<lambda>_. v))]"

definition boolFlag :: string where "boolFlag = ''allow-host-mounts''"

text \<open>\<open>FlagSet.Set\<close>: \<open>None\<close> when the value does not parse.\<close>

definition setFlag :: "string \<Rightarrow> string \<Rightarrow> Flags \<Rightarrow> Flags option" where
  "setFlag n v fl =
     map_option (\<lambda>f. f\<lparr>flSet := n # flSet fl\<rparr>)
       (case map_of stringFlags n of
          Some g \<Rightarrow> Some (fl\<lparr>flCfg := g v (flCfg fl)\<rparr>)
        | None \<Rightarrow>
            (case map_of intFlags n of
               Some g \<Rightarrow> map_option (\<lambda>i. fl\<lparr>flCfg := g i (flCfg fl)\<rparr>) (ParseInt0 v)
             | None \<Rightarrow>
                 (if n = ''allowed-networks'' then Some (fl\<lparr>flAllowed := v\<rparr>)
                  else if n = boolFlag
                  then map_option (\<lambda>b. fl\<lparr>flCfg := (flCfg fl)\<lparr>cfgAllowHostMounts := b\<rparr>\<rparr>) (ParseBool v)
                  else None)))"

definition knownFlag :: "string \<Rightarrow> bool" where
  "knownFlag n \<longleftrightarrow> n \<in> fst ` set stringFlags \<or> n \<in> fst ` set intFlags
                   \<or> n = ''allowed-networks'' \<or> n = boolFlag"

text \<open>One argument split at its dashes and its first equals sign.\<close>

definition splitEq :: "string \<Rightarrow> string \<times> string option" where
  "splitEq n =
     (case Index (tl n) ''='' of
        None \<Rightarrow> (n, None)
      | Some i \<Rightarrow> (take (Suc i) n, Some (drop (Suc (Suc i)) n)))"

function parseFlags :: "string list \<Rightarrow> Flags \<Rightarrow> err + Flags" where
  "parseFlags [] fl = Inr fl"
| "parseFlags (s # args) fl =
     (if length s < 2 \<or> hd s \<noteq> CHR ''-'' then Inr fl
      else if s = ''--'' then Inr fl
      else
        (let name0 = (if s ! 1 = CHR ''-'' then drop 2 s else drop 1 s)
         in if name0 = [] \<or> hd name0 = CHR ''-'' \<or> hd name0 = CHR ''=''
            then Inl (errorf ''bad flag syntax: %s'' [s])
            else
              (let (name, val) = splitEq name0
               in if \<not> knownFlag name
                  then (if name = ''help'' \<or> name = ''h'' then Inl (errorf ''flag: help requested'' [])
                        else Inl (errorf ''flag provided but not defined: -%s'' [name]))
                  else if name = boolFlag
                  then (case setFlag name (case val of Some v \<Rightarrow> v | None \<Rightarrow> ''true'') fl of
                          None \<Rightarrow> Inl (errorf ''invalid boolean value %q for -%s: %v'' [name])
                        | Some fl' \<Rightarrow> parseFlags args fl')
                  else
                    (case val of
                       Some v \<Rightarrow> (case setFlag name v fl of
                                   None \<Rightarrow> Inl (errorf ''invalid value %q for flag -%s: %v'' [v, name])
                                 | Some fl' \<Rightarrow> parseFlags args fl')
                     | None \<Rightarrow>
                         (case args of
                            [] \<Rightarrow> Inl (errorf ''flag needs an argument: -%s'' [name])
                          | v # rest \<Rightarrow>
                              (case setFlag name v fl of
                                 None \<Rightarrow> Inl (errorf ''invalid value %q for flag -%s: %v'' [v, name])
                               | Some fl' \<Rightarrow> parseFlags rest fl'))))))"
  by pat_completeness auto
termination
  by (relation "measure (\<lambda>(args, fl). length args)") auto

text \<open>What follows the flags: the lists, the explicit image, and the checks.\<close>

definition finishConfig :: "procenv \<Rightarrow> Flags \<Rightarrow> err + Config" where
  "finishConfig env fl =
     (let cfg = (flCfg fl)
            \<lparr>cfgAllowedNetworks := splitList (flAllowed fl),
             cfgSupervisorImageExplicit :=
               env (envPrefix @ ''SUPERVISOR_IMAGE'') \<noteq> None \<or> ''supervisor-image'' \<in> set (flSet fl)\<rparr>
      in if cfgSocket cfg = [] then Inl (errorf ''config: --socket must not be empty'' [])
         else if cfgStateDir cfg = [] then Inl (errorf ''config: --state-dir must not be empty'' [])
         else if cfgHostMountRoot cfg \<noteq> [] \<and> \<not> isAbs (cfgHostMountRoot cfg)
         then Inl (errorf ''config: --host-mount-root must be an absolute path'' [])
         else if cfgNetworkPolicyFile cfg \<noteq> [] \<and> \<not> isAbs (cfgNetworkPolicyFile cfg)
         then Inl (errorf ''config: --network-policy-file must be an absolute path'' [])
         else Inr cfg)"

definition ConfigParse :: "procenv \<Rightarrow> (string \<Rightarrow> bool) \<Rightarrow> string list \<Rightarrow> err + Config" where
  "ConfigParse env exists args =
     (case parseFlags args (flagDefaults env exists) of
        Inl e \<Rightarrow> Inl e
      | Inr fl \<Rightarrow> finishConfig env fl)"

subsection \<open>What a parsed configuration satisfies\<close>

lemma splitList_items: "n \<in> set (splitList s) \<Longrightarrow> n \<noteq> [] \<and> CHR '','' \<notin> set n"
proof -
  assume "n \<in> set (splitList s)"
  then obtain w where w: "w \<in> set (splitOn (CHR '','') s)" "n = TrimSpace w" "n \<noteq> []"
    by (auto simp: splitList_def)
  then have "set n \<subseteq> set w" using TrimSpace_sublist [of w] by (metis Un_iff set_append subsetI)
  then show ?thesis using w splitOn_no_sep [OF w(1)] by blast
qed

definition configOk :: "Config \<Rightarrow> bool" where
  "configOk c \<longleftrightarrow>
     cfgSocket c \<noteq> [] \<and> cfgStateDir c \<noteq> []
     \<and> (cfgHostMountRoot c = [] \<or> isAbs (cfgHostMountRoot c))
     \<and> (cfgNetworkPolicyFile c = [] \<or> isAbs (cfgNetworkPolicyFile c))
     \<and> list_all (\<lambda>n. n \<noteq> [] \<and> CHR '','' \<notin> set n) (cfgAllowedNetworks c)"

text \<open>
  A configuration \<open>Parse\<close> accepts has a socket and a state directory, an absolute (or
  no) mount root and policy file, and only non-empty allowed networks without a comma.
\<close>

theorem ConfigParse_ok:
  assumes "ConfigParse env exists args = Inr c"
  shows "configOk c"
proof -
  have "list_all (\<lambda>n. n \<noteq> [] \<and> CHR '','' \<notin> set n) (splitList s)" for s
    using splitList_items unfolding list_all_iff by blast
  with assms show ?thesis
    by (auto simp: ConfigParse_def finishConfig_def Let_def configOk_def split: sum.splits if_splits)
qed

theorem ConfigParse_ok_witness:
  "\<exists>c. ConfigParse (\<lambda>_. None) (\<lambda>_. False) [''--host-mount-root'', ''/srv'', ''--allowed-networks=a, ,b''] = Inr c
     \<and> cfgAllowedNetworks c = [''a'', ''b''] \<and> configOk c"
proof -
  have "case ConfigParse (\<lambda>_. None) (\<lambda>_. False) [''--host-mount-root'', ''/srv'', ''--allowed-networks=a, ,b''] of
          Inr c \<Rightarrow> cfgAllowedNetworks c = [''a'', ''b''] | Inl _ \<Rightarrow> False"
    by code_simp
  then show ?thesis using ConfigParse_ok by (auto split: sum.splits)
qed

text \<open>
  Flags override what was there, the last one winning; a flag not on the command line
  keeps the environment's value, and a variable not in the environment the default.
\<close>

lemma Index_single: "CHR ''='' \<notin> set u \<Longrightarrow> Index (u @ CHR ''='' # v) ''='' = Some (length u)"
  by (induction u) auto

lemma splitEq_flag:
  assumes "n \<noteq> []" "CHR ''='' \<notin> set n"
  shows "splitEq (n @ CHR ''='' # v) = (n, Some v)"
proof -
  obtain c m where n: "n = c # m" using assms(1) by (cases n) auto
  then have "Index (tl (n @ CHR ''='' # v)) ''='' = Some (length m)"
    using assms(2) by (simp add: Index_single)
  then show ?thesis by (simp add: splitEq_def n)
qed

definition flagArg :: "string \<Rightarrow> string \<Rightarrow> string" where
  "flagArg n v = ''--'' @ n @ ''='' @ v"

lemma parseFlags_arg:
  assumes "knownFlag n" "n \<noteq> []" "hd n \<noteq> CHR ''-''" "CHR ''='' \<notin> set n" "n \<noteq> boolFlag"
    and "setFlag n v fl = Some fl'"
  shows "parseFlags (flagArg n v # args) fl = parseFlags args fl'"
proof -
  have "hd n \<noteq> CHR ''=''" using assms(2,4) by (cases n) auto
  moreover have "n @ CHR ''='' # v \<noteq> []" by simp
  ultimately show ?thesis
    using assms splitEq_flag [OF assms(2,4), of v]
    by (simp add: flagArg_def Let_def numeral_2_eq_2)
qed

lemma stringFlags_names:
  assumes "map_of stringFlags n = Some g"
  shows "knownFlag n \<and> n \<noteq> [] \<and> hd n \<noteq> CHR ''-'' \<and> CHR ''='' \<notin> set n \<and> n \<noteq> boolFlag"
proof -
  have "n \<in> fst ` set stringFlags" using assms by (metis map_of_SomeD fst_conv image_eqI)
  moreover have "list_all (\<lambda>(n, g). n \<noteq> [] \<and> hd n \<noteq> CHR ''-'' \<and> CHR ''='' \<notin> set n \<and> n \<noteq> boolFlag) stringFlags"
    by (simp add: stringFlags_def boolFlag_def)
  ultimately show ?thesis by (auto simp: list_all_iff knownFlag_def)
qed

text \<open>
  A string flag beats the environment and the default: after \<open>--name=v\<close> the field the
  flag writes holds \<open>v\<close> whatever came before on the command line, and later arguments
  see the configuration with that field set.
\<close>

theorem flag_beats_environment:
  assumes "map_of stringFlags n = Some g"
    and "parseFlags before (flagDefaults env exists) = Inr fl"
    and "list_all (\<lambda>a. \<exists>m v h. a = flagArg m v \<and> map_of stringFlags m = Some h) before"
  shows "parseFlags (before @ [flagArg n v]) (flagDefaults env exists)
           = Inr (fl\<lparr>flCfg := g v (flCfg fl), flSet := n # flSet fl\<rparr>)"
proof -
  have one: "parseFlags (flagArg m w # as) fs = parseFlags as (fs\<lparr>flCfg := h w (flCfg fs), flSet := m # flSet fs\<rparr>)"
    if "map_of stringFlags m = Some h" for m w h as fs
    using stringFlags_names [OF that] that by (intro parseFlags_arg) (auto simp: setFlag_def)
  have "parseFlags (before @ [flagArg n v]) fs = Inr (fl\<lparr>flCfg := g v (flCfg fl), flSet := n # flSet fl\<rparr>)"
    if "parseFlags before fs = Inr fl" for fs
    using assms(3) that
  proof (induction before arbitrary: fs)
    case Nil
    then show ?case using one [OF assms(1)] by simp
  next
    case (Cons a bs)
    then obtain m w h where a: "a = flagArg m w" "map_of stringFlags m = Some h" by auto
    then show ?case using Cons one [OF a(2)] by simp
  qed
  with assms(2) show ?thesis by blast
qed

theorem flag_beats_environment_witness:
  "parseFlags ([flagArg ''network'' ''a''] @ [flagArg ''socket'' ''/s''])
     (flagDefaults (\<lambda>n. if n = ''OSHL_AC_SOCKET'' then Some ''/env'' else None) (\<lambda>_. False))
   = Inr ((flagDefaults (\<lambda>n. if n = ''OSHL_AC_SOCKET'' then Some ''/env'' else None) (\<lambda>_. False))
            \<lparr>flCfg := (flCfg (flagDefaults (\<lambda>n. if n = ''OSHL_AC_SOCKET'' then Some ''/env'' else None)
                               (\<lambda>_. False)))\<lparr>cfgNetwork := ''a'', cfgSocket := ''/s''\<rparr>,
             flSet := [''socket'', ''network'']\<rparr>)"
proof -
  let ?e = "\<lambda>n. if n = ''OSHL_AC_SOCKET'' then Some ''/env'' else None"
  let ?fl = "(flagDefaults ?e (\<lambda>_. False))
     \<lparr>flCfg := (flCfg (flagDefaults ?e (\<lambda>_. False)))\<lparr>cfgNetwork := ''a''\<rparr>, flSet := [''network'']\<rparr>"
  have s: "map_of stringFlags ''socket'' = Some (\<lambda>v. cfgSocket_update (\<lambda>_. v))"
    "map_of stringFlags ''network'' = Some (\<lambda>v. cfgNetwork_update (\<lambda>_. v))"
    by (simp_all add: stringFlags_def)
  have "setFlag ''network'' ''a'' (flagDefaults ?e (\<lambda>_. False)) = Some ?fl"
    by (simp add: setFlag_def s flagDefaults_def Let_def)
  then have "parseFlags [flagArg ''network'' ''a''] (flagDefaults ?e (\<lambda>_. False)) = Inr ?fl"
    using stringFlags_names [OF s(2)] by (subst parseFlags_arg) auto
  moreover have "list_all (\<lambda>a. \<exists>m v h. a = flagArg m v \<and> map_of stringFlags m = Some h)
      [flagArg ''network'' ''a'']"
    using s(2) by auto
  ultimately show ?thesis
    using flag_beats_environment [OF s(1), of "[flagArg ''network'' ''a'']" ?e "\<lambda>_. False" ?fl "''/s''"]
    by simp
qed

text \<open>
  Resolving the supervisor image changes nothing when the operator pinned it or the
  gateway's version is unknown; otherwise the image is the repository with a tag that is a
  plain three-part version number.
\<close>

theorem ResolveSupervisorImage_tag:
  assumes "ResolveSupervisorImage out c \<noteq> c"
  shows "\<not> cfgSupervisorImageExplicit c \<and>
    (\<exists>v. versionRe v = Some v
       \<and> ResolveSupervisorImage out c = c\<lparr>cfgSupervisorImage := SupervisorRepo @ '':'' @ v\<rparr>)"
proof -
  define v where "v = GatewayVersion out"
  have c: "\<not> cfgSupervisorImageExplicit c" "v \<noteq> []" and
    r: "ResolveSupervisorImage out c = c\<lparr>cfgSupervisorImage := SupervisorRepo @ '':'' @ v\<rparr>"
    using assms by (auto simp: ResolveSupervisorImage_def Let_def v_def split: if_splits)
  obtain w where w: "versionRe w = Some v"
    using c(2) by (auto simp: v_def GatewayVersion_def Let_def split: option.splits if_splits)
  then have t: "TrimPrefix w ''v'' = v" and
    ps: "length (splitOn (CHR ''.'') v) = 3"
      "list_all (\<lambda>p. p \<noteq> [] \<and> list_all isDigit p) (splitOn (CHR ''.'') v)"
    by (auto simp: versionRe_def Let_def split: if_splits)
  have "TrimPrefix v ''v'' = v"
  proof (cases v)
    case (Cons d u)
    have "d \<noteq> CHR ''v''"
    proof
      assume d: "d = CHR ''v''"
      then obtain x xs where "splitOn (CHR ''.'') v = (d # x) # xs"
        using Cons by (cases "splitOn (CHR ''.'') u") auto
      then have "isDigit d" using ps(2) by simp
      then show False using d by (simp add: isDigit_def)
    qed
    then show ?thesis using Cons by (simp add: TrimPrefix_def HasPrefix_def)
  qed (use c(2) in simp)
  then have "versionRe v = Some v" using ps by (simp add: versionRe_def Let_def)
  with c(1) r show ?thesis by blast
qed

theorem ResolveSupervisorImage_tag_witness:
  "\<exists>c. ResolveSupervisorImage (Some ''openshell-gateway 0.0.97'') c
        = c\<lparr>cfgSupervisorImage := SupervisorRepo @ '':0.0.97''\<rparr>
     \<and> (\<exists>v. versionRe v = Some v \<and> ResolveSupervisorImage (Some ''openshell-gateway 0.0.97'') c
              = c\<lparr>cfgSupervisorImage := SupervisorRepo @ '':'' @ v\<rparr>)"
proof -
  define c where "c = flCfg (flagDefaults (\<lambda>_. None) (\<lambda>_. False))"
  have g: "GatewayVersion (Some ''openshell-gateway 0.0.97'') = ''0.0.97''" by code_simp
  have x: "\<not> cfgSupervisorImageExplicit c" "cfgSupervisorImage c = PinnedSupervisorImage"
    by (simp_all add: c_def flagDefaults_def Let_def envOr_def)
  then have r: "ResolveSupervisorImage (Some ''openshell-gateway 0.0.97'') c
              = c\<lparr>cfgSupervisorImage := SupervisorRepo @ '':0.0.97''\<rparr>"
    by (simp add: ResolveSupervisorImage_def g Let_def)
  have "cfgSupervisorImage (c\<lparr>cfgSupervisorImage := SupervisorRepo @ '':0.0.97''\<rparr>) \<noteq> cfgSupervisorImage c"
    by (simp add: x PinnedSupervisorImage_def PinnedSupervisorTag_def)
  then have "ResolveSupervisorImage (Some ''openshell-gateway 0.0.97'') c \<noteq> c" unfolding r by metis
  from ResolveSupervisorImage_tag [OF this] r show ?thesis by blast
qed

end
