(* ===== verification/Compat.thy ===== *)
theory Compat
  imports GoStrings
begin

section \<open>Upstream version compatibility (\<open>internal/compat\<close>)\<close>

text \<open>
  \<open>Version\<close> is the parsed release number, \<open>Parse\<close> its parser and \<open>Compare\<close> the order
  that setup, preflight and \<open>status\<close> consult. A \<open>Finding\<close> keeps its level and, instead
  of the rendered text, the name of the message and its arguments. \<open>MustParse\<close> panics on
  a bad constant: its model is an option, and so is what uses it; that they never panic
  is proved below. Go's \<open>int\<close> is 64 bits wide here, which \<open>Atoi\<close> enforces.
\<close>

datatype Version = Version (Major: int) (Minor: int) (Patch: int)

definition OpenShellMin :: string where "OpenShellMin = ''0.0.96''"
definition OpenShellMax :: string where "OpenShellMax = ''0.0.116''"
definition AppleContainerMin :: string where "AppleContainerMin = ''1.2.0''"
definition AppleContainerMax :: string where "AppleContainerMax = ''1.4.1''"
definition AppleContainerMinSafe :: string where "AppleContainerMinSafe = ''1.3.1''"

definition parsePart :: "string \<Rightarrow> int option" where
  "parsePart p = (case Atoi p of None \<Rightarrow> None | Some n \<Rightarrow> if n < 0 then None else Some n)"

definition Parse :: "string \<Rightarrow> Version option" where
  "Parse s0 =
     (let s = TrimPrefix (TrimSet (TrimSpace s0) ''()'') ''v''
      in case splitOn (CHR ''.'') s of
           [a, b, c] \<Rightarrow>
             (case (parsePart a, parsePart b, parsePart c) of
                (Some x, Some y, Some z) \<Rightarrow> Some (Version x y z)
              | _ \<Rightarrow> None)
         | _ \<Rightarrow> None)"

definition MustParse :: "string \<Rightarrow> Version option" where
  "MustParse s = Parse s"

definition versionString :: "Version \<Rightarrow> string" where
  "versionString v =
     intString (Major v) @ ''.'' @ intString (Minor v) @ ''.'' @ intString (Patch v)"

definition sign :: "int \<Rightarrow> int" where
  "sign n = (if n < 0 then -1 else if n > 0 then 1 else 0)"

definition Compare :: "Version \<Rightarrow> Version \<Rightarrow> int" where
  "Compare a b =
     (if Major a \<noteq> Major b then sign (Major a - Major b)
      else if Minor a \<noteq> Minor b then sign (Minor a - Minor b)
      else sign (Patch a - Patch b))"

definition Less :: "Version \<Rightarrow> Version \<Rightarrow> bool" where
  "Less a b \<longleftrightarrow> Compare a b < 0"

record Finding =
  fLevel :: string
  fMessage :: "string \<times> string list"

definition finding :: "string \<Rightarrow> string \<Rightarrow> string list \<Rightarrow> Finding" where
  "finding l m as = \<lparr>fLevel = l, fMessage = (m, as)\<rparr>"

definition CheckAppleContainer :: "string \<Rightarrow> Finding list option" where
  "CheckAppleContainer installed =
     (case Parse installed of
        None \<Rightarrow> Some [finding ''warn'' ''apple/container version could not be determined''
                       [AppleContainerMin, AppleContainerMax]]
      | Some v \<Rightarrow>
          (case (MustParse AppleContainerMinSafe, MustParse AppleContainerMin,
                 MustParse AppleContainerMax) of
             (Some safe, Some mn, Some mx) \<Rightarrow>
               (let out1 = (if Less v safe
                            then [finding ''warn'' ''published security advisories''
                                    [versionString v, AppleContainerMinSafe, AppleContainerMax]]
                            else []);
                    out2 = (if Less v mn
                            then out1 @ [finding ''error'' ''older than the oldest supported release''
                                           [versionString v, AppleContainerMin]]
                            else if Less mx v
                            then out1 @ [finding ''warn'' ''newer than the last verified release''
                                           [versionString v, AppleContainerMax]]
                            else out1)
                in Some (if out2 = []
                         then [finding ''ok'' ''within the verified range''
                                 [versionString v, AppleContainerMin, AppleContainerMax]]
                         else out2))
           | _ \<Rightarrow> None))"

definition CheckOpenShell :: "string \<Rightarrow> Finding list option" where
  "CheckOpenShell installed =
     (case Parse installed of
        None \<Rightarrow> Some [finding ''warn'' ''OpenShell gateway version could not be determined''
                       [OpenShellMin, OpenShellMax]]
      | Some v \<Rightarrow>
          (case (MustParse OpenShellMin, MustParse OpenShellMax) of
             (Some mn, Some mx) \<Rightarrow>
               Some (if Less v mn
                     then [finding ''error'' ''predates the compute-driver contract''
                             [versionString v, OpenShellMin]]
                     else if Less mx v
                     then [finding ''warn'' ''newer than the last verified release''
                             [versionString v, OpenShellMax]]
                     else [finding ''ok'' ''within the verified range''
                             [versionString v, OpenShellMin, OpenShellMax]])
           | _ \<Rightarrow> None))"

subsection \<open>The order on versions\<close>

lemma sign_simps [simp]:
  "sign n < 0 \<longleftrightarrow> n < 0" "sign n = 0 \<longleftrightarrow> n = 0" "0 < sign n \<longleftrightarrow> 0 < n"
  by (simp_all add: sign_def)

lemma sign_uminus: "sign (- n) = - sign n"
  by (simp add: sign_def)

text \<open>\<open>Less\<close> is the lexicographic order of the three numbers.\<close>

lemma Less_iff:
  "Less a b \<longleftrightarrow>
     Major a < Major b \<or> Major a = Major b \<and>
       (Minor a < Minor b \<or> Minor a = Minor b \<and> Patch a < Patch b)"
  by (auto simp: Less_def Compare_def)

lemma Compare_eq_0: "Compare a b = 0 \<longleftrightarrow> a = b"
  by (cases a; cases b) (simp add: Compare_def)

lemma Compare_antisym: "Compare b a = - Compare a b"
  using sign_uminus [of "Major a - Major b"] sign_uminus [of "Minor a - Minor b"]
    sign_uminus [of "Patch a - Patch b"]
  by (simp add: Compare_def)

instantiation Version :: linorder
begin

definition less_Version :: "Version \<Rightarrow> Version \<Rightarrow> bool" where
  "less_Version a b = Less a b"

definition less_eq_Version :: "Version \<Rightarrow> Version \<Rightarrow> bool" where
  "less_eq_Version a b \<longleftrightarrow> a = b \<or> Less a b"

instance
proof
  fix x y z :: Version
  show "x < y \<longleftrightarrow> x \<le> y \<and> \<not> y \<le> x"
    by (auto simp: less_Version_def less_eq_Version_def Less_iff)
  show "x \<le> x" by (simp add: less_eq_Version_def)
  show "x \<le> y \<Longrightarrow> y \<le> z \<Longrightarrow> x \<le> z"
    by (auto simp: less_eq_Version_def Less_iff)
  show "x \<le> y \<Longrightarrow> y \<le> x \<Longrightarrow> x = y"
    by (auto simp: less_eq_Version_def Less_iff)
  show "x \<le> y \<or> y \<le> x"
    by (cases x; cases y) (auto simp: less_eq_Version_def Less_iff)
qed

end

lemma Less_less: "Less a b \<longleftrightarrow> a < b"
  by (simp add: less_Version_def)

subsection \<open>Parsing what \<open>String\<close> prints\<close>

lemma natString_chars: "c \<in> set (natString n) \<Longrightarrow> isDigit c"
  using isDigit_natString [of n] by (simp add: list_all_iff)

lemma digit_not: "isDigit c \<Longrightarrow> c \<noteq> CHR ''.'' \<and> c \<noteq> CHR ''v'' \<and> c \<noteq> CHR ''('' \<and> c \<noteq> CHR '')''"
  by (auto simp: isDigit_def)

text \<open>No white space rune starts or ends with a digit.\<close>

lemma spaceRunes_no_digit:
  "w \<in> set spaceRunes \<Longrightarrow> w \<noteq> [] \<and> \<not> isDigit (hd w) \<and> \<not> isDigit (last w)"
  by (auto simp: spaceRunes_def isDigit_def)

lemma dropOne_digit:
  assumes "isDigit c"
  shows "dropOne spaceRunes (c # s) = None" "dropOne (map rev spaceRunes) (c # s) = None"
proof -
  have "dropOne ws (c # s) = None" if "\<forall>w \<in> set ws. w \<noteq> [] \<longrightarrow> \<not> isDigit (hd w)" for ws
    using that assms
  proof (induction ws)
    case Nil
    then show ?case by simp
  next
    case (Cons w ws)
    then show ?case by (cases w) auto
  qed
  then show "dropOne spaceRunes (c # s) = None" "dropOne (map rev spaceRunes) (c # s) = None"
    using spaceRunes_no_digit by (auto simp: hd_rev)
qed

text \<open>A text with a digit at both ends is not changed by any of the trims.\<close>

lemma TrimSpace_digits:
  assumes "isDigit a" and "isDigit b"
  shows "TrimSpace (a # s @ [b]) = a # s @ [b]"
  using dropOne_digit(1) [OF assms(1), of "s @ [b]"]
    dropOne_digit(2) [OF assms(2), of "rev s @ [a]"]
  by (simp add: TrimSpace_def trimRightOf_def trimLeftOf.simps)

lemma TrimSet_digits:
  assumes "isDigit a" and "isDigit b"
  shows "TrimSet (a # s @ [b]) ''()'' = a # s @ [b]"
  using assms digit_not by (simp add: TrimSet_def TrimRightSet_def)

lemma parsePart_natString: "n < 2 ^ 63 \<Longrightarrow> parsePart (natString n) = Some (int n)"
  by (simp add: parsePart_def Atoi_natString)

lemma Parse_digits:
  assumes ab: "isDigit a" "isDigit b" and s: "splitOn (CHR ''.'') (a # s @ [b]) = [x, y, z]"
    and p: "parsePart x = Some i" "parsePart y = Some j" "parsePart z = Some k"
  shows "Parse (a # s @ [b]) = Some (Version i j k)"
proof -
  have "TrimPrefix (a # s @ [b]) ''v'' = a # s @ [b]"
    using digit_not [OF ab(1)] by (auto simp: TrimPrefix_def HasPrefix_def)
  then show ?thesis
    using ab s p by (simp add: Parse_def TrimSpace_digits TrimSet_digits)
qed

lemma versionString_nat:
  assumes v: "0 \<le> Major v" "0 \<le> Minor v" "0 \<le> Patch v"
  shows "versionString v = joinWith ''.''
           [natString (nat (Major v)), natString (nat (Minor v)), natString (nat (Patch v))]"
  using v by (simp add: versionString_def intString_def)

lemma ends_of_joined:
  assumes "w1 \<noteq> []" "w3 \<noteq> []" "\<forall>c \<in> set w1. isDigit c" "\<forall>c \<in> set w3. isDigit c"
  obtains a s b where "w1 @ ''.'' @ w2 @ ''.'' @ w3 = a # s @ [b]" "isDigit a" "isDigit b"
proof -
  obtain a w1' where a: "w1 = a # w1'" using assms(1) by (cases w1) auto
  obtain b w3' where b: "w3 = w3' @ [b]" using assms(2) by (cases w3 rule: rev_cases) auto
  show ?thesis
    using that [of a "w1' @ ''.'' @ w2 @ ''.'' @ w3'" b] a b assms(3,4) by simp
qed

lemma Parse_versionString_aux:
  assumes v: "0 \<le> Major v" "0 \<le> Minor v" "0 \<le> Patch v"
    and b: "Major v < 2 ^ 63" "Minor v < 2 ^ 63" "Patch v < 2 ^ 63"
  shows "Parse (versionString v) = Some v"
proof -
  let ?x = "natString (nat (Major v))" and ?y = "natString (nat (Minor v))"
    and ?z = "natString (nat (Patch v))"
  have vs: "versionString v = ?x @ ''.'' @ ?y @ ''.'' @ ?z"
    using versionString_nat [OF v] by simp
  obtain a s c where e: "versionString v = a # s @ [c]" "isDigit a" "isDigit c"
    using ends_of_joined [of ?x ?z ?y] vs natString_chars by (metis natString_nonempty)
  have nd: "CHR ''.'' \<notin> set (natString n)" for n
    using natString_chars digit_not by blast
  have "splitOn (CHR ''.'') (versionString v) = [?x, ?y, ?z]"
    using versionString_nat [OF v] nd by (simp add: splitOn_append splitOn_id)
  moreover have p: "parsePart (natString (nat i)) = Some i" if "0 \<le> i" "i < 2 ^ 63" for i
    using that parsePart_natString [of "nat i"] by simp
  ultimately show ?thesis
    using Parse_digits [of a c s ?x ?y ?z] e p v b by simp
qed

subsection \<open>The constants parse\<close>

lemma Parse_constants [simp]:
  "Parse OpenShellMin = Some (Version 0 0 96)"
  "Parse OpenShellMax = Some (Version 0 0 116)"
  "Parse AppleContainerMin = Some (Version 1 2 0)"
  "Parse AppleContainerMax = Some (Version 1 4 1)"
  "Parse AppleContainerMinSafe = Some (Version 1 3 1)"
proof -
  have c: "versionString (Version 0 0 96) = OpenShellMin"
    "versionString (Version 0 0 116) = OpenShellMax"
    "versionString (Version 1 2 0) = AppleContainerMin"
    "versionString (Version 1 4 1) = AppleContainerMax"
    "versionString (Version 1 3 1) = AppleContainerMinSafe"
    by (simp_all add: versionString_def intString_def natString.simps
        OpenShellMin_def OpenShellMax_def AppleContainerMin_def AppleContainerMax_def
        AppleContainerMinSafe_def)
  show "Parse OpenShellMin = Some (Version 0 0 96)"
    "Parse OpenShellMax = Some (Version 0 0 116)"
    "Parse AppleContainerMin = Some (Version 1 2 0)"
    "Parse AppleContainerMax = Some (Version 1 4 1)"
    "Parse AppleContainerMinSafe = Some (Version 1 3 1)"
    unfolding c [symmetric] by (rule Parse_versionString_aux; simp)+
qed

lemma CheckAppleContainer_parsed:
  assumes "Parse s = Some v"
  shows "CheckAppleContainer s = Some (
      (if v < Version 1 3 1 then [finding ''warn'' ''published security advisories''
          [versionString v, AppleContainerMinSafe, AppleContainerMax]] else [])
    @ (if v < Version 1 2 0 then [finding ''error'' ''older than the oldest supported release''
          [versionString v, AppleContainerMin]]
       else if Version 1 4 1 < v then [finding ''warn'' ''newer than the last verified release''
          [versionString v, AppleContainerMax]] else [])
    @ (if Version 1 3 1 \<le> v \<and> v \<le> Version 1 4 1 then [finding ''ok'' ''within the verified range''
          [versionString v, AppleContainerMin, AppleContainerMax]] else []))"
proof -
  have o: "Version 1 2 0 < Version 1 3 1" "Version 1 3 1 < Version 1 4 1"
    by (simp_all add: less_Version_def Less_iff)
  consider
      "v < Version 1 2 0" "v < Version 1 3 1" "\<not> Version 1 3 1 \<le> v" "\<not> Version 1 4 1 < v"
    | "\<not> v < Version 1 2 0" "v < Version 1 3 1" "\<not> Version 1 3 1 \<le> v" "\<not> Version 1 4 1 < v"
    | "\<not> v < Version 1 2 0" "\<not> v < Version 1 3 1" "Version 1 3 1 \<le> v" "v \<le> Version 1 4 1"
      "\<not> Version 1 4 1 < v"
    | "\<not> v < Version 1 2 0" "\<not> v < Version 1 3 1" "Version 1 4 1 < v" "\<not> v \<le> Version 1 4 1"
    using o by (meson less_le_not_le linorder_not_le order.strict_trans)
  then show ?thesis
    using assms by cases (simp_all add: CheckAppleContainer_def MustParse_def Less_less)
qed

end
