(* ===== verification/Preflight.thy ===== *)
theory Preflight
  imports FakeRuntime Config Compat
begin

section \<open>Startup checks (\<open>preflight.go\<close>)\<close>

text \<open>
  What the driver checks and completes before it serves: the network exists, the endpoint
  guests dial is derived when none is configured, and is refused when no guest could ever
  reach it. \<open>net.ParseIP\<close> and the predicates on addresses are here; the parser of URLs is a
  parameter, the host name of a string that parses.
\<close>

subsection \<open>Addresses\<close>

text \<open>An address is its sixteen bytes; IPv4 addresses are mapped.\<close>

type_synonym ip = "nat list"

definition octet :: "string \<Rightarrow> nat option" where
  "octet w =
     (if w \<noteq> [] \<and> list_all isDigit w \<and> (hd w = CHR ''0'' \<longrightarrow> w = ''0'') \<and> digitsVal 0 w \<le> 255
      then Some (digitsVal 0 w) else None)"

definition parseIPv4 :: "string \<Rightarrow> nat list option" where
  "parseIPv4 s =
     (case map octet (splitOn (CHR ''.'') s) of
        [Some a, Some b, Some c, Some d] \<Rightarrow> Some [a, b, c, d]
      | _ \<Rightarrow> None)"

definition isHex :: "char \<Rightarrow> bool" where
  "isHex c \<longleftrightarrow> isDigit c \<or> isHexLetter c"

definition hexDigit :: "char \<Rightarrow> nat" where
  "hexDigit c = (if isDigit c then digitVal c else hexVal c)"

definition hexNumber :: "string \<Rightarrow> nat" where
  "hexNumber ds = fold (\<lambda>c n. n * 16 + hexDigit c) ds 0"

text \<open>
  The groups of an IPv6 address: at most \<open>k\<close> more, the place of the \<open>::\<close> seen so far, the
  bytes so far, the rest of the text.
\<close>

fun v6Groups :: "nat \<Rightarrow> nat option \<Rightarrow> nat list \<Rightarrow> string \<Rightarrow> (nat option \<times> nat list \<times> string) option" where
  "v6Groups 0 el ip s = Some (el, ip, s)"
| "v6Groups (Suc k) el ip s =
     (let ds = takeWhile isHex s; rest = dropWhile isHex s;
          ip1 = ip @ [hexNumber ds div 256, hexNumber ds mod 256]
      in if ds = [] \<or> length ds > 4 then None
         else (case rest of
                 [] \<Rightarrow> Some (el, ip1, [])
               | c # t \<Rightarrow>
                   (if c = CHR ''.'' then
                      (if (el = None \<and> length ip \<noteq> 12) \<or> length ip + 4 > 16 then None
                       else (case parseIPv4 s of None \<Rightarrow> None | Some q \<Rightarrow> Some (el, ip @ q, [])))
                    else if c \<noteq> CHR '':'' then None
                    else (case t of
                            [] \<Rightarrow> None
                          | c' # t' \<Rightarrow>
                              (if c' \<noteq> CHR '':'' then v6Groups k el ip1 t
                               else if el \<noteq> None then None
                               else if t' = [] then Some (Some (length ip1), ip1, [])
                               else v6Groups k (Some (length ip1)) ip1 t')))))"

definition v6Expand :: "nat option \<times> nat list \<times> string \<Rightarrow> ip option" where
  "v6Expand r =
     (case r of (el, ip, s) \<Rightarrow>
        if s \<noteq> [] then None
        else if length ip < 16 then
          (case el of None \<Rightarrow> None | Some n \<Rightarrow> Some (take n ip @ replicate (16 - length ip) 0 @ drop n ip))
        else if el \<noteq> None then None else Some ip)"

definition parseIPv6 :: "string \<Rightarrow> ip option" where
  "parseIPv6 s =
     (if CHR ''%'' \<in> set s then None
      else if HasPrefix s ''::'' then
        (if length s = 2 then Some (replicate 16 0)
         else Option.bind (v6Groups 8 (Some 0) [] (drop 2 s)) v6Expand)
      else Option.bind (v6Groups 8 None [] s) v6Expand)"

definition mapped :: "nat list \<Rightarrow> ip" where
  "mapped q = replicate 10 0 @ [255, 255] @ q"

text \<open>\<open>net.ParseIP\<close>: the first dot or colon decides the family.\<close>

definition ParseIP :: "string \<Rightarrow> ip option" where
  "ParseIP s =
     (case filter (\<lambda>c. c \<in> set ''.:%'') s of
        [] \<Rightarrow> None
      | c # _ \<Rightarrow>
          (if c = CHR ''.'' then map_option mapped (parseIPv4 s)
           else if c = CHR '':'' then parseIPv6 s else None))"

definition isV4 :: "ip \<Rightarrow> bool" where
  "isV4 a \<longleftrightarrow> take 12 a = replicate 10 0 @ [255, 255]"

definition IsLoopback :: "ip \<Rightarrow> bool" where
  "IsLoopback a \<longleftrightarrow> (if isV4 a then a ! 12 = 127 else a = replicate 15 0 @ [1])"

definition IsUnspecified :: "ip \<Rightarrow> bool" where
  "IsUnspecified a \<longleftrightarrow> a = mapped [0, 0, 0, 0] \<or> a = replicate 16 0"

text \<open>
  \<open>strings.EqualFold\<close> against lower-case ASCII without \<open>k\<close>: the capitals fold, and so does
  U+017F, the long s.
\<close>

fun foldASCII :: "string \<Rightarrow> string" where
  "foldASCII (a # b # s) =
     (if [a, b] = [CHR 0xC5, CHR 0xBF] then CHR ''s'' # foldASCII s
      else lowerChar a # foldASCII (b # s))"
| "foldASCII s = map lowerChar s"

definition isLoopbackHost :: "string \<Rightarrow> bool" where
  "isLoopbackHost host \<longleftrightarrow>
     foldASCII host = ''localhost''
     \<or> (case ParseIP host of None \<Rightarrow> False | Some a \<Rightarrow> IsLoopback a \<or> IsUnspecified a)"

text \<open>\<open>net.JoinHostPort\<close>.\<close>

definition JoinHostPort :: "string \<Rightarrow> string \<Rightarrow> string" where
  "JoinHostPort host port =
     (if CHR '':'' \<in> set host then ''['' @ host @ '']:'' @ port else host @ '':'' @ port)"

subsection \<open>The network\<close>

definition gatewayPort :: string where "gatewayPort = ''17670''"

definition gatewayOf :: "string \<Rightarrow> Network list \<Rightarrow> string option" where
  "gatewayOf name ns = map_option nwIPv4Gateway (find (\<lambda>n. nwName n = name) ns)"

text \<open>The networks, with one attempt to start a runtime that is down.\<close>

definition listNetworks :: "'w Runtime \<Rightarrow> bool \<Rightarrow> 'w \<Rightarrow> Network list option \<times> 'w" where
  "listNetworks rt ctx w =
     (case rtNetworks rt ctx w of
        (Inr ns, w1) \<Rightarrow> (Some ns, w1)
      | (Inl e, w1) \<Rightarrow>
          (case rtSystemStart rt ctx w1 of
             (Some e', w2) \<Rightarrow> (None, w2)
           | (None, w2) \<Rightarrow>
               (case rtNetworks rt ctx w2 of
                  (Inr ns, w3) \<Rightarrow> (Some ns, w3)
                | (Inl e', w3) \<Rightarrow> (None, w3))))"

definition ensureNetwork :: "'w Runtime \<Rightarrow> bool \<Rightarrow> string \<Rightarrow> 'w \<Rightarrow> string \<times> 'w" where
  "ensureNetwork rt ctx name w =
     (case listNetworks rt ctx w of
        (None, w1) \<Rightarrow> ([], w1)
      | (Some ns, w1) \<Rightarrow>
          (case gatewayOf name ns of
             Some g \<Rightarrow> (g, w1)
           | None \<Rightarrow>
               (case rtNetworkCreate rt ctx name w1 of
                  (Some e, w2) \<Rightarrow> ([], w2)
                | (None, w2) \<Rightarrow>
                    (case rtNetworks rt ctx w2 of
                       (Inl e, w3) \<Rightarrow> ([], w3)
                     | (Inr ns', w3) \<Rightarrow>
                         (case gatewayOf name ns' of Some g \<Rightarrow> (g, w3) | None \<Rightarrow> ([], w3))))))"

text \<open>The findings on the runtime's version, which the driver only logs.\<close>

definition checkRuntimeVersion :: "'w Runtime \<Rightarrow> bool \<Rightarrow> 'w \<Rightarrow> Finding list option \<times> 'w" where
  "checkRuntimeVersion rt ctx w =
     (case rtVersion rt ctx w of
        (Inl e, w1) \<Rightarrow> (Some [], w1)
      | (Inr ver, w1) \<Rightarrow> (CheckAppleContainer ver, w1))"

subsection \<open>The endpoint\<close>

text \<open>\<open>hostOf\<close>: the host name of a string that \<open>url.Parse\<close> accepts, \<open>None\<close> for its error.\<close>

definition checkEndpoint :: "(string \<Rightarrow> string option) \<Rightarrow> string \<Rightarrow> err option" where
  "checkEndpoint hostOf ep =
     (if ep = [] then None
      else if \<not> HasPrefix ep ''http://'' \<and> \<not> HasPrefix ep ''https://''
      then Some (errorf ''preflight: --grpc-endpoint %q must be an http:// or https:// URL (lowercase scheme)'' [ep])
      else (case hostOf ep of
              None \<Rightarrow> Some (errorf ''preflight: --grpc-endpoint %q is not a valid URL'' [ep])
            | Some h \<Rightarrow>
                (if h = [] then Some (errorf ''preflight: --grpc-endpoint %q is not a valid URL'' [ep])
                 else if isLoopbackHost h
                 then Some (errorf ''preflight: --grpc-endpoint %q points at loopback, which guest VMs can never reach'' [ep])
                 else None)))"

definition deriveEndpoint :: "string \<Rightarrow> Config \<Rightarrow> Config" where
  "deriveEndpoint gatewayIP cfg =
     (if cfgGRPCEndpoint cfg = [] \<and> gatewayIP \<noteq> []
      then cfg\<lparr>cfgGRPCEndpoint := ''https://'' @ JoinHostPort gatewayIP gatewayPort\<rparr> else cfg)"


text \<open>The guest TLS files that are not there, which the driver only warns of.\<close>

definition unreadableTLS :: "(string \<Rightarrow> bool) \<Rightarrow> Config \<Rightarrow> string list" where
  "unreadableTLS exists cfg =
     (if HasPrefix (cfgGRPCEndpoint cfg) ''https://''
      then filter (\<lambda>p. \<not> exists p) [cfgGuestTLSCA cfg, cfgGuestTLSCert cfg, cfgGuestTLSKey cfg] else [])"

record preflight =
  pfErr :: "err option"
  pfCfg :: Config
  pfFindings :: "Finding list option"
  pfUnreadable :: "string list"

definition Preflight ::
  "(string \<Rightarrow> string option) \<Rightarrow> (string \<Rightarrow> bool) \<Rightarrow> 'w Runtime \<Rightarrow> bool \<Rightarrow> Config \<Rightarrow> 'w \<Rightarrow> preflight \<times> 'w" where
  "Preflight hostOf exists rt ctx cfg w =
     (let (gatewayIP, w1) = ensureNetwork rt ctx (cfgNetwork cfg) w;
          (findings, w2) = checkRuntimeVersion rt ctx w1;
          cfg1 = deriveEndpoint gatewayIP cfg;
          e = checkEndpoint hostOf (cfgGRPCEndpoint cfg1)
      in (\<lparr>pfErr = e, pfCfg = cfg1, pfFindings = findings,
           pfUnreadable = (if e = None then unreadableTLS exists cfg1 else [])\<rparr>, w2))"

subsection \<open>Addresses in dotted form\<close>

definition dotted :: "nat \<Rightarrow> nat \<Rightarrow> nat \<Rightarrow> nat \<Rightarrow> string" where
  "dotted a b c d = joinWith ''.'' (map natString [a, b, c, d])"

lemma natString_zero: "hd (natString n) = CHR ''0'' \<Longrightarrow> n = 0"
proof (induction n rule: natString.induct)
  case (1 n)
  show ?case
  proof (cases "n < 10")
    case True
    then have "digitVal (hd (natString n)) = n" by (simp add: natString.simps [of n])
    then show ?thesis using 1 by (simp add: digitVal_def)
  next
    case False
    then have "hd (natString n) = hd (natString (n div 10))" by (simp add: natString.simps [of n])
    then show ?thesis using 1 False by auto
  qed
qed

lemma octet_natString: "n \<le> 255 \<Longrightarrow> octet (natString n) = Some n"
  using natString_zero [of n] by (auto simp: octet_def isDigit_natString natString.simps [of 0])

lemma isDigit_dot: "list_all isDigit w \<Longrightarrow> CHR ''.'' \<notin> set w \<and> CHR '':'' \<notin> set w \<and> CHR ''%'' \<notin> set w"
  by (auto simp: list_all_iff isDigit_def)

lemma parseIPv4_dotted:
  assumes "a \<le> 255" "b \<le> 255" "c \<le> 255" "d \<le> 255"
  shows "parseIPv4 (dotted a b c d) = Some [a, b, c, d]"
proof -
  have "splitOn (CHR ''.'') (dotted a b c d) = map natString [a, b, c, d]"
    unfolding dotted_def by (rule splitOn_joinWith) (use isDigit_dot [OF isDigit_natString] in auto)
  then show ?thesis using assms by (simp add: parseIPv4_def octet_natString)
qed

lemma ParseIP_dotted:
  assumes "a \<le> 255" "b \<le> 255" "c \<le> 255" "d \<le> 255"
  shows "ParseIP (dotted a b c d) = Some (mapped [a, b, c, d])"
proof -
  have "filter (\<lambda>c. c \<in> set ''.:%'') (natString n) = []" for n
    using isDigit_dot [OF isDigit_natString [of n]] by (auto simp: filter_empty_conv)
  then have "filter (\<lambda>c. c \<in> set ''.:%'') (dotted a b c d) = ''...''" by (simp add: dotted_def)
  then show ?thesis using parseIPv4_dotted [OF assms] by (simp add: ParseIP_def)
qed

text \<open>
  An IPv4 host in dotted form is refused as unreachable exactly when it lies in 127/8 or
  is 0.0.0.0.
\<close>

theorem isLoopbackHost_dotted:
  assumes "a \<le> 255" "b \<le> 255" "c \<le> 255" "d \<le> 255"
  shows "isLoopbackHost (dotted a b c d) \<longleftrightarrow> a = 127 \<or> (a = 0 \<and> b = 0 \<and> c = 0 \<and> d = 0)"
proof -
  have "isDigit (hd (natString a))" by (rule hd_natString)
  then obtain x xs where x: "dotted a b c d = x # xs" "isDigit x"
    by (cases "natString a") (auto simp: dotted_def)
  have "foldASCII (x # y # ys) \<noteq> ''localhost''" for y ys using x(2) by (auto simp: isDigit_def lowerChar_def Let_def)
  moreover have "xs \<noteq> []" using x(1) arg_cong [of "dotted a b c d" _ length] by (auto simp: dotted_def)
  ultimately have "foldASCII (dotted a b c d) \<noteq> ''localhost''" using x(1) by (cases xs) auto
  then show ?thesis
    by (simp add: isLoopbackHost_def ParseIP_dotted [OF assms] IsLoopback_def IsUnspecified_def isV4_def mapped_def
        numeral_eq_Suc)
qed

text \<open>
  C31. What a successful startup check guarantees: the configuration differs from the given
  one at most in an endpoint that was empty and is now derived, and the endpoint, if there is
  one, is an http or https URL whose host is neither \<open>localhost\<close> (in any case) nor an address
  that guests can never reach (127/8, 0.0.0.0, ::1 or ::).
\<close>

theorem Preflight_ok:
  assumes "Preflight hostOf exists rt ctx cfg w = (r, w')" and "pfErr r = None"
  shows "(pfCfg r = cfg \<or> cfgGRPCEndpoint cfg = []
          \<and> (\<exists>g. pfCfg r = cfg\<lparr>cfgGRPCEndpoint := ''https://'' @ JoinHostPort g gatewayPort\<rparr>))
    \<and> (cfgGRPCEndpoint (pfCfg r) = [] \<or>
       (HasPrefix (cfgGRPCEndpoint (pfCfg r)) ''http://'' \<or> HasPrefix (cfgGRPCEndpoint (pfCfg r)) ''https://'')
       \<and> (\<exists>h. hostOf (cfgGRPCEndpoint (pfCfg r)) = Some h \<and> h \<noteq> [] \<and> foldASCII h \<noteq> ''localhost''
            \<and> (\<forall>a. ParseIP h \<noteq> Some a \<or> (a \<noteq> replicate 16 0 \<and> a \<noteq> replicate 15 0 @ [1]
                 \<and> a \<noteq> mapped [0, 0, 0, 0] \<and> (\<forall>x y z. a \<noteq> mapped [127, x, y, z])))))"
proof -
  have r: "\<exists>g. pfCfg r = deriveEndpoint g cfg" "checkEndpoint hostOf (cfgGRPCEndpoint (pfCfg r)) = None"
    using assms by (auto simp: Preflight_def Let_def split: prod.splits)
  have l: "IsLoopback (mapped [127, x, y, z])" "IsLoopback (replicate 15 0 @ [1])"
    "IsUnspecified (replicate 16 0)" "IsUnspecified (mapped [0, 0, 0, 0])" for x y z
    by (simp_all add: IsLoopback_def IsUnspecified_def isV4_def mapped_def numeral_eq_Suc)
  have "pfCfg r = cfg \<or> cfgGRPCEndpoint cfg = []
          \<and> (\<exists>g. pfCfg r = cfg\<lparr>cfgGRPCEndpoint := ''https://'' @ JoinHostPort g gatewayPort\<rparr>)"
    using r(1) by (auto simp: deriveEndpoint_def split: if_splits)
  moreover have "a \<noteq> replicate 16 0 \<and> a \<noteq> replicate 15 0 @ [1] \<and> a \<noteq> mapped [0, 0, 0, 0]
      \<and> (\<forall>x y z. a \<noteq> mapped [127, x, y, z])" if "ParseIP h = Some a" "\<not> isLoopbackHost h" for h a
    using that l by (auto simp: isLoopbackHost_def)
  ultimately show ?thesis
    using r(2) by (auto simp: checkEndpoint_def isLoopbackHost_def split: option.splits if_splits)
qed

theorem isLoopbackHost_dotted_witness: "isLoopbackHost (dotted 127 0 0 1) \<and> \<not> isLoopbackHost (dotted 192 168 65 1)"
  using isLoopbackHost_dotted [of 127 0 0 1] isLoopbackHost_dotted [of 192 168 65 1] by simp

lemma isLoopbackHost_examples:
  "isLoopbackHost ''LocalHost''" "isLoopbackHost ''::1''" "isLoopbackHost ''::''" "isLoopbackHost ''0:0::1''"
  "\<not> isLoopbackHost ''gateway.local''"
  by code_simp+

text \<open>The driver's zero configuration: no endpoint, no network yet.\<close>

definition demoHostOf :: "string \<Rightarrow> string option" where
  "demoHostOf s = (if s = ''https://192.168.65.1:17670'' then Some ''192.168.65.1'' else None)"

definition demoZero :: Config where
  "demoZero = (flCfg (flagDefaults (\<lambda>_. None) (\<lambda>_. False)))\<lparr>cfgNetwork := ''oshl''\<rparr>"

theorem Preflight_ok_witness:
  "\<exists>r w'. Preflight demoHostOf (\<lambda>_. True) fakeRuntime False demoZero emptyFake = (r, w') \<and> pfErr r = None
     \<and> cfgGRPCEndpoint (pfCfg r) = ''https://192.168.65.1:17670''
     \<and> (\<exists>h. demoHostOf (cfgGRPCEndpoint (pfCfg r)) = Some h \<and> foldASCII h \<noteq> ''localhost'')"
proof -
  obtain r w' where p: "Preflight demoHostOf (\<lambda>_. True) fakeRuntime False demoZero emptyFake = (r, w')" by fastforce
  have "pfErr (fst (Preflight demoHostOf (\<lambda>_. True) fakeRuntime False demoZero emptyFake)) = None
      \<and> cfgGRPCEndpoint (pfCfg (fst (Preflight demoHostOf (\<lambda>_. True) fakeRuntime False demoZero emptyFake)))
          = ''https://192.168.65.1:17670''"
    by code_simp
  then have e: "pfErr r = None" "cfgGRPCEndpoint (pfCfg r) = ''https://192.168.65.1:17670''" by (simp_all add: p)
  from Preflight_ok [OF p e(1)] p e show ?thesis by auto
qed

text \<open>
  Two spellings of loopback pass the check: the short form \<open>127.1\<close>, which is no address
  to \<open>net.ParseIP\<close> and which resolvers expand to 127.0.0.1, and a scoped \<open>::1%lo0\<close>.
\<close>

theorem loopback_spellings_pass:
  "\<not> isLoopbackHost ''127.1'' \<and> \<not> isLoopbackHost ''::1%lo0''"
  by code_simp

end
