(* ===== verification/StateStore.thy ===== *)
theory StateStore
  imports GoPath "HOL-Library.List_Lexorder" "HOL-Library.Char_ord"
begin

section \<open>Launch records on disk (\<open>internal/state\<close>)\<close>

text \<open>
  The host file system as far as the driver uses it, and the store of launch records
  on it. A file's content is either plain bytes or the JSON encoding of a record
  (\<open>encoding/json\<close>'s round trip is the constructor \<open>RecordJSON\<close>: a file that decodes
  to a record is represented by that record). An operation that writes is given by the
  list of its file system effects in the order it makes them, so that what a crash can
  leave behind is a prefix of that list.
\<close>

subsection \<open>Identifiers and records\<close>

definition idChar :: "char \<Rightarrow> bool" where
  "idChar c \<longleftrightarrow>
     (let n = (of_char c :: nat)
      in 65 \<le> n \<and> n \<le> 90 \<or> 97 \<le> n \<and> n \<le> 122 \<or> 48 \<le> n \<and> n \<le> 57
         \<or> c = CHR ''.'' \<or> c = CHR ''_'' \<or> c = CHR ''-'')"

definition ValidID :: "string \<Rightarrow> bool" where
  "ValidID s \<longleftrightarrow>
     1 \<le> length s \<and> length s \<le> 128 \<and> list_all idChar s \<and> s \<noteq> ''.'' \<and> s \<noteq> ''..''"

record Record =
  rID :: string
  rName :: string
  rNamespace :: string
  rWorkspace :: string
  rContainerName :: string
  rImageRef :: string
  rImageDigest :: string
  rCreatedAt :: int
  rStopped :: bool
  rSandbox :: string

subsection \<open>The host file system\<close>

datatype content = Bytes string | RecordJSON Record

datatype node = DirN nat | FileN nat content

text \<open>Paths to nodes, with the permission bits of each.\<close>

type_synonym hostfs = "(string \<times> node) list"

text \<open>The permissions \<open>0o700\<close> and \<open>0o600\<close>.\<close>

definition mode700 :: nat where "mode700 = 448"
definition mode600 :: nat where "mode600 = 384"

text \<open>A path's proper ancestors and itself, outermost first.\<close>

definition pathPrefixes :: "string \<Rightarrow> string list" where
  "pathPrefixes p =
     filter (\<lambda>q. q \<noteq> []) (map (\<lambda>i. take i p) (filter (\<lambda>i. p ! i = CHR ''/'') [0..<length p])) @ [p]"

datatype fsop =
    MkdirAllOp nat string
  | CreateOp string nat
  | ChmodOp string nat
  | WriteOp string content
  | RenameOp string string
  | RemoveOp string
  | RemoveAllOp string

definition mkdirOne :: "nat \<Rightarrow> string \<Rightarrow> hostfs \<Rightarrow> hostfs" where
  "mkdirOne m q fs = (case map_of fs q of None \<Rightarrow> AList.update q (DirN m) fs | Some _ \<Rightarrow> fs)"

definition underPath :: "string \<Rightarrow> string \<Rightarrow> bool" where
  "underPath d p \<longleftrightarrow> p = d \<or> HasPrefix p (d @ ''/'')"

fun fsExec :: "fsop \<Rightarrow> hostfs \<Rightarrow> hostfs" where
  "fsExec (MkdirAllOp m p) fs = fold (mkdirOne m) (pathPrefixes p) fs"
| "fsExec (CreateOp p m) fs = AList.update p (FileN m (Bytes [])) fs"
| "fsExec (ChmodOp p m) fs =
     (case map_of fs p of
        Some (FileN _ c) \<Rightarrow> AList.update p (FileN m c) fs
      | Some (DirN _) \<Rightarrow> AList.update p (DirN m) fs
      | None \<Rightarrow> fs)"
| "fsExec (WriteOp p c) fs =
     (case map_of fs p of Some (FileN m _) \<Rightarrow> AList.update p (FileN m c) fs | _ \<Rightarrow> fs)"
| "fsExec (RenameOp p q) fs =
     (case map_of fs p of
        Some n \<Rightarrow> AList.update q n (AList.delete p fs)
      | None \<Rightarrow> fs)"
| "fsExec (RemoveOp p) fs = AList.delete p fs"
| "fsExec (RemoveAllOp d) fs = filter (\<lambda>(p, n). \<not> underPath d p) fs"

definition fsRun :: "fsop list \<Rightarrow> hostfs \<Rightarrow> hostfs" where
  "fsRun ops fs = fold fsExec ops fs"

text \<open>The names \<open>os.ReadDir\<close> lists, sorted, with whether each is a directory.\<close>

definition childName :: "string \<Rightarrow> string \<Rightarrow> string option" where
  "childName d p =
     (if HasPrefix p (d @ ''/'')
      then (let n = drop (Suc (length d)) p
            in if n \<noteq> [] \<and> CHR ''/'' \<notin> set n then Some n else None)
      else None)"

definition isDirNode :: "node option \<Rightarrow> bool" where
  "isDirNode n = (case n of Some (DirN _) \<Rightarrow> True | _ \<Rightarrow> False)"

definition readDir :: "string \<Rightarrow> hostfs \<Rightarrow> (string \<times> bool) list" where
  "readDir d fs =
     map (\<lambda>n. (n, isDirNode (map_of fs (d @ ''/'' @ n))))
       (sort (remdups (List.map_filter (childName d) (keysOf fs))))"

subsection \<open>The store\<close>

definition sandboxesDir :: "string \<Rightarrow> string" where
  "sandboxesDir root = pathJoin [root, ''sandboxes'']"

definition SandboxDir :: "string \<Rightarrow> string \<Rightarrow> string" where
  "SandboxDir root i = pathJoin [sandboxesDir root, i]"

definition recordPath :: "string \<Rightarrow> string \<Rightarrow> string" where
  "recordPath root i = pathJoin [SandboxDir root i, ''state.json'']"

text \<open>
  The system calls of \<open>Save\<close> that can fail. \<open>io\<close> tells which succeed, and \<open>rnd\<close> is the
  number \<open>os.CreateTemp\<close> settles on for the temporary name. \<open>MkdirAll\<close> also fails
  where an ancestor is a file, and \<open>Rename\<close> where the target is a directory. The
  deferred \<open>os.Remove\<close> runs on every path once the temporary file exists.
\<close>

datatype saveop = SMkdir | SEncode | STemp | SChmod | SWrite | SClose | SRename

definition isFileNode :: "node option \<Rightarrow> bool" where
  "isFileNode n = (case n of Some (FileN _ _) \<Rightarrow> True | _ \<Rightarrow> False)"

definition canMkdir :: "string \<Rightarrow> hostfs \<Rightarrow> bool" where
  "canMkdir p fs = list_all (\<lambda>q. \<not> isFileNode (map_of fs q)) (pathPrefixes p)"

definition NewStore :: "bool \<Rightarrow> string \<Rightarrow> hostfs \<Rightarrow> (err + string) \<times> hostfs" where
  "NewStore ok root fs =
     (if ok \<and> canMkdir (sandboxesDir root) fs
      then (Inr root, fsExec (MkdirAllOp mode700 (sandboxesDir root)) fs)
      else (Inl (errorf ''state: create store: %w'' []), fs))"

definition tempPath :: "string \<Rightarrow> string \<Rightarrow> nat \<Rightarrow> string" where
  "tempPath root i rnd = pathJoin [SandboxDir root i, ''.state-'' @ natString rnd @ ''.json'']"

definition SaveTrace ::
  "(saveop \<Rightarrow> bool) \<Rightarrow> nat \<Rightarrow> string \<Rightarrow> Record \<Rightarrow> hostfs \<Rightarrow> err option \<times> fsop list" where
  "SaveTrace io rnd root r fs =
     (if \<not> ValidID (rID r) then (Some (errorf ''state: invalid sandbox id %q'' [rID r]), [])
      else if \<not> (io SMkdir \<and> canMkdir (SandboxDir root (rID r)) fs)
      then (Some (errorf ''state: create sandbox dir: %w'' []), [])
      else
        (let mk = [MkdirAllOp mode700 (SandboxDir root (rID r))];
             tmp = tempPath root (rID r) rnd;
             cr = mk @ [CreateOp tmp mode600];
             ch = cr @ [ChmodOp tmp mode600];
             wr = ch @ [WriteOp tmp (RecordJSON r)];
             fin = [RemoveOp tmp]
         in if \<not> io SEncode then (Some (errorf ''state: encode record: %w'' []), mk)
            else if \<not> io STemp then (Some (errorf ''state: temp file: %w'' []), mk)
            else if \<not> io SChmod then (Some (errorf ''state: chmod: %w'' []), cr @ fin)
            else if \<not> io SWrite then (Some (errorf ''state: write record: %w'' []), ch @ fin)
            else if \<not> io SClose then (Some (errorf ''state: close record: %w'' []), wr @ fin)
            else if \<not> (io SRename \<and> \<not> isDirNode (map_of fs (recordPath root (rID r))))
            then (Some (errorf ''state: persist record: %w'' []), wr @ fin)
            else (None, wr @ [RenameOp tmp (recordPath root (rID r))] @ fin)))"

definition Save ::
  "(saveop \<Rightarrow> bool) \<Rightarrow> nat \<Rightarrow> string \<Rightarrow> Record \<Rightarrow> hostfs \<Rightarrow> err option \<times> hostfs" where
  "Save io rnd root r fs = (let (e, ops) = SaveTrace io rnd root r fs in (e, fsRun ops fs))"

definition Load :: "string \<Rightarrow> string \<Rightarrow> hostfs \<Rightarrow> err + Record" where
  "Load root i fs =
     (if \<not> ValidID i then Inl (errorf ''state: invalid sandbox id %q'' [i])
      else (case map_of fs (recordPath root i) of
              None \<Rightarrow> Inl (Err KNotFound ''%w: %s'' [i])
            | Some (DirN _) \<Rightarrow> Inl (errorf ''state: read record: %w'' [])
            | Some (FileN _ (Bytes b)) \<Rightarrow> Inl (errorf ''state: decode record %s: %w'' [i])
            | Some (FileN _ (RecordJSON r)) \<Rightarrow> Inr r))"

fun listEntries ::
  "string \<Rightarrow> hostfs \<Rightarrow> (string \<times> bool) list \<Rightarrow> Record list \<times> string list" where
  "listEntries root fs [] = ([], [])"
| "listEntries root fs ((n, isDir) # es) =
     (let (rs, sk) = listEntries root fs es
      in if \<not> isDir \<or> \<not> ValidID n then (rs, n # sk)
         else (case Load root n fs of
                 Inl _ \<Rightarrow> (rs, n # sk)
               | Inr r \<Rightarrow> (if rID r \<noteq> n then (rs, n # sk) else (r # rs, sk))))"

definition ListRecords :: "string \<Rightarrow> hostfs \<Rightarrow> err + (Record list \<times> string list)" where
  "ListRecords root fs =
     (if isDirNode (map_of fs (sandboxesDir root))
      then Inr (listEntries root fs (readDir (sandboxesDir root) fs))
      else Inl (errorf ''state: scan store: %w'' []))"

definition DeleteRecord :: "bool \<Rightarrow> string \<Rightarrow> string \<Rightarrow> hostfs \<Rightarrow> err option \<times> hostfs" where
  "DeleteRecord ok root i fs =
     (if \<not> ValidID i then (Some (errorf ''state: invalid sandbox id %q'' [i]), fs)
      else if \<not> ok then (Some (errorf ''state: delete record: %w'' []), fs)
      else (None, fsExec (RemoveAllOp (SandboxDir root i)) fs))"

subsection \<open>The paths of the store\<close>

lemma idChar_no_slash: "idChar c \<Longrightarrow> c \<noteq> CHR ''/''"
  by (auto simp: idChar_def)

lemma ValidID_norm:
  assumes "ValidID i"
  shows "normComp i"
proof -
  have "CHR ''/'' \<notin> set i"
    using assms idChar_no_slash unfolding ValidID_def list_all_iff by blast
  with assms show ?thesis unfolding ValidID_def normComp_def by auto
qed

lemma digitChar_no_slash: "n < 10 \<Longrightarrow> digitChar n \<noteq> CHR ''/''"
proof -
  have "list_all (\<lambda>k. digitChar k \<noteq> CHR ''/'') [0..<10]" by code_simp
  then show "n < 10 \<Longrightarrow> digitChar n \<noteq> CHR ''/''" by (simp add: list_all_iff)
qed

lemma natString_no_slash: "CHR ''/'' \<notin> set (natString n)"
proof (induction n rule: natString.induct)
  case (1 n)
  then show ?case
    using digitChar_no_slash [of n] digitChar_no_slash [of "n mod 10"]
    by (subst natString.simps) auto
qed

lemma normComp_names:
  "normComp ''sandboxes''" "normComp ''state.json''"
  "normComp (''.state-'' @ natString rnd @ ''.json'')"
  using natString_no_slash by (auto simp: normComp_def)

definition storeBase :: "string \<Rightarrow> string" where
  "storeBase root = joinBase root @ ''sandboxes''"

lemma sandboxesDir_base: "sandboxesDir root = storeBase root"
  by (simp add: sandboxesDir_def storeBase_def pathJoin_base normComp_names)

lemma SandboxDir_base: "ValidID i \<Longrightarrow> SandboxDir root i = storeBase root @ ''/'' @ i"
  using joinBase_join [OF normComp_names(1), of root]
  by (simp add: SandboxDir_def sandboxesDir_base pathJoin_base ValidID_norm storeBase_def)

lemma joinBase_SandboxDir:
  assumes "ValidID i"
  shows "joinBase (SandboxDir root i) = SandboxDir root i @ ''/''"
  using joinBase_join [OF ValidID_norm [OF assms], of "sandboxesDir root"]
    pathJoin_base [OF ValidID_norm [OF assms], of "sandboxesDir root"]
  by (simp add: SandboxDir_def)

lemma recordPath_base:
  "ValidID i \<Longrightarrow> recordPath root i = storeBase root @ ''/'' @ i @ ''/state.json''"
  using joinBase_SandboxDir [of i root]
  by (simp add: recordPath_def pathJoin_base normComp_names SandboxDir_base)

lemma tempPath_base:
  assumes "ValidID i"
  shows "tempPath root i rnd
     = storeBase root @ ''/'' @ i @ ''/.state-'' @ natString rnd @ ''.json''"
  unfolding tempPath_def pathJoin_base [OF normComp_names(3)] joinBase_SandboxDir [OF assms]
  by (simp add: SandboxDir_base [OF assms])

lemma slash_split_eq:
  assumes "CHR ''/'' \<notin> set a" and "CHR ''/'' \<notin> set b"
  shows "a @ CHR ''/'' # x = b @ CHR ''/'' # y \<longleftrightarrow> a = b \<and> x = y"
  using assms
proof (induction a arbitrary: b)
  case Nil
  then show ?case by (cases b) auto
next
  case (Cons c a)
  then show ?case by (cases b) auto
qed

lemma ValidID_no_slash: "ValidID i \<Longrightarrow> CHR ''/'' \<notin> set i"
  using ValidID_norm normComp_def by blast

lemma recordPath_inj:
  "ValidID i \<Longrightarrow> ValidID j \<Longrightarrow> recordPath root i = recordPath root j \<longleftrightarrow> i = j"
  by (simp add: recordPath_base slash_split_eq ValidID_no_slash)

lemma tempPath_record:
  "ValidID i \<Longrightarrow> ValidID j \<Longrightarrow> tempPath root i rnd \<noteq> recordPath root j"
  by (simp add: recordPath_base tempPath_base slash_split_eq ValidID_no_slash)

lemma SandboxDir_inj:
  "ValidID i \<Longrightarrow> ValidID j \<Longrightarrow> SandboxDir root i = SandboxDir root j \<longleftrightarrow> i = j"
  by (simp add: SandboxDir_base)

lemma dir_not_record:
  "ValidID i \<Longrightarrow> ValidID j \<Longrightarrow> SandboxDir root i \<noteq> recordPath root j"
  "ValidID i \<Longrightarrow> ValidID j \<Longrightarrow> SandboxDir root i \<noteq> tempPath root j rnd"
  using ValidID_no_slash [of i]
  by (auto simp: SandboxDir_base recordPath_base tempPath_base)

lemma base_not_below:
  "ValidID j \<Longrightarrow> sandboxesDir root \<noteq> SandboxDir root j"
  "ValidID j \<Longrightarrow> sandboxesDir root \<noteq> recordPath root j"
  "ValidID j \<Longrightarrow> sandboxesDir root \<noteq> tempPath root j rnd"
  by (simp_all add: sandboxesDir_base SandboxDir_base recordPath_base tempPath_base)

lemma under_record:
  assumes "ValidID i" and "ValidID j"
  shows "underPath (SandboxDir root i) (recordPath root j) \<longleftrightarrow> i = j"
  using dir_not_record(1) [OF assms] slash_split_eq [OF ValidID_no_slash [OF assms(2)] ValidID_no_slash [OF assms(1)]]
    assms
  by (auto simp: underPath_def HasPrefix_def prefix_def recordPath_base SandboxDir_base)

lemma under_dir:
  assumes "ValidID i" and "ValidID j"
  shows "underPath (SandboxDir root i) (SandboxDir root j) \<longleftrightarrow> i = j"
  using ValidID_no_slash [OF assms(2)] assms
  by (auto simp: underPath_def HasPrefix_def prefix_def SandboxDir_base)

lemma under_base: "ValidID i \<Longrightarrow> \<not> underPath (SandboxDir root i) (sandboxesDir root)"
  by (auto simp: underPath_def HasPrefix_def prefix_def SandboxDir_base sandboxesDir_base)

lemma pathPrefixes_self: "p \<in> set (pathPrefixes p)"
  by (simp add: pathPrefixes_def)

lemma pathPrefixes_take: "q \<in> set (pathPrefixes p) \<Longrightarrow> prefix q p"
  by (auto simp: pathPrefixes_def take_is_prefix)

lemma record_not_ancestor:
  assumes "ValidID i" and "ValidID j"
  shows "recordPath root j \<notin> set (pathPrefixes (SandboxDir root i))"
proof
  assume "recordPath root j \<in> set (pathPrefixes (SandboxDir root i))"
  then have "prefix (recordPath root j) (SandboxDir root i)" by (rule pathPrefixes_take)
  then have "prefix (j @ ''/state.json'') i"
    using assms by (simp add: recordPath_base SandboxDir_base)
  then have "CHR ''/'' \<in> set i" by (auto simp: prefix_def)
  with ValidID_no_slash [OF assms(1)] show False by simp
qed

subsection \<open>What the store holds\<close>

text \<open>
  The specification view of a store: which record each identifier has. An operation of
  the store is correct when it acts on this map as an assignment, a deletion or a no-op.
\<close>

definition recordsOf :: "string \<Rightarrow> hostfs \<Rightarrow> string \<Rightarrow> Record option" where
  "recordsOf root fs i = (case Load root i fs of Inl _ \<Rightarrow> None | Inr r \<Rightarrow> Some r)"

definition storeOk :: "string \<Rightarrow> hostfs \<Rightarrow> bool" where
  "storeOk root fs \<longleftrightarrow>
     isDirNode (map_of fs (sandboxesDir root))
     \<and> (\<forall>i r. recordsOf root fs i = Some r \<longrightarrow>
          rID r = i \<and> isDirNode (map_of fs (SandboxDir root i)))"

lemma storeOkD:
  assumes "storeOk root fs" and "recordsOf root fs i = Some r"
  shows "rID r = i" "isDirNode (map_of fs (SandboxDir root i))"
  using assms unfolding storeOk_def by blast+

lemma isDirNode_simps [simp]:
  "\<not> isDirNode None" "isDirNode (Some (DirN m))" "\<not> isDirNode (Some (FileN m c))"
  by (simp_all add: isDirNode_def)

lemma recordsOf_node:
  "recordsOf root fs i = Some r \<longleftrightarrow>
     ValidID i \<and> (\<exists>m. map_of fs (recordPath root i) = Some (FileN m (RecordJSON r)))"
  by (auto simp: recordsOf_def Load_def split: option.splits node.splits content.splits)

lemma recordsOf_cong:
  assumes "\<And>i. ValidID i \<Longrightarrow> map_of fs (recordPath root i) = map_of fs' (recordPath root i)"
  shows "recordsOf root fs = recordsOf root fs'"
  using assms by (auto simp: recordsOf_def Load_def)

lemma map_of_mkdirs:
  "map_of (fold (mkdirOne m) qs fs) p =
     (case map_of fs p of None \<Rightarrow> (if p \<in> set qs then Some (DirN m) else None) | Some n \<Rightarrow> Some n)"
proof (induction qs arbitrary: fs)
  case Nil
  then show ?case by (simp split: option.splits)
next
  case (Cons q qs)
  then show ?case by (auto simp: mkdirOne_def split: option.splits)
qed

lemma fsRun_append: "fsRun (xs @ ys) fs = fsRun ys (fsRun xs fs)"
  by (simp add: fsRun_def)

lemma fsRun_simps [simp]:
  "fsRun [] fs = fs"
  "fsRun (x # xs) fs = fsRun xs (fsExec x fs)"
  by (simp_all add: fsRun_def)

text \<open>The effects of a save that leave every record alone.\<close>

definition quietOps :: "string \<Rightarrow> string \<Rightarrow> nat \<Rightarrow> fsop set" where
  "quietOps root i rnd =
     (let t = tempPath root i rnd
      in {MkdirAllOp mode700 (SandboxDir root i), RemoveOp t}
         \<union> {CreateOp t m | m. True} \<union> {ChmodOp t m | m. True} \<union> {WriteOp t c | c. True})"

lemma quietOp_record:
  assumes "op \<in> quietOps root i rnd" and i: "ValidID i" and j: "ValidID j"
  shows "map_of (fsExec op fs) (recordPath root j) = map_of fs (recordPath root j)"
  using assms tempPath_record [OF i j, of root rnd] record_not_ancestor [OF i j, of root]
  by (auto simp: quietOps_def Let_def map_of_mkdirs split: option.splits node.splits)

lemma quietOp_dir:
  assumes op: "op \<in> quietOps root i rnd" and i: "ValidID i" and
    p: "p = sandboxesDir root \<or> (\<exists>j. ValidID j \<and> p = SandboxDir root j)" and
    d: "isDirNode (map_of fs p)"
  shows "isDirNode (map_of (fsExec op fs) p)"
proof -
  have "p \<noteq> tempPath root i rnd"
    using p i base_not_below(3) [OF i, of root rnd] dir_not_record(2) [OF _ i] by metis
  then show ?thesis using op d
    by (auto simp: quietOps_def Let_def map_of_mkdirs split: option.splits node.splits)
qed

lemma quiet_run:
  assumes "set ops \<subseteq> quietOps root i rnd" and "ValidID i"
  shows "recordsOf root (fsRun ops fs) = recordsOf root fs"
  using assms(1)
proof (induction ops arbitrary: fs)
  case Nil
  then show ?case by simp
next
  case (Cons op ops)
  then have "recordsOf root (fsExec op fs) = recordsOf root fs"
    using assms(2) by (intro recordsOf_cong quietOp_record) auto
  with Cons show ?case by simp
qed

lemma quiet_run_dir:
  assumes "set ops \<subseteq> quietOps root i rnd" and i: "ValidID i" and
    p: "p = sandboxesDir root \<or> (\<exists>j. ValidID j \<and> p = SandboxDir root j)" and
    "isDirNode (map_of fs p)"
  shows "isDirNode (map_of (fsRun ops fs) p)"
  using assms(1) assms(4)
proof (induction ops arbitrary: fs)
  case Nil
  then show ?case by simp
next
  case (Cons op ops)
  then have "isDirNode (map_of (fsExec op fs) p)" by (intro quietOp_dir [OF _ i p]) auto
  with Cons show ?case by simp
qed

definition savePre :: "nat \<Rightarrow> string \<Rightarrow> Record \<Rightarrow> fsop list" where
  "savePre rnd root r =
     [MkdirAllOp mode700 (SandboxDir root (rID r)), CreateOp (tempPath root (rID r) rnd) mode600,
      ChmodOp (tempPath root (rID r) rnd) mode600,
      WriteOp (tempPath root (rID r) rnd) (RecordJSON r)]"

lemma SaveTrace_err:
  "SaveTrace io rnd root r fs = (Some e, ops) \<Longrightarrow>
     ops = [] \<or> ValidID (rID r) \<and> set ops \<subseteq> quietOps root (rID r) rnd"
  by (auto simp: SaveTrace_def Let_def quietOps_def split: if_splits)

lemma SaveTrace_ok:
  "SaveTrace io rnd root r fs = (None, ops) \<Longrightarrow>
     ValidID (rID r) \<and> canMkdir (SandboxDir root (rID r)) fs
     \<and> ops = savePre rnd root r
         @ [RenameOp (tempPath root (rID r) rnd) (recordPath root (rID r)),
            RemoveOp (tempPath root (rID r) rnd)]"
  by (auto simp: SaveTrace_def Let_def savePre_def split: if_splits)

lemma savePre_quiet: "set (savePre rnd root r) \<subseteq> quietOps root (rID r) rnd"
  by (auto simp: savePre_def quietOps_def Let_def)

lemma savePre_temp:
  "map_of (fsRun (savePre rnd root r) fs) (tempPath root (rID r) rnd)
     = Some (FileN mode600 (RecordJSON r))"
  by (simp add: savePre_def)

lemma rename_records:
  assumes v: "ValidID (rID r)"
  shows "recordsOf root (fsExec (RenameOp (tempPath root (rID r) rnd) (recordPath root (rID r)))
                           (fsRun (savePre rnd root r) fs))
           = (recordsOf root fs)(rID r \<mapsto> r)"
proof -
  let ?fs = "fsRun (savePre rnd root r) fs"
  let ?n = "fsExec (RenameOp (tempPath root (rID r) rnd) (recordPath root (rID r))) ?fs"
  have old: "recordsOf root ?fs = recordsOf root fs"
    by (rule quiet_run [OF savePre_quiet v])
  have "recordsOf root ?n j = ((recordsOf root ?fs)(rID r \<mapsto> r)) j" for j
  proof (cases "ValidID j")
    case True
    have "map_of ?n (recordPath root j) =
            (if j = rID r then Some (FileN mode600 (RecordJSON r)) else map_of ?fs (recordPath root j))"
      using True v tempPath_record [OF v True, of root rnd]
      by (simp add: savePre_temp recordPath_inj)
    then show ?thesis using True by (simp add: recordsOf_def Load_def)
  next
    case False
    with v show ?thesis by (auto simp: recordsOf_def Load_def)
  qed
  with old show ?thesis by auto
qed

subsection \<open>Saving is atomic\<close>

lemma Save_SaveTrace:
  "Save io rnd root r fs = (e, fs') \<longleftrightarrow>
     (\<exists>ops. SaveTrace io rnd root r fs = (e, ops) \<and> fs' = fsRun ops fs)"
  by (auto simp: Save_def split: prod.splits)

lemma Save_err_records:
  "Save io rnd root r fs = (Some e, fs') \<Longrightarrow> recordsOf root fs' = recordsOf root fs"
  using SaveTrace_err quiet_run by (fastforce simp: Save_SaveTrace)

lemma Save_ok_records:
  assumes "Save io rnd root r fs = (None, fs')"
  shows "recordsOf root fs' = (recordsOf root fs)(rID r \<mapsto> r)"
proof -
  obtain ops where ops: "SaveTrace io rnd root r fs = (None, ops)" "fs' = fsRun ops fs"
    using assms Save_SaveTrace by auto
  have v: "ValidID (rID r)" using SaveTrace_ok [OF ops(1)] by simp
  have "fs' = fsRun [RemoveOp (tempPath root (rID r) rnd)]
          (fsExec (RenameOp (tempPath root (rID r) rnd) (recordPath root (rID r)))
             (fsRun (savePre rnd root r) fs))"
    using SaveTrace_ok [OF ops(1)] ops(2) by (simp add: fsRun_append)
  moreover have "set [RemoveOp (tempPath root (rID r) rnd)] \<subseteq> quietOps root (rID r) rnd"
    by (simp add: quietOps_def Let_def)
  ultimately show ?thesis using quiet_run v rename_records by metis
qed

text \<open>A crash after any number of a save's effects: the old records or the new ones.\<close>

lemma Save_prefix_records:
  assumes "SaveTrace io rnd root r fs = (e, ops)"
  shows "recordsOf root (fsRun (take k ops) fs)
           \<in> {recordsOf root fs, (recordsOf root fs)(rID r \<mapsto> r)}"
proof (cases e)
  case None
  let ?t = "tempPath root (rID r) rnd"
  let ?rn = "RenameOp ?t (recordPath root (rID r))"
  have v: "ValidID (rID r)" and ops: "ops = savePre rnd root r @ [?rn, RemoveOp ?t]"
    using SaveTrace_ok assms None by auto
  show ?thesis
  proof (cases "k \<le> length (savePre rnd root r)")
    case True
    then have "set (take k ops) \<subseteq> quietOps root (rID r) rnd"
      using savePre_quiet [of rnd root r] set_take_subset [of k "savePre rnd root r"] ops by auto
    then show ?thesis using quiet_run v by simp
  next
    case False
    then obtain n where "k = length (savePre rnd root r) + Suc n"
      using less_imp_Suc_add [of "length (savePre rnd root r)" k] by auto
    then have "take k ops = (savePre rnd root r @ [?rn]) @ take n [RemoveOp ?t]"
      using ops by simp
    moreover have "set (take n [RemoveOp ?t])
                     \<subseteq> quietOps root (rID r) rnd"
      by (auto simp: quietOps_def Let_def dest: in_set_takeD)
    ultimately have "recordsOf root (fsRun (take k ops) fs)
        = recordsOf root (fsRun (savePre rnd root r @ [?rn]) fs)"
      using quiet_run v by (metis fsRun_append)
    also have "\<dots> = (recordsOf root fs)(rID r \<mapsto> r)"
      using rename_records [OF v] by (simp add: fsRun_append)
    finally show ?thesis by simp
  qed
next
  case (Some x)
  then have "ops = [] \<or> ValidID (rID r) \<and> set (take k ops) \<subseteq> quietOps root (rID r) rnd"
    using SaveTrace_err assms by (meson order_trans set_take_subset)
  then show ?thesis using quiet_run by auto
qed

lemma rename_dir:
  assumes v: "ValidID i" and
    p: "p = sandboxesDir root \<or> (\<exists>j. ValidID j \<and> p = SandboxDir root j)" and
    d: "isDirNode (map_of fs p)"
  shows "isDirNode (map_of (fsExec (RenameOp (tempPath root i rnd) (recordPath root i)) fs) p)"
proof -
  have "p \<noteq> tempPath root i rnd" "p \<noteq> recordPath root i"
    using p v base_not_below dir_not_record by metis+
  with d show ?thesis by (simp split: option.splits)
qed

lemma mkdir_makes_dir:
  assumes "canMkdir p fs"
  shows "isDirNode (map_of (fsExec (MkdirAllOp m p) fs) p)"
proof -
  have "\<not> isFileNode (map_of fs p)"
    using assms pathPrefixes_self by (auto simp: canMkdir_def list_all_iff)
  then show ?thesis
    using pathPrefixes_self [of p]
    by (auto simp: map_of_mkdirs isFileNode_def split: option.splits node.splits)
qed

lemma Save_dirs:
  assumes "Save io rnd root r fs = (e, fs')" and
    p: "p = sandboxesDir root \<or> (\<exists>j. ValidID j \<and> p = SandboxDir root j)" and
    d: "isDirNode (map_of fs p)"
  shows "isDirNode (map_of fs' p)"
proof (cases e)
  case None
  let ?t = "tempPath root (rID r) rnd"
  obtain ops where "SaveTrace io rnd root r fs = (None, ops)" "fs' = fsRun ops fs"
    using assms(1) None Save_SaveTrace by auto
  then have v: "ValidID (rID r)" and
    f: "fs' = fsRun [RemoveOp ?t] (fsExec (RenameOp ?t (recordPath root (rID r)))
                (fsRun (savePre rnd root r) fs))"
    using SaveTrace_ok [of io rnd root r fs ops] by (auto simp: fsRun_append)
  show ?thesis unfolding f
    by (rule quiet_run_dir [OF _ v p rename_dir [OF v p quiet_run_dir [OF savePre_quiet v p d]]])
      (simp add: quietOps_def Let_def)
next
  case (Some x)
  then show ?thesis
    using assms SaveTrace_err quiet_run_dir [OF _ _ p d] by (fastforce simp: Save_SaveTrace)
qed

lemma Save_ok_dir:
  assumes "Save io rnd root r fs = (None, fs')"
  shows "isDirNode (map_of fs' (SandboxDir root (rID r)))"
proof -
  let ?t = "tempPath root (rID r) rnd"
  let ?p = "SandboxDir root (rID r)"
  obtain ops where o1: "SaveTrace io rnd root r fs = (None, ops)" "fs' = fsRun ops fs"
    using assms Save_SaveTrace by auto
  then have v: "ValidID (rID r)" and c: "canMkdir ?p fs" and
    f: "fs' = fsRun [RemoveOp ?t] (fsExec (RenameOp ?t (recordPath root (rID r)))
                (fsRun (tl (savePre rnd root r)) (fsExec (MkdirAllOp mode700 ?p) fs)))"
    using SaveTrace_ok [OF o1(1)] by (auto simp: fsRun_append savePre_def)
  have p: "?p = sandboxesDir root \<or> (\<exists>j. ValidID j \<and> ?p = SandboxDir root j)" using v by blast
  have q: "set (tl (savePre rnd root r)) \<subseteq> quietOps root (rID r) rnd"
    using savePre_quiet [of rnd root r] by (simp add: savePre_def)
  show ?thesis unfolding f
    by (rule quiet_run_dir [OF _ v p rename_dir [OF v p quiet_run_dir [OF q v p mkdir_makes_dir [OF c]]]])
      (simp add: quietOps_def Let_def)
qed

lemma Save_storeOk:
  assumes s: "Save io rnd root r fs = (e, fs')" and ok: "storeOk root fs"
  shows "storeOk root fs'"
proof (unfold storeOk_def, intro conjI allI impI)
  show "isDirNode (map_of fs' (sandboxesDir root))"
    using Save_dirs [OF s] ok by (simp add: storeOk_def)
next
  fix i q
  assume q: "recordsOf root fs' i = Some q"
  then have v: "ValidID i" by (simp add: recordsOf_node)
  have old: "recordsOf root fs i = Some q" if "\<not> (e = None \<and> i = rID r)"
  proof (cases e)
    case None
    then show ?thesis using Save_ok_records [of io rnd root r fs fs'] s q that by simp
  next
    case (Some x)
    then show ?thesis using Save_err_records [of io rnd root r fs x fs'] s q by simp
  qed
  show "rID q = i"
  proof (cases "e = None \<and> i = rID r")
    case True
    then show ?thesis using Save_ok_records [of io rnd root r fs fs'] s q by simp
  next
    case False
    then show ?thesis using old ok by (simp add: storeOk_def)
  qed
  show "isDirNode (map_of fs' (SandboxDir root i))"
  proof (cases "e = None \<and> i = rID r")
    case True
    then show ?thesis using Save_ok_dir s by blast
  next
    case False
    then have "isDirNode (map_of fs (SandboxDir root i))" using old ok by (simp add: storeOk_def)
    then show ?thesis using Save_dirs [OF s] v by blast
  qed
qed

subsection \<open>Deleting and listing\<close>

lemma map_of_RemoveAll:
  "map_of (fsExec (RemoveAllOp d) fs) p = (if underPath d p then None else map_of fs p)"
  by (induction fs) auto

lemma Delete_records:
  "DeleteRecord ok root i fs = (None, fs') \<Longrightarrow>
     recordsOf root fs' = (recordsOf root fs)(i := None)"
  "DeleteRecord ok root i fs = (Some e, fs') \<Longrightarrow> fs' = fs"
proof -
  assume d: "DeleteRecord ok root i fs = (None, fs')"
  then have v: "ValidID i" and fs': "fs' = fsExec (RemoveAllOp (SandboxDir root i)) fs"
    by (auto simp: DeleteRecord_def split: if_splits)
  have "recordsOf root fs' j = ((recordsOf root fs)(i := None)) j" for j
  proof (cases "ValidID j")
    case True
    have "map_of fs' (recordPath root j) = (if i = j then None else map_of fs (recordPath root j))"
      unfolding fs' map_of_RemoveAll under_record [OF v True] by simp
    then show ?thesis using True by (auto simp: recordsOf_def Load_def)
  next
    case False
    with v show ?thesis by (auto simp: recordsOf_def Load_def)
  qed
  then show "recordsOf root fs' = (recordsOf root fs)(i := None)" by auto
next
  assume "DeleteRecord ok root i fs = (Some e, fs')"
  then show "fs' = fs" by (auto simp: DeleteRecord_def split: if_splits)
qed

lemma Delete_storeOk:
  assumes d: "DeleteRecord ok root i fs = (e, fs')" and ok: "storeOk root fs"
  shows "storeOk root fs'"
proof (cases e)
  case None
  then have v: "ValidID i" and fs': "fs' = fsExec (RemoveAllOp (SandboxDir root i)) fs"
    using d by (auto simp: DeleteRecord_def split: if_splits)
  have r: "recordsOf root fs' = (recordsOf root fs)(i := None)"
    using Delete_records(1) d None by blast
  have "isDirNode (map_of fs' (sandboxesDir root))"
    using ok under_base [OF v, of root] unfolding fs' map_of_RemoveAll by (simp add: storeOk_def)
  moreover have "isDirNode (map_of fs' (SandboxDir root j))" if "recordsOf root fs' j = Some q" for j q
  proof -
    have "j \<noteq> i" and old: "recordsOf root fs j = Some q" using that r by (auto split: if_splits)
    moreover have "ValidID j" using old by (simp add: recordsOf_node)
    ultimately show ?thesis
      using ok under_dir [OF v, of j root] unfolding fs' map_of_RemoveAll by (simp add: storeOk_def)
  qed
  moreover have "rID q = j" if "recordsOf root fs' j = Some q" for j q
    using that r ok by (auto simp: storeOk_def split: if_splits)
  ultimately show ?thesis by (simp add: storeOk_def)
next
  case (Some x)
  then show ?thesis using Delete_records(2) d ok by blast
qed

lemma listEntries_records:
  assumes "distinct (map fst es)"
  shows "set (fst (listEntries root fs es))
           = {r. (rID r, True) \<in> set es \<and> recordsOf root fs (rID r) = Some r}
         \<and> distinct (map rID (fst (listEntries root fs es)))"
  using assms
proof (induction es)
  case Nil
  then show ?case by simp
next
  case (Cons e es)
  obtain n d where e: "e = (n, d)" by (cases e)
  have d: "distinct (map rID (fst (listEntries root fs es)))" and
    s: "set (fst (listEntries root fs es))
          = {r. (rID r, True) \<in> set es \<and> recordsOf root fs (rID r) = Some r}"
    using Cons by simp_all
  have n: "(n, b) \<notin> set es" for b using Cons.prems e by (force simp: image_iff)
  show ?case
  proof (cases "d \<and> (\<exists>r. recordsOf root fs n = Some r \<and> rID r = n)")
    case True
    then obtain r where r: "recordsOf root fs n = Some r" "rID r = n" "d" by blast
    then have "ValidID n" by (auto simp: recordsOf_node)
    moreover have "Load root n fs = Inr r"
      using r(1) by (simp add: recordsOf_def split: sum.splits)
    ultimately have "fst (listEntries root fs (e # es)) = r # fst (listEntries root fs es)"
      using e r by (simp split: prod.splits)
    moreover have "rID r \<notin> rID ` set (fst (listEntries root fs es))"
    proof
      assume "rID r \<in> rID ` set (fst (listEntries root fs es))"
      then have "(n, True) \<in> set es" unfolding s using r(2) by auto
      then show False using n by blast
    qed
    moreover have "{q. (rID q, True) \<in> set (e # es) \<and> recordsOf root fs (rID q) = Some q}
       = insert r {q. (rID q, True) \<in> set es \<and> recordsOf root fs (rID q) = Some q}"
      using r e by auto
    ultimately show ?thesis using d s by simp
  next
    case False
    then have "fst (listEntries root fs (e # es)) = fst (listEntries root fs es)"
      using e by (auto simp: recordsOf_def split: prod.splits sum.splits)
    with False s d e show ?thesis by auto
  qed
qed

lemma readDir_entries:
  "distinct (map fst (readDir d fs))"
  "(n, b) \<in> set (readDir d fs) \<longleftrightarrow>
     n \<noteq> [] \<and> CHR ''/'' \<notin> set n \<and> map_of fs (d @ ''/'' @ n) \<noteq> None
     \<and> b = isDirNode (map_of fs (d @ ''/'' @ n))"
proof -
  show "distinct (map fst (readDir d fs))"
    by (simp add: readDir_def o_def)
  have c: "childName d p = Some n \<longleftrightarrow> n \<noteq> [] \<and> CHR ''/'' \<notin> set n \<and> p = d @ ''/'' @ n" for p n
    by (auto simp: childName_def HasPrefix_def prefix_def Let_def)
  have m: "n \<in> set (List.map_filter (childName d) (keysOf fs)) \<longleftrightarrow>
          n \<noteq> [] \<and> CHR ''/'' \<notin> set n \<and> d @ ''/'' @ n \<in> set (keysOf fs)" for n
  proof -
    have "n \<in> set (List.map_filter (childName d) (keysOf fs)) \<longleftrightarrow>
            (\<exists>p \<in> set (keysOf fs). childName d p = Some n)"
      by (force simp: map_filter_def)
    then show ?thesis by (auto simp: c)
  qed
  have k: "p \<in> set (keysOf fs) \<longleftrightarrow> map_of fs p \<noteq> None" for p by (auto simp: set_keysOf)
  show "(n, b) \<in> set (readDir d fs) \<longleftrightarrow>
     n \<noteq> [] \<and> CHR ''/'' \<notin> set n \<and> map_of fs (d @ ''/'' @ n) \<noteq> None
     \<and> b = isDirNode (map_of fs (d @ ''/'' @ n))"
    by (simp only: readDir_def set_map set_sort set_remdups image_iff m k Bex_def prod.inject) blast
qed

lemma List_records:
  assumes "storeOk root fs"
  shows "\<exists>rs sk. ListRecords root fs = Inr (rs, sk) \<and> distinct (map rID rs)
           \<and> (\<forall>r. r \<in> set rs \<longleftrightarrow> recordsOf root fs (rID r) = Some r)"
proof -
  obtain rs sk where l: "listEntries root fs (readDir (sandboxesDir root) fs) = (rs, sk)"
    by (cases "listEntries root fs (readDir (sandboxesDir root) fs)") auto
  have e: "set rs = {r. (rID r, True) \<in> set (readDir (sandboxesDir root) fs)
                       \<and> recordsOf root fs (rID r) = Some r}"
    "distinct (map rID rs)"
    using listEntries_records [OF readDir_entries(1), of root fs "sandboxesDir root" fs] unfolding l by simp_all
  have "r \<in> set rs \<longleftrightarrow> recordsOf root fs (rID r) = Some r" for r
  proof
    assume "r \<in> set rs"
    then show "recordsOf root fs (rID r) = Some r"
      using e by simp
  next
    assume r: "recordsOf root fs (rID r) = Some r"
    then have v: "ValidID (rID r)" by (simp add: recordsOf_node)
    have dir: "isDirNode (map_of fs (sandboxesDir root @ ''/'' @ rID r))"
      using storeOkD(2) [OF assms r] SandboxDir_base [OF v] by (simp add: sandboxesDir_base)
    then have "map_of fs (sandboxesDir root @ ''/'' @ rID r) \<noteq> None"
      by (metis isDirNode_simps(1))
    then have "(rID r, True) \<in> set (readDir (sandboxesDir root) fs)"
      using dir v ValidID_no_slash [OF v] unfolding readDir_entries(2) by (auto simp: ValidID_def)
    then show "r \<in> set rs" using e r by simp
  qed
  moreover have "ListRecords root fs = Inr (rs, sk)"
    using assms l by (simp add: ListRecords_def storeOk_def)
  ultimately show ?thesis using e(2) by blast
qed

subsection \<open>The store as an interface\<close>

text \<open>
  What the driver relies on: a map from identifiers to records, with a save that is an
  assignment or a no-op, a delete that is a deletion or a no-op, and a listing that
  returns exactly the map.
\<close>

locale record_store =
  fixes recs :: "'s \<Rightarrow> string \<Rightarrow> Record option"
    and good :: "'s \<Rightarrow> bool"
    and save :: "Record \<Rightarrow> 's \<Rightarrow> err option \<times> 's"
    and delete :: "string \<Rightarrow> 's \<Rightarrow> err option \<times> 's"
    and listing :: "'s \<Rightarrow> err + (Record list \<times> string list)"
  assumes save_ok: "save r s = (None, s') \<Longrightarrow> recs s' = (recs s)(rID r \<mapsto> r)"
    and save_err: "save r s = (Some e, s') \<Longrightarrow> recs s' = recs s"
    and save_good: "save r s = (x, s') \<Longrightarrow> good s \<Longrightarrow> good s'"
    and delete_ok: "delete i s = (None, s') \<Longrightarrow> recs s' = (recs s)(i := None)"
    and delete_err: "delete i s = (Some e, s') \<Longrightarrow> recs s' = recs s"
    and delete_good: "delete i s = (x, s') \<Longrightarrow> good s \<Longrightarrow> good s'"
    and good_ids: "good s \<Longrightarrow> recs s i = Some r \<Longrightarrow> rID r = i"
    and listing_recs: "good s \<Longrightarrow>
      \<exists>rs sk. listing s = Inr (rs, sk) \<and> distinct (map rID rs)
        \<and> (\<forall>r. r \<in> set rs \<longleftrightarrow> recs s (rID r) = Some r)"
begin

lemma save_keeps_others: "save r s = (x, s') \<Longrightarrow> i \<noteq> rID r \<Longrightarrow> recs s' i = recs s i"
  using save_ok save_err by (cases x) auto

lemma save_known: "save r s = (x, s') \<Longrightarrow> recs s' (rID r) \<in> {Some r, recs s (rID r)}"
  using save_ok save_err by (cases x) auto

lemma delete_keeps_others: "delete i s = (x, s') \<Longrightarrow> j \<noteq> i \<Longrightarrow> recs s' j = recs s j"
  using delete_ok delete_err by (cases x) auto

lemma listing_saved:
  assumes "good s" "save r s = (None, s')"
  shows "\<exists>rs sk. listing s' = Inr (rs, sk) \<and> r \<in> set rs
           \<and> (\<forall>q. rID q \<noteq> rID r \<longrightarrow> (q \<in> set rs \<longleftrightarrow> recs s (rID q) = Some q))"
  using listing_recs [OF save_good [OF assms(2,1)]] save_ok [OF assms(2)] by auto

lemma listing_deleted:
  assumes "good s" "delete i s = (None, s')"
  shows "\<exists>rs sk. listing s' = Inr (rs, sk) \<and> i \<notin> rID ` set rs
           \<and> (\<forall>q. rID q \<noteq> i \<longrightarrow> (q \<in> set rs \<longleftrightarrow> recs s (rID q) = Some q))"
  using listing_recs [OF delete_good [OF assms(2,1)]] delete_ok [OF assms(2)] by auto

end

interpretation st: record_store "recordsOf root" "storeOk root" "Save io rnd root"
  "DeleteRecord ok root" "ListRecords root"
  for root io rnd ok
proof
  fix i r s assume "storeOk root s" "recordsOf root s i = Some r"
  then show "rID r = i" by (rule storeOkD)
qed (auto simp: Save_ok_records Save_err_records Delete_records simp del: ex_simps
      dest: Delete_records(2) intro: Save_storeOk Delete_storeOk List_records)

end
