(* ===== verification/Seed.thy ===== *)
theory Seed
  imports StateStore FakeRuntime
begin

section \<open>Boot material (\<open>internal/seed/seed.go\<close>)\<close>

text \<open>
  The supervisor binary's extraction and cache, and the seed directory of a sandbox. The
  host file system is the store's \<open>hostfs\<close>; \<open>hostio\<close> tells, for each kind of system call
  and path, whether it succeeds.
\<close>

datatype iocall = IoMkdir | IoOpen | IoCopy | IoChmod | IoClose | IoWriteFile | IoRename
  | IoRead | IoRemove | IoRemoveAll | IoTemp

type_synonym hostio = "iocall \<Rightarrow> string \<Rightarrow> bool"

definition GuestSeedDir :: string where "GuestSeedDir = ''/openshell-seed''"

definition SupervisorImagePath :: string where "SupervisorImagePath = ''/openshell-sandbox''"

definition nl :: char where "nl = CHR 0x0A"
definition tab :: char where "tab = CHR 0x09"

definition bootScript :: string where
  "bootScript =
     concat (map (\<lambda>l. l @ [nl])
       [''#!/bin/sh'', ''set -eu'', ''mkdir -p /opt/openshell/bin /run/openshell'',
        ''if [ -f /openshell-seed/policy.yaml ]; then'',
        tab # ''mkdir -p /etc/openshell'',
        tab # ''cp /openshell-seed/policy.yaml /etc/openshell/policy.yaml'',
        ''fi'',
        ''cp /openshell-seed/openshell-sandbox /opt/openshell/bin/openshell-sandbox'',
        ''chmod 0755 /opt/openshell/bin/openshell-sandbox'',
        ''exec /opt/openshell/bin/openshell-sandbox''])"

subsection \<open>Cache keys\<close>

definition refChar :: "char \<Rightarrow> bool" where
  "refChar c \<longleftrightarrow> idChar c"

definition sanitizeRef :: "string \<Rightarrow> string" where
  "sanitizeRef ref =
     map (\<lambda>r. case r of [c] \<Rightarrow> (if refChar c then c else CHR ''-'') | _ \<Rightarrow> CHR ''-'') (runes ref)"

definition shortDigest :: "string \<Rightarrow> string" where
  "shortDigest digest =
     (let d = take 12 (TrimPrefix digest ''sha256:'')
      in if d = [] then ''nodigest'' else d)"

definition binPath :: "string \<Rightarrow> string \<Rightarrow> string \<Rightarrow> string" where
  "binPath cacheDir img digest =
     pathJoin [cacheDir, sanitizeRef img @ ''-'' @ shortDigest digest, ''openshell-sandbox'']"

subsection \<open>Extraction\<close>

definition findImage :: "string \<Rightarrow> Image list \<Rightarrow> string option" where
  "findImage img imgs = map_option imDigest (find (\<lambda>i. imReference i = img) imgs)"

definition ensureImage :: "'w Runtime \<Rightarrow> bool \<Rightarrow> string \<Rightarrow> 'w \<Rightarrow> (err + string) \<times> 'w" where
  "ensureImage rt ctx img w =
     (case rtImageList rt ctx w of
        (Inl e, w1) \<Rightarrow> (Inl (Wrap ''seed: list images: %w'' [] e), w1)
      | (Inr imgs, w1) \<Rightarrow>
          (case findImage img imgs of
             Some d \<Rightarrow> (Inr d, w1)
           | None \<Rightarrow>
               (case rtImagePull rt ctx img ''linux/arm64'' w1 of
                  (Some e, w2) \<Rightarrow> (Inl (Wrap ''seed: pull supervisor image: %w'' [] e), w2)
                | (None, w2) \<Rightarrow>
                    (case rtImageList rt ctx w2 of
                       (Inl e, w3) \<Rightarrow> (Inl (Wrap ''seed: list images after pull: %w'' [] e), w3)
                     | (Inr imgs', w3) \<Rightarrow>
                         (case findImage img imgs' of
                            Some d \<Rightarrow> (Inr d, w3)
                          | None \<Rightarrow>
                              (Inl (errorf ''seed: image %q not present after pull'' [img]), w3))))))"

definition elfMagic :: string where
  "elfMagic = CHR 0x7F # ''ELF''"

definition validateELF :: "hostfs \<Rightarrow> string \<Rightarrow> err option" where
  "validateELF fs p =
     (case map_of fs p of
        Some (FileN _ (Bytes b)) \<Rightarrow>
          (if length b < 4 then Some (errorf ''seed: read extracted binary: %w'' [])
           else if take 4 b \<noteq> elfMagic
           then Some (errorf ''seed: extracted supervisor is not an ELF binary'' [])
           else None)
      | Some (FileN _ (RecordJSON _)) \<Rightarrow>
          Some (errorf ''seed: extracted supervisor is not an ELF binary'' [])
      | Some (DirN _) \<Rightarrow> Some (errorf ''seed: read extracted binary: %w'' [])
      | None \<Rightarrow> Some (errorf ''seed: open extracted binary: %w'' []))"

text \<open>
  \<open>Extractor\<close>: the cache directory, the labels of extraction containers, and the
  driver's process id. \<open>seq\<close> is the value the attempt draws from \<open>extractSeq\<close>.
\<close>

record Extractor =
  exCacheDir :: string
  exLabels :: strmap
  exPid :: nat

definition extractUniq :: "Extractor \<Rightarrow> string \<Rightarrow> nat \<Rightarrow> string" where
  "extractUniq ex digest seq =
     shortDigest digest @ ''-'' @ natString (exPid ex) @ ''-'' @ natString seq"

definition extractSpec :: "Extractor \<Rightarrow> string \<Rightarrow> string \<Rightarrow> RunSpec" where
  "extractSpec ex img name =
     zeroRunSpec\<lparr>rsName := name, rsImage := img, rsEntrypoint := ''/bin/sleep'',
       rsArgs := [''300''], rsLabels := exLabels ex\<rparr>"

text \<open>With the copy in place: check it, close its mode down, and move it to the cache.\<close>

definition persistBinary :: "hostio \<Rightarrow> string \<Rightarrow> string \<Rightarrow> hostfs \<Rightarrow> (err + string) \<times> hostfs" where
  "persistBinary io tmp bin fs =
     (case validateELF fs tmp of
        Some e \<Rightarrow> (Inl e, fsExec (RemoveOp tmp) fs)
      | None \<Rightarrow>
          (if \<not> io IoChmod tmp
           then (Inl (errorf ''seed: chmod supervisor: %w'' []), fsExec (RemoveOp tmp) fs)
           else if \<not> io IoRename bin
           then (Inl (errorf ''seed: persist supervisor: %w'' []),
                 fsRun [ChmodOp tmp mode600, RemoveOp tmp] fs)
           else (Inr bin, fsRun [ChmodOp tmp mode600, RenameOp tmp bin, RemoveOp tmp] fs)))"

text \<open>
  The part of \<open>Ensure\<close> under the extraction lock. The container is deleted on every path
  after it was started, with a context that is no longer the caller's.
\<close>

definition extractLocked ::
  "'w Runtime \<Rightarrow> hostio \<Rightarrow> Extractor \<Rightarrow> nat \<Rightarrow> bool \<Rightarrow> string \<Rightarrow> string
     \<Rightarrow> 'w \<times> hostfs \<Rightarrow> (err + string) \<times> 'w \<times> hostfs" where
  "extractLocked rt io ex seq ctx img digest st =
     (let (w, fs) = st;
          bin = binPath (exCacheDir ex) img digest;
          uniq = extractUniq ex digest seq;
          name = ''oshl-extract-'' @ uniq;
          tmp = bin @ ''.partial-'' @ uniq
      in if map_of fs bin \<noteq> None then (Inr bin, w, fs)
         else if \<not> (io IoMkdir (pathDir bin) \<and> canMkdir (pathDir bin) fs)
         then (Inl (errorf ''seed: create cache dir: %w'' []), w, fs)
         else
           (let fs1 = fsExec (MkdirAllOp mode700 (pathDir bin)) fs
            in case rtRun rt ctx (extractSpec ex img name) w of
                 (Inl e, w1) \<Rightarrow> (Inl (Wrap ''seed: start extraction container: %w'' [] e), w1, fs1)
               | (Inr _, w1) \<Rightarrow>
                   (let (res, w2, fs2) =
                      (case rtCopyFrom rt ctx name SupervisorImagePath tmp w1 of
                         (Inl e, w2) \<Rightarrow>
                           (Inl (Wrap ''seed: copy supervisor from image: %w'' [] e), w2, fs1)
                       | (Inr b, w2) \<Rightarrow>
                           (let (r, fs2) = persistBinary io tmp bin
                                  (AList.update tmp (FileN mode600 (Bytes b)) fs1)
                            in (r, w2, fs2)))
                    in (res, snd (rtDelete rt False name w2), fs2))))"

definition Ensure ::
  "'w Runtime \<Rightarrow> hostio \<Rightarrow> Extractor \<Rightarrow> nat \<Rightarrow> bool \<Rightarrow> string
     \<Rightarrow> 'w \<times> hostfs \<Rightarrow> (err + string) \<times> 'w \<times> hostfs" where
  "Ensure rt io ex seq ctx img st =
     (let (w, fs) = st
      in case ensureImage rt ctx img w of
           (Inl e, w1) \<Rightarrow> (Inl e, w1, fs)
         | (Inr digest, w1) \<Rightarrow>
             (if map_of fs (binPath (exCacheDir ex) img digest) \<noteq> None
              then (Inr (binPath (exCacheDir ex) img digest), w1, fs)
              else extractLocked rt io ex seq ctx img digest (w1, fs)))"

subsection \<open>The seed directory\<close>

record Materials =
  mSupervisorPath :: string
  mCAPath :: string
  mCertPath :: string
  mKeyPath :: string
  mToken :: string
  mPolicyOverlayPath :: string

text \<open>\<open>O_CREATE|O_TRUNC\<close>: an existing file keeps its mode and loses its content.\<close>

definition openTrunc :: "nat \<Rightarrow> string \<Rightarrow> hostfs \<Rightarrow> hostfs" where
  "openTrunc mode p fs =
     (case map_of fs p of
        Some (FileN m _) \<Rightarrow> AList.update p (FileN m (Bytes [])) fs
      | _ \<Rightarrow> AList.update p (FileN mode (Bytes [])) fs)"

definition copyFile :: "hostio \<Rightarrow> string \<Rightarrow> string \<Rightarrow> hostfs \<Rightarrow> err option \<times> hostfs" where
  "copyFile io src dst fs =
     (case map_of fs src of
        None \<Rightarrow> (Some (errorf ''seed: read %s: %w'' [src]), fs)
      | Some n \<Rightarrow>
          (if isDirNode (map_of fs dst) \<or> \<not> io IoOpen dst
           then (Some (errorf ''seed: write %s: %w'' [dst]), fs)
           else
             (let fs1 = openTrunc mode600 dst fs
              in case n of
                   DirN _ \<Rightarrow> (Some (errorf ''seed: write %s: %w'' [dst]), fs1)
                 | FileN _ c \<Rightarrow>
                     (let fs2 = fsExec (WriteOp dst (if src = dst then Bytes [] else c)) fs1;
                          fs3 = fsExec (ChmodOp dst mode600) fs2
                      in if \<not> io IoCopy dst then (Some (errorf ''seed: write %s: %w'' [dst]), fs1)
                         else if \<not> io IoChmod dst
                         then (Some (errorf ''seed: chmod %s: %w'' [dst]), fs2)
                         else if \<not> io IoClose dst
                         then (Some (errorf ''seed: write %s: %w'' [dst]), fs3)
                         else (None, fs3)))))"

definition writeFile ::
  "hostio \<Rightarrow> nat \<Rightarrow> string \<Rightarrow> string \<Rightarrow> err \<Rightarrow> hostfs \<Rightarrow> err option \<times> hostfs" where
  "writeFile io mode p b e fs =
     (if isDirNode (map_of fs p) \<or> \<not> io IoOpen p then (Some e, fs)
      else if \<not> io IoWriteFile p then (Some e, openTrunc mode p fs)
      else (None, fsExec (WriteOp p (Bytes b)) (openTrunc mode p fs)))"

text \<open>Sequencing steps that may fail: the first error stops, its effects stay.\<close>

definition thenFs :: "(hostfs \<Rightarrow> err option \<times> hostfs) \<Rightarrow> (hostfs \<Rightarrow> err option \<times> hostfs)
    \<Rightarrow> hostfs \<Rightarrow> err option \<times> hostfs" where
  "thenFs f g fs = (case f fs of (Some e, fs1) \<Rightarrow> (Some e, fs1) | (None, fs1) \<Rightarrow> g fs1)"

fun seqFs :: "(hostfs \<Rightarrow> err option \<times> hostfs) list \<Rightarrow> hostfs \<Rightarrow> err option \<times> hostfs" where
  "seqFs [] fs = (None, fs)"
| "seqFs (f # gs) fs = thenFs f (seqFs gs) fs"

definition seedMkdir :: "hostio \<Rightarrow> string \<Rightarrow> hostfs \<Rightarrow> err option \<times> hostfs" where
  "seedMkdir io d fs =
     (if io IoMkdir d \<and> canMkdir d fs then (None, fsExec (MkdirAllOp mode700 d) fs)
      else (Some (errorf ''seed: create %s: %w'' [d]), fs))"

definition seedSteps :: "hostio \<Rightarrow> string \<Rightarrow> Materials \<Rightarrow> (hostfs \<Rightarrow> err option \<times> hostfs) list" where
  "seedSteps io dir m =
     [seedMkdir io dir, seedMkdir io (pathJoin [dir, ''tls'']), seedMkdir io (pathJoin [dir, ''auth'']),
      copyFile io (mSupervisorPath m) (pathJoin [dir, ''openshell-sandbox'']),
      writeFile io mode700 (pathJoin [dir, ''boot.sh'']) bootScript
        (errorf ''seed: write boot.sh: %w'' []),
      copyFile io (mCAPath m) (pathJoin [dir, ''tls'', ''ca.crt'']),
      copyFile io (mCertPath m) (pathJoin [dir, ''tls'', ''tls.crt'']),
      copyFile io (mKeyPath m) (pathJoin [dir, ''tls'', ''tls.key''])]
     @ (if mToken m \<noteq> []
        then [writeFile io mode600 (pathJoin [dir, ''auth'', ''sandbox.jwt'']) (mToken m @ [nl])
                (errorf ''seed: write token: %w'' [])]
        else [])
     @ (if mPolicyOverlayPath m \<noteq> []
        then [copyFile io (mPolicyOverlayPath m) (pathJoin [dir, ''policy.yaml''])]
        else [])"

definition SeedWrite :: "hostio \<Rightarrow> string \<Rightarrow> Materials \<Rightarrow> hostfs \<Rightarrow> err option \<times> hostfs" where
  "SeedWrite io dir m fs = seqFs (seedSteps io dir m) fs"

subsection \<open>Boot material stays out of the records\<close>

text \<open>
  A record file's path ends in the letter \<open>n\<close>; none of the paths seed material is written to
  does. Creating directories never changes a record.
\<close>

definition notRecord :: "string \<Rightarrow> bool" where
  "notRecord p \<longleftrightarrow> last p \<noteq> CHR ''n''"

lemma recordPath_last: "ValidID i \<Longrightarrow> last (recordPath root i) = CHR ''n''"
  by (simp add: recordPath_base)

lemma notRecord_neq: "notRecord p \<Longrightarrow> ValidID i \<Longrightarrow> recordPath root i \<noteq> p"
  using recordPath_last by (auto simp: notRecord_def)

lemma recordsOf_other:
  assumes "\<And>i. ValidID i \<Longrightarrow> map_of fs' (recordPath root i) = map_of fs (recordPath root i)"
  shows "recordsOf root fs' = recordsOf root fs"
  by (rule recordsOf_cong) (rule assms)

lemma mkdir_records: "recordsOf root (fsExec (MkdirAllOp m p) fs) = recordsOf root fs"
proof
  fix i
  have "recordsOf root (fsExec (MkdirAllOp m p) fs) i = Some r \<longleftrightarrow> recordsOf root fs i = Some r" for r
    by (auto simp: recordsOf_node map_of_mkdirs split: option.splits)
  then show "recordsOf root (fsExec (MkdirAllOp m p) fs) i = recordsOf root fs i"
    by (metis not_Some_eq)
qed

lemma update_records: "notRecord p \<Longrightarrow> recordsOf root (AList.update p n fs) = recordsOf root fs"
  using notRecord_neq by (intro recordsOf_other) auto

lemma fsop_records:
  "notRecord p \<Longrightarrow> recordsOf root (fsExec (CreateOp p m) fs) = recordsOf root fs"
  "notRecord p \<Longrightarrow> recordsOf root (fsExec (ChmodOp p m) fs) = recordsOf root fs"
  "notRecord p \<Longrightarrow> recordsOf root (fsExec (WriteOp p c) fs) = recordsOf root fs"
  "notRecord p \<Longrightarrow> recordsOf root (fsExec (RemoveOp p) fs) = recordsOf root fs"
  "notRecord p \<Longrightarrow> notRecord q \<Longrightarrow> recordsOf root (fsExec (RenameOp p q) fs) = recordsOf root fs"
  using notRecord_neq by (intro recordsOf_other; auto split: option.splits node.splits)+

lemma last_pathJoin:
  "normComp n \<Longrightarrow> last (pathJoin [d, n]) = last n"
  "normComp a \<Longrightarrow> normComp n \<Longrightarrow> last (pathJoin [d, a, n]) = last n"
  by (simp_all add: pathJoin_base pathJoin_base3 normComp_def)

subsection \<open>The cache only ever gains checked binaries\<close>

lemma persistBinary_ok:
  assumes "persistBinary io tmp bin fs = (Inr p, fs')" and "tmp \<noteq> bin"
  shows "p = bin \<and> (\<exists>b. map_of fs' bin = Some (FileN mode600 (Bytes b)) \<and> take 4 b = elfMagic)"
proof -
  from assms(1) have v: "validateELF fs tmp = None" and p: "p = bin" and
    fs': "fs' = fsRun [ChmodOp tmp mode600, RenameOp tmp bin, RemoveOp tmp] fs"
    by (auto simp: persistBinary_def split: option.splits if_splits)
  obtain m b where b: "map_of fs tmp = Some (FileN m (Bytes b))" "take 4 b = elfMagic"
    using v by (auto simp: validateELF_def split: option.splits node.splits content.splits if_splits)
  then have "map_of fs' bin = Some (FileN mode600 (Bytes b))"
    using assms(2) by (simp add: fs')
  with p b(2) show ?thesis by blast
qed

lemma extractLocked_ok:
  assumes "extractLocked rt io ex seq ctx img digest (w, fs) = (Inr p, w', fs')"
  shows "p = binPath (exCacheDir ex) img digest \<and>
    (map_of fs p = None \<longrightarrow>
       (\<exists>b. map_of fs' p = Some (FileN mode600 (Bytes b)) \<and> take 4 b = elfMagic))"
  using assms
  by (auto simp: extractLocked_def Let_def split: if_splits prod.splits sum.splits
      dest!: persistBinary_ok)

lemma Ensure_ok:
  assumes "Ensure rt io ex seq ctx img (w, fs) = (Inr p, w', fs')" and "map_of fs p = None"
  shows "\<exists>b. map_of fs' p = Some (FileN mode600 (Bytes b)) \<and> take 4 b = elfMagic"
  using assms
  by (auto simp: Ensure_def split: if_splits prod.splits sum.splits dest!: extractLocked_ok)

subsection \<open>Extraction leaves no container behind\<close>

text \<open>
  A runtime whose deletions, when their context is live, only fail because there is
  nothing to delete.
\<close>

locale reliable_runtime = vm_runtime +
  assumes delete_reliable:
    "good w \<Longrightarrow> rtDelete rt False n w = (Some e, w') \<Longrightarrow> isNotFoundErr e"
begin

lemma delete_gone:
  assumes "good w" and "rtDelete rt False n w = (r, w')"
  shows "vms w' = (vms w)(n := None)"
proof (cases r)
  case None
  then show ?thesis using delete_ok assms by blast
next
  case (Some e)
  then have "vms w n = None \<and> vms w' = vms w"
    using delete_notfound delete_reliable assms by blast
  then show ?thesis by (metis fun_upd_triv)
qed

lemma ensureImage_frame:
  assumes g: "good w" and e: "ensureImage rt ctx img w = (r, w')"
  shows "good w' \<and> vms w' = vms w"
proof -
  obtain r1 w1 where 1: "rtImageList rt ctx w = (r1, w1)" by fastforce
  obtain r2 w2 where 2: "rtImagePull rt ctx img ''linux/arm64'' w1 = (r2, w2)" by fastforce
  obtain r3 w3 where 3: "rtImageList rt ctx w2 = (r3, w3)" by fastforce
  have g1: "good w1" "vms w1 = vms w" using image_list_good [OF g 1] by simp_all
  have g2: "good w2" "vms w2 = vms w" using image_pull_good [OF g1(1) 2] g1(2) by simp_all
  have g3: "good w3" "vms w3 = vms w" using image_list_good [OF g2(1) 3] g2(2) by simp_all
  have "w' \<in> {w1, w2, w3}"
    using e 1 2 3 by (auto simp: ensureImage_def split: sum.splits option.splits)
  with g1 g2 g3 show ?thesis by auto
qed

lemma extractLocked_frame:
  assumes g: "good w"
    and e: "extractLocked rt io ex seq ctx img digest (w, fs) = (r, w', fs')"
    and n: "name = ''oshl-extract-'' @ extractUniq ex digest seq"
  shows "good w' \<and> (\<forall>m. m \<noteq> name \<longrightarrow> vms w' m = vms w m)
    \<and> (w' = w \<or> vms w' name = None \<or> (\<exists>x. rtRun rt ctx (extractSpec ex img name) w = (Inl x, w')))"
proof -
  let ?sp = "extractSpec ex img name"
  obtain rr w1 where run: "rtRun rt ctx ?sp w = (rr, w1)" by fastforce
  have g1: "good w1" using run_good g run by blast
  obtain rc w2 where cp: "rtCopyFrom rt ctx name SupervisorImagePath
      (binPath (exCacheDir ex) img digest @ ''.partial-'' @ extractUniq ex digest seq) w1 = (rc, w2)" by fastforce
  have g2: "good w2" "vms w2 = vms w1" using copy_good g1 cp by blast+
  obtain rd w3 where del: "rtDelete rt False name w2 = (rd, w3)" by fastforce
  have g3: "good w3" "vms w3 = (vms w2)(name := None)"
    using delete_good g2(1) del delete_gone by blast+
  have "rsName ?sp = name" by (simp add: extractSpec_def)
  then have other: "vms w1 m = vms w m" if "m \<noteq> name" for m
    using run_frame [OF g run] that by simp
  consider "w' = w" | "w' = w1" "\<exists>x. rr = Inl x" | "w' = w3"
    using e run cp del unfolding n
    by (auto simp: extractLocked_def Let_def split: if_splits prod.splits sum.splits)
  then show ?thesis
  proof cases
    case 1
    then show ?thesis using g by simp
  next
    case 2
    then show ?thesis using g1 run other by auto
  next
    case 3
    then show ?thesis using g3 g2(2) other by simp
  qed
qed

end

interpretation fkr: reliable_runtime fakeRuntime fakeVMs fakeGood
  by unfold_locales (auto simp: fakeDelete_def containerNotFound_def split: option.splits)

text \<open>
  When \<open>Ensure\<close> returns a path that was not cached before, the file there is owner-only
  and starts with the ELF magic: whatever the image contained, only checked binaries enter
  the cache.
\<close>

theorem Ensure_caches_elf:
  assumes "Ensure rt io ex seq ctx img (w, fs) = (Inr p, w', fs')" and "map_of fs p = None"
  shows "\<exists>b. map_of fs' p = Some (FileN mode600 (Bytes b)) \<and> take 4 b = elfMagic"
  using assms by (rule Ensure_ok)

definition demoExtractor :: Extractor where
  "demoExtractor = \<lparr>exCacheDir = ''/c'', exLabels = [], exPid = 7\<rparr>"

definition demoFake :: Fake where
  "demoFake = AddImage ''sup:1'' ''sha256:ab'' emptyFake"

lemma demo_Ensure:
  "case Ensure fakeRuntime (\<lambda>_ _. True) demoExtractor 1 False ''sup:1'' (demoFake, []) of
     (Inr p, w', fs') \<Rightarrow> p = ''/c/sup-1-ab/openshell-sandbox''
   | _ \<Rightarrow> False"
  by code_simp

theorem Ensure_caches_elf_witness:
  "\<exists>p w' fs' b. Ensure fakeRuntime (\<lambda>_ _. True) demoExtractor 1 False ''sup:1'' (demoFake, [])
       = (Inr p, w', fs')
     \<and> p = ''/c/sup-1-ab/openshell-sandbox'' \<and> map_of fs' p = Some (FileN mode600 (Bytes b)) \<and> take 4 b = elfMagic"
proof -
  obtain p w' fs' where e:
    "Ensure fakeRuntime (\<lambda>_ _. True) demoExtractor 1 False ''sup:1'' (demoFake, []) = (Inr p, w', fs')"
    "p = ''/c/sup-1-ab/openshell-sandbox''"
    using demo_Ensure by (auto split: prod.splits sum.splits)
  with Ensure_caches_elf [OF e(1)] show ?thesis by auto
qed

lemma fakeRun_err: "fakeRun ctx sp w = (Inl e, w') \<Longrightarrow> fakeVMs w' = fakeVMs w"
  by (auto simp: fakeRun_def Let_def fakeVMs_def split: option.splits if_splits)

text \<open>
  Extraction never leaves its throw-away container behind and touches no other one: on
  every path of \<open>Ensure\<close>, errors included, the containers afterwards are those before.
\<close>

theorem Ensure_no_container_left:
  assumes g: "fakeGood w"
    and e: "Ensure fakeRuntime io ex seq ctx img (w, fs) = (r, w', fs')"
    and n: "\<forall>n. HasPrefix n ''oshl-extract-'' \<longrightarrow> fakeVMs w n = None"
  shows "fakeVMs w' = fakeVMs w"
proof -
  obtain rd w1 where i: "ensureImage fakeRuntime ctx img w = (rd, w1)" by fastforce
  have g1: "fakeGood w1" "fakeVMs w1 = fakeVMs w" using fkr.ensureImage_frame [OF g i] by simp_all
  show ?thesis
  proof (cases "w' = w1")
    case True
    then show ?thesis using g1 by simp
  next
    case False
    then obtain d where x: "extractLocked fakeRuntime io ex seq ctx img d (w1, fs) = (r, w', fs')"
      using e i by (auto simp: Ensure_def split: sum.splits if_splits)
    define name where "name = ''oshl-extract-'' @ extractUniq ex d seq"
    have none: "fakeVMs w1 name = None" using n g1(2) by (simp add: name_def HasPrefix_def)
    have f: "\<forall>m. m \<noteq> name \<longrightarrow> fakeVMs w' m = fakeVMs w1 m"
      "fakeVMs w' name = None \<or> fakeVMs w' = fakeVMs w1"
      using fkr.extractLocked_frame [OF g1(1) x name_def] False fakeRun_err by auto
    have "fakeVMs w' m = fakeVMs w1 m" for m using f none by (cases "m = name") auto
    then show ?thesis using g1(2) by auto
  qed
qed

theorem Ensure_no_container_left_witness:
  "fakeVMs (fst (snd (Ensure fakeRuntime (\<lambda>_ _. True) demoExtractor 1 False ''sup:1'' (demoFake, []))))
     = fakeVMs demoFake"
proof -
  obtain r w' fs' where e:
    "Ensure fakeRuntime (\<lambda>_ _. True) demoExtractor 1 False ''sup:1'' (demoFake, []) = (r, w', fs')"
    by (cases "Ensure fakeRuntime (\<lambda>_ _. True) demoExtractor 1 False ''sup:1'' (demoFake, [])") auto
  have "fakeGood demoFake" "fakeVMs demoFake n = None" for n
    by (simp_all add: demoFake_def AddImage_def AddImageWithUser_def emptyFake_def fake_views goodCtrs_def ctrStates_def)
  with Ensure_no_container_left [OF _ e] e show ?thesis by simp
qed

subsection \<open>What a written seed directory holds\<close>

lemma copyFile_ok:
  "copyFile io src dst fs = (None, fs') \<Longrightarrow>
     (\<exists>m c. map_of fs src = Some (FileN m c)
        \<and> map_of fs' = (map_of fs)(dst \<mapsto> FileN mode600 (if src = dst then Bytes [] else c)))"
  by (auto simp: copyFile_def openTrunc_def Let_def isDirNode_def
      split: option.splits node.splits if_splits)

lemma writeFile_ok:
  "writeFile io mode p b e fs = (None, fs') \<Longrightarrow>
     (\<exists>m. map_of fs' = (map_of fs)(p \<mapsto> FileN m (Bytes b)) \<and> (map_of fs p = None \<longrightarrow> m = mode))"
  by (auto simp: writeFile_def openTrunc_def Let_def isDirNode_def
      split: option.splits node.splits if_splits)

lemma seedMkdir_ok:
  "seedMkdir io d fs = (None, fs') \<Longrightarrow> p \<notin> set (pathPrefixes d) \<Longrightarrow> map_of fs' p = map_of fs p"
  by (auto simp: seedMkdir_def map_of_mkdirs split: if_splits option.splits)

lemma seqFs_Cons_ok:
  "seqFs (f # gs) fs = (None, fs') \<longleftrightarrow> (\<exists>fs1. f fs = (None, fs1) \<and> seqFs gs fs1 = (None, fs'))"
  by (auto simp: thenFs_def split: prod.splits option.splits)

text \<open>The files of a seed directory, in the order they are written.\<close>

definition seedFiles :: "string \<Rightarrow> string list" where
  "seedFiles dir =
     [pathJoin [dir, ''openshell-sandbox''], pathJoin [dir, ''boot.sh''],
      pathJoin [dir, ''tls'', ''ca.crt''], pathJoin [dir, ''tls'', ''tls.crt''],
      pathJoin [dir, ''tls'', ''tls.key''], pathJoin [dir, ''auth'', ''sandbox.jwt''],
      pathJoin [dir, ''policy.yaml'']]"

lemma seedFiles_distinct: "distinct (seedFiles dir)"
proof -
  have "normComp ''openshell-sandbox''" "normComp ''boot.sh''" "normComp ''tls''" "normComp ''ca.crt''"
    "normComp ''tls.crt''" "normComp ''tls.key''" "normComp ''auth''" "normComp ''sandbox.jwt''"
    "normComp ''policy.yaml''"
    by (simp_all add: normComp_def)
  then show ?thesis by (simp add: seedFiles_def pathJoin_base pathJoin_base3)
qed

text \<open>After the directories: only directories are new.\<close>

lemma seedMkdir_keeps:
  "seedMkdir io d fs = (None, fs') \<Longrightarrow> map_of fs' p = Some (FileN m c) \<longleftrightarrow> map_of fs p = Some (FileN m c)"
  by (auto simp: seedMkdir_def map_of_mkdirs split: if_splits option.splits)

lemma seed_chain:
  assumes "SeedWrite io dir m fs = (None, fs')"
  shows "\<exists>f0 f1 f2 f3 f4 f5 f6.
    (\<forall>p k c. map_of f0 p = Some (FileN k c) \<longleftrightarrow> map_of fs p = Some (FileN k c))
    \<and> copyFile io (mSupervisorPath m) (seedFiles dir ! 0) f0 = (None, f1)
    \<and> writeFile io mode700 (seedFiles dir ! 1) bootScript (errorf ''seed: write boot.sh: %w'' []) f1 = (None, f2)
    \<and> copyFile io (mCAPath m) (seedFiles dir ! 2) f2 = (None, f3)
    \<and> copyFile io (mCertPath m) (seedFiles dir ! 3) f3 = (None, f4)
    \<and> copyFile io (mKeyPath m) (seedFiles dir ! 4) f4 = (None, f5)
    \<and> (if mToken m \<noteq> []
       then writeFile io mode600 (seedFiles dir ! 5) (mToken m @ [nl])
              (errorf ''seed: write token: %w'' []) f5 = (None, f6)
       else f6 = f5)
    \<and> (if mPolicyOverlayPath m \<noteq> []
       then copyFile io (mPolicyOverlayPath m) (seedFiles dir ! 6) f6 = (None, fs') else fs' = f6)"
proof -
  obtain d1 d2 f0 r where d: "seedMkdir io dir fs = (None, d1)"
    "seedMkdir io (pathJoin [dir, ''tls'']) d1 = (None, d2)"
    "seedMkdir io (pathJoin [dir, ''auth'']) d2 = (None, f0)"
    and r: "seqFs (drop 3 (seedSteps io dir m)) f0 = (None, fs')"
    using assms by (auto simp: SeedWrite_def seedSteps_def seqFs_Cons_ok simp del: seqFs.simps(2))
  have "map_of f0 p = Some (FileN k c) \<longleftrightarrow> map_of fs p = Some (FileN k c)" for p k c
    using seedMkdir_keeps [OF d(1)] seedMkdir_keeps [OF d(2)] seedMkdir_keeps [OF d(3)] by simp
  moreover from r have "\<exists>f1 f2 f3 f4 f5 f6.
    copyFile io (mSupervisorPath m) (seedFiles dir ! 0) f0 = (None, f1)
    \<and> writeFile io mode700 (seedFiles dir ! 1) bootScript (errorf ''seed: write boot.sh: %w'' []) f1 = (None, f2)
    \<and> copyFile io (mCAPath m) (seedFiles dir ! 2) f2 = (None, f3)
    \<and> copyFile io (mCertPath m) (seedFiles dir ! 3) f3 = (None, f4)
    \<and> copyFile io (mKeyPath m) (seedFiles dir ! 4) f4 = (None, f5)
    \<and> (if mToken m \<noteq> []
       then writeFile io mode600 (seedFiles dir ! 5) (mToken m @ [nl])
              (errorf ''seed: write token: %w'' []) f5 = (None, f6)
       else f6 = f5)
    \<and> (if mPolicyOverlayPath m \<noteq> []
       then copyFile io (mPolicyOverlayPath m) (seedFiles dir ! 6) f6 = (None, fs') else fs' = f6)"
    by (cases "mToken m = []"; cases "mPolicyOverlayPath m = []")
      (simp_all add: seedSteps_def seedFiles_def seqFs_Cons_ok numeral_2_eq_2 numeral_3_eq_3
        del: seqFs.simps(2))
  ultimately show ?thesis by blast
qed

definition keyFile :: "string \<Rightarrow> string" where
  "keyFile dir = pathJoin [dir, ''tls'', ''tls.key'']"

definition tokenFile :: "string \<Rightarrow> string" where
  "tokenFile dir = pathJoin [dir, ''auth'', ''sandbox.jwt'']"

definition bootFile :: "string \<Rightarrow> string" where
  "bootFile dir = pathJoin [dir, ''boot.sh'']"

text \<open>
  A successful \<open>Write\<close> leaves the boot shim, the client key (owner-only, with the
  content of the configured key) and, exactly when there is a token, the token followed by
  a newline; without a token no token file appears that was not there.
\<close>

theorem SeedWrite_contents:
  assumes w: "SeedWrite io dir m fs = (None, fs')"
    and key: "mKeyPath m \<notin> set (seedFiles dir)"
  shows "(\<exists>k. map_of fs' (bootFile dir) = Some (FileN k (Bytes bootScript)))
    \<and> (\<exists>k c. map_of fs (mKeyPath m) = Some (FileN k c)
         \<and> map_of fs' (keyFile dir) = Some (FileN mode600 c))
    \<and> (if mToken m \<noteq> []
       then \<exists>k. map_of fs' (tokenFile dir) = Some (FileN k (Bytes (mToken m @ [nl])))
       else \<forall>k c. map_of fs' (tokenFile dir) = Some (FileN k c) \<longrightarrow> map_of fs (tokenFile dir) = Some (FileN k c))"
proof -
  obtain f0 f1 f2 f3 f4 f5 f6 where
    f0: "\<And>p k c. map_of f0 p = Some (FileN k c) \<longleftrightarrow> map_of fs p = Some (FileN k c)" and
    s: "copyFile io (mSupervisorPath m) (seedFiles dir ! 0) f0 = (None, f1)"
    "writeFile io mode700 (seedFiles dir ! 1) bootScript (errorf ''seed: write boot.sh: %w'' []) f1 = (None, f2)"
    "copyFile io (mCAPath m) (seedFiles dir ! 2) f2 = (None, f3)"
    "copyFile io (mCertPath m) (seedFiles dir ! 3) f3 = (None, f4)"
    "copyFile io (mKeyPath m) (seedFiles dir ! 4) f4 = (None, f5)" and
    t: "if mToken m \<noteq> []
       then writeFile io mode600 (seedFiles dir ! 5) (mToken m @ [nl])
              (errorf ''seed: write token: %w'' []) f5 = (None, f6)
       else f6 = f5" and
    q: "if mPolicyOverlayPath m \<noteq> []
       then copyFile io (mPolicyOverlayPath m) (seedFiles dir ! 6) f6 = (None, fs') else fs' = f6"
    using seed_chain [OF w] by blast
  define a where "a = (\<lambda>i. seedFiles dir ! i)"
  have l: "length (seedFiles dir) = 7" by (simp add: seedFiles_def)
  have ne: "a i \<noteq> a j" if "i < 7" "j < 7" "i \<noteq> j" for i j
    using seedFiles_distinct [of dir] that l by (simp add: a_def nth_eq_iff_index_eq)
  have nk: "mKeyPath m \<noteq> a i" if "i < 7" for i
    using key that l by (metis a_def nth_mem)
  obtain c0 where m1: "map_of f1 = (map_of f0)(a 0 \<mapsto> FileN mode600 c0)"
    using copyFile_ok [OF s(1)] by (auto simp: a_def)
  obtain k1 where m2: "map_of f2 = (map_of f1)(a 1 \<mapsto> FileN k1 (Bytes bootScript))"
    using writeFile_ok [OF s(2)] by (auto simp: a_def)
  obtain c2 where m3: "map_of f3 = (map_of f2)(a 2 \<mapsto> FileN mode600 c2)"
    using copyFile_ok [OF s(3)] by (auto simp: a_def)
  obtain c3 where m4: "map_of f4 = (map_of f3)(a 3 \<mapsto> FileN mode600 c3)"
    using copyFile_ok [OF s(4)] by (auto simp: a_def)
  obtain k4 c4 where k4: "map_of f4 (mKeyPath m) = Some (FileN k4 c4)"
    and m5: "map_of f5 = (map_of f4)(a 4 \<mapsto> FileN mode600 c4)"
    using copyFile_ok [OF s(5)] nk [of 4] by (auto simp: a_def)
  have tok: "(\<forall>p. p \<noteq> a 5 \<longrightarrow> map_of f6 p = map_of f5 p)
      \<and> (if mToken m \<noteq> [] then \<exists>k. map_of f6 (a 5) = Some (FileN k (Bytes (mToken m @ [nl])))
         else map_of f6 (a 5) = map_of f5 (a 5))"
    using t writeFile_ok by (fastforce simp: a_def split: if_splits)
  have pol: "\<forall>p. p \<noteq> a 6 \<longrightarrow> map_of fs' p = map_of f6 p"
    using q copyFile_ok by (fastforce simp: a_def split: if_splits)
  have names: "bootFile dir = a 1" "keyFile dir = a 4" "tokenFile dir = a 5"
    by (simp_all add: a_def seedFiles_def bootFile_def keyFile_def tokenFile_def numeral_eq_Suc)
  have src: "map_of fs (mKeyPath m) = Some (FileN k4 c4)"
    using k4 m4 m3 m2 m1 nk f0 by simp
  have "map_of fs' (a 1) = Some (FileN k1 (Bytes bootScript))"
    using pol tok m5 m4 m3 m2 ne by simp
  moreover have "map_of fs' (a 4) = Some (FileN mode600 c4)" using pol tok m5 ne by simp
  moreover have "map_of f5 (a 5) = map_of f0 (a 5)" using m5 m4 m3 m2 m1 ne by simp
  ultimately show ?thesis using tok pol src f0 ne [of 5 6] unfolding names by auto
qed

theorem SeedWrite_contents_witness:
  "\<exists>fs'. SeedWrite (\<lambda>_ _. True) ''/d'' \<lparr>mSupervisorPath = ''/s'', mCAPath = ''/ca'', mCertPath = ''/ce'',
       mKeyPath = ''/k'', mToken = ''jwt'', mPolicyOverlayPath = []\<rparr>
       [(''/s'', FileN 420 (Bytes ''elf'')), (''/ca'', FileN 420 (Bytes ''ca'')),
        (''/ce'', FileN 420 (Bytes ''ce'')), (''/k'', FileN 420 (Bytes ''secret''))] = (None, fs')
     \<and> map_of fs' (keyFile ''/d'') = Some (FileN mode600 (Bytes ''secret''))
     \<and> (\<exists>k. map_of fs' (tokenFile ''/d'') = Some (FileN k (Bytes (''jwt'' @ [nl]))))"
proof -
  let ?m = "\<lparr>mSupervisorPath = ''/s'', mCAPath = ''/ca'', mCertPath = ''/ce'', mKeyPath = ''/k'',
      mToken = ''jwt'', mPolicyOverlayPath = []\<rparr>"
  let ?fs = "[(''/s'', FileN 420 (Bytes ''elf'')), (''/ca'', FileN 420 (Bytes ''ca'')),
        (''/ce'', FileN 420 (Bytes ''ce'')), (''/k'', FileN 420 (Bytes ''secret''))]"
  have "fst (SeedWrite (\<lambda>_ _. True) ''/d'' ?m ?fs) = None" by code_simp
  then obtain fs' where w: "SeedWrite (\<lambda>_ _. True) ''/d'' ?m ?fs = (None, fs')"
    by (cases "SeedWrite (\<lambda>_ _. True) ''/d'' ?m ?fs") auto
  have "mKeyPath ?m \<notin> set (seedFiles ''/d'')" by code_simp
  from SeedWrite_contents [OF w this] w show ?thesis by auto
qed

lemma notRecord_seed:
  "p \<in> set (seedFiles dir) \<Longrightarrow> notRecord p"
proof -
  have "normComp ''openshell-sandbox''" "normComp ''boot.sh''" "normComp ''tls''" "normComp ''ca.crt''"
    "normComp ''tls.crt''" "normComp ''tls.key''" "normComp ''auth''" "normComp ''sandbox.jwt''"
    "normComp ''policy.yaml''"
    by (simp_all add: normComp_def)
  then show "p \<in> set (seedFiles dir) \<Longrightarrow> notRecord p"
    by (auto simp: seedFiles_def notRecord_def last_pathJoin)
qed

lemma openTrunc_records: "notRecord p \<Longrightarrow> recordsOf root (openTrunc m p fs) = recordsOf root fs"
  by (simp add: openTrunc_def update_records split: option.splits node.splits)

lemma copyFile_records:
  "notRecord dst \<Longrightarrow> recordsOf root (snd (copyFile io src dst fs)) = recordsOf root fs"
  unfolding copyFile_def Let_def
  by (simp add: openTrunc_records fsop_records split: option.split node.split del: fsExec.simps)

lemma writeFile_records:
  "notRecord p \<Longrightarrow> recordsOf root (snd (writeFile io m p b e fs)) = recordsOf root fs"
  unfolding writeFile_def by (simp add: openTrunc_records fsop_records del: fsExec.simps)

lemma seedMkdir_records: "recordsOf root (snd (seedMkdir io p fs)) = recordsOf root fs"
  unfolding seedMkdir_def by (simp add: mkdir_records del: fsExec.simps)

lemma seqFs_records:
  "(\<And>f fs. f \<in> set gs \<Longrightarrow> recordsOf root (snd (f fs)) = recordsOf root fs) \<Longrightarrow>
     recordsOf root (snd (seqFs gs fs)) = recordsOf root fs"
proof (induction gs arbitrary: fs)
  case (Cons f gs)
  obtain e fs1 where f: "f fs = (e, fs1)" by (cases "f fs")
  have "recordsOf root fs1 = recordsOf root fs" using Cons.prems [of f fs] f by simp
  with f Cons show ?case by (cases e) (simp_all add: thenFs_def)
qed simp

lemma SeedWrite_records: "recordsOf root (snd (SeedWrite io dir m fs)) = recordsOf root fs"
proof -
  have n: "notRecord (pathJoin [dir, ''openshell-sandbox''])" "notRecord (pathJoin [dir, ''boot.sh''])"
    "notRecord (pathJoin [dir, ''tls'', ''ca.crt''])" "notRecord (pathJoin [dir, ''tls'', ''tls.crt''])"
    "notRecord (pathJoin [dir, ''tls'', ''tls.key''])" "notRecord (pathJoin [dir, ''auth'', ''sandbox.jwt''])"
    "notRecord (pathJoin [dir, ''policy.yaml''])"
    by (rule notRecord_seed [of _ dir], simp add: seedFiles_def)+
  show ?thesis
    unfolding SeedWrite_def
    by (rule seqFs_records)
      (auto simp: seedSteps_def copyFile_records writeFile_records seedMkdir_records n split: if_splits)
qed

lemma binPath_notRecord: "notRecord (binPath cache img digest)"
proof -
  have "normComp ''openshell-sandbox''" by (simp add: normComp_def)
  moreover have "binPath cache img digest
      = pathJoin [joinWith ''/'' (filter (\<lambda>e. e \<noteq> []) [cache, sanitizeRef img @ ''-'' @ shortDigest digest]),
                  ''openshell-sandbox'']"
    by (simp add: binPath_def pathJoin_def)
  ultimately show ?thesis by (simp add: notRecord_def last_pathJoin)
qed

lemma tmpPath_notRecord: "notRecord (bin @ ''.partial-'' @ extractUniq ex digest seq)"
proof -
  have "last (natString seq) \<noteq> CHR ''n''"
  proof
    assume "last (natString seq) = CHR ''n''"
    moreover have "isDigit (last (natString seq))"
      using isDigit_natString [of seq] by (simp add: list_all_iff)
    ultimately show False by (simp add: isDigit_def)
  qed
  then show ?thesis by (simp add: notRecord_def extractUniq_def)
qed

lemma persistBinary_records:
  "notRecord tmp \<Longrightarrow> notRecord bin \<Longrightarrow>
     recordsOf root (snd (persistBinary io tmp bin fs)) = recordsOf root fs"
  unfolding persistBinary_def
  by (simp add: fsop_records split: option.split del: fsExec.simps)

lemma extractLocked_records:
  "recordsOf root (snd (snd (extractLocked rt io ex seq ctx img digest (w, fs)))) = recordsOf root fs"
proof -
  define bin where "bin = binPath (exCacheDir ex) img digest"
  define name where "name = ''oshl-extract-'' @ extractUniq ex digest seq"
  define tmp where "tmp = bin @ ''.partial-'' @ extractUniq ex digest seq"
  define fs1 where "fs1 = fsExec (MkdirAllOp mode700 (pathDir bin)) fs"
  have n: "notRecord bin" "notRecord tmp"
    unfolding tmp_def bin_def by (rule binPath_notRecord, rule tmpPath_notRecord)
  have f1: "recordsOf root fs1 = recordsOf root fs" by (simp only: fs1_def mkdir_records)
  have p: "recordsOf root (snd (persistBinary io tmp bin (AList.update tmp (FileN mode600 (Bytes b)) fs1)))
             = recordsOf root fs" for b
    by (simp only: persistBinary_records [OF n(2,1)] update_records [OF n(2)] f1)
  obtain rr w1 where run: "rtRun rt ctx (extractSpec ex img name) w = (rr, w1)" by fastforce
  obtain rc w2 where cp: "rtCopyFrom rt ctx name SupervisorImagePath tmp w1 = (rc, w2)" by fastforce
  have "extractLocked rt io ex seq ctx img digest (w, fs) =
     (if map_of fs bin \<noteq> None then (Inr bin, w, fs)
      else if \<not> (io IoMkdir (pathDir bin) \<and> canMkdir (pathDir bin) fs)
      then (Inl (errorf ''seed: create cache dir: %w'' []), w, fs)
      else (case rr of
              Inl e \<Rightarrow> (Inl (Wrap ''seed: start extraction container: %w'' [] e), w1, fs1)
            | Inr _ \<Rightarrow>
               (case rc of
                  Inl e \<Rightarrow> (Inl (Wrap ''seed: copy supervisor from image: %w'' [] e),
                            snd (rtDelete rt False name w2), fs1)
                | Inr b \<Rightarrow>
                    (let (r, fs2) = persistBinary io tmp bin
                           (AList.update tmp (FileN mode600 (Bytes b)) fs1)
                     in (r, snd (rtDelete rt False name w2), fs2)))))"
    unfolding extractLocked_def prod.case Let_def bin_def [symmetric] name_def [symmetric]
      tmp_def [symmetric] fs1_def [symmetric] run cp
    by (cases rr; cases rc) (simp_all split: prod.split)
  then show ?thesis
    using p f1 by (cases rr; cases rc) (simp_all add: Let_def split: prod.split, metis snd_conv)
qed

lemma Ensure_records:
  "recordsOf root (snd (snd (Ensure rt io ex seq ctx img (w, fs)))) = recordsOf root fs"
  by (auto simp: Ensure_def extractLocked_records split: prod.split sum.split)

end
