(* ===== verification/JsonRoundtrip.thy ===== *)
theory JsonRoundtrip
  imports Json
begin

section \<open>What the JSON encoder writes, the decoder reads\<close>

text \<open>
  The encoder of theory \<open>Json\<close>, compact or indented, against its lexer and stack machine:
  each string, number, list and object is read back from wherever it stands in a text, so a
  whole tree is. The type-directed decoder comes in with the listings (theory \<open>Backend\<close>).
\<close>

subsection \<open>Strings\<close>

lemma unquote_end [simp]: "unquote (CHR 0x22 # rest) = Some ([], rest)"
  by (simp add: unquote.simps)

lemma unquote_escape:
  "strEscape s = Some (t, r) \<Longrightarrow> unquote (CHR 0x5C # s) = map_option (apfst ((@) t)) (unquote r)"
  by (simp add: unquote.simps(2))

lemma hexNibble_hexDigit: "n < 16 \<Longrightarrow> hexNibble (hexDigit n) = Some n"
  by (auto simp: hexNibble_def hexDigit_def digitChar_def isDigit_def Let_def)

lemma strEscape_u: "strEscape (CHR ''u'' # s) = uEscape s"
  by (simp add: strEscape_def)

lemma uEscape_plain: "hex4 s = Some (n, r) \<Longrightarrow> n < 0xD800 \<or> 0xE000 \<le> n \<Longrightarrow> uEscape s = Some (encodeRune n, r)"
  by (auto simp: uEscape_def)

lemma strEscape_control:
  "n < 0x80 \<Longrightarrow> strEscape (CHR ''u'' # CHR ''0'' # CHR ''0'' # hexDigit (n div 16) # hexDigit (n mod 16) # r)
     = Some ([char_of n], r)"
proof -
  assume "n < 0x80"
  then have "n div 16 < 16" "n mod 16 < 16" by simp_all
  moreover have "hexNibble (CHR ''0'') = Some 0" by code_simp
  ultimately show ?thesis using \<open>n < 0x80\<close>
    by (simp add: strEscape_def uEscape_def hexNibble_hexDigit encodeRune_def)
qed

lemma strEscape_unicode:
  "strEscape (''ufffd'' @ r) = Some (replacementRune, r)"
  "strEscape (''u2028'' @ r) = Some ([CHR 0xE2, CHR 0x80, CHR 0xA8], r)"
  "strEscape (''u2029'' @ r) = Some ([CHR 0xE2, CHR 0x80, CHR 0xA9], r)"
proof -
  have e: "encodeRune 0xFFFD = replacementRune" "encodeRune 0x2028 = [CHR 0xE2, CHR 0x80, CHR 0xA8]"
    "encodeRune 0x2029 = [CHR 0xE2, CHR 0x80, CHR 0xA9]"
    by (simp_all add: encodeRune_def replacementRune_def char_of_eq_iff take_bit_eq_mod)
  have v: "hexNibble (CHR ''f'') = Some 15" "hexNibble (CHR ''d'') = Some 13" "hexNibble (CHR ''2'') = Some 2"
    "hexNibble (CHR ''0'') = Some 0" "hexNibble (CHR ''8'') = Some 8" "hexNibble (CHR ''9'') = Some 9" by code_simp+
  have h: "hex4 (''fffd'' @ r) = Some (0xFFFD, r)" "hex4 (''2028'' @ r) = Some (0x2028, r)"
    "hex4 (''2029'' @ r) = Some (0x2029, r)"
    by (simp_all add: v)
  show "strEscape (''ufffd'' @ r) = Some (replacementRune, r)"
    "strEscape (''u2028'' @ r) = Some ([CHR 0xE2, CHR 0x80, CHR 0xA8], r)"
    "strEscape (''u2029'' @ r) = Some ([CHR 0xE2, CHR 0x80, CHR 0xA9], r)"
    unfolding append.simps strEscape_u
    by (rule uEscape_plain [OF h(1), unfolded e append.simps], simp,
        rule uEscape_plain [OF h(2), unfolded e append.simps], simp,
        rule uEscape_plain [OF h(3), unfolded e append.simps], simp)
qed

text \<open>One rune: the encoder's bytes decode to the rune.\<close>

lemma unquote_ascii:
  assumes "byteOf c < 0x80"
  shows "unquote (jsonRune [c] @ rest) = map_option (apfst ((@) [c])) (unquote rest)"
proof -
  consider (esc) "c \<in> {CHR 0x22, CHR 0x5C, CHR 0x08, CHR 0x0C, CHR 0x0A, CHR 0x0D, CHR 0x09}"
    | (hex) "c \<notin> {CHR 0x22, CHR 0x5C, CHR 0x08, CHR 0x0C, CHR 0x0A, CHR 0x0D, CHR 0x09}"
        "byteOf c < 0x20 \<or> c \<in> set ''<>&''"
    | (plain) "c \<notin> {CHR 0x22, CHR 0x5C, CHR 0x08, CHR 0x0C, CHR 0x0A, CHR 0x0D, CHR 0x09}"
        "\<not> (byteOf c < 0x20 \<or> c \<in> set ''<>&'')"
    by blast
  then show ?thesis
  proof cases
    case esc
    then obtain e where "jsonRune [c] = [CHR 0x5C, e]" "\<And>r. strEscape (e # r) = Some ([c], r)"
      by (auto simp: jsonRune_def strEscape_def)
    then show ?thesis by (simp add: unquote_escape)
  next
    case hex
    then have j: "jsonRune [c] = [CHR 0x5C] @ ''u00'' @ [hexDigit (byteOf c div 16), hexDigit (byteOf c mod 16)]"
      by (simp add: jsonRune_def)
    have "strEscape (''u00'' @ [hexDigit (byteOf c div 16), hexDigit (byteOf c mod 16)] @ rest) = Some ([c], rest)"
      using strEscape_control [OF assms, of rest] by simp
    then show ?thesis using unquote_escape by (simp add: j)
  next
    case plain
    then have "jsonRune [c] = [c]" by (simp add: jsonRune_def)
    then show ?thesis using assms plain by (simp add: unquote.simps(2) seqLength_def)
  qed
qed

lemma unquote_rune:
  assumes n: "seqLength s = n" "n \<noteq> 0" and r: "r = take n s"
  shows "unquote ((if r = replacementRune then r else jsonRune r) @ rest) = map_option (apfst ((@) r)) (unquote rest)"
proof (cases "n = 1")
  case True
  from n(1,2) obtain c s' where "s = c # s'" "byteOf c < 0x80" by (rule seqLength_cases) (use True in auto)
  then show ?thesis using unquote_ascii [of c rest] True by (simp add: r replacementRune_def)
next
  case False
  from n(1,2) obtain a x t where a: "r = a # x # t" "0x80 \<le> byteOf a"
    by (rule seqLength_cases) (use False r in \<open>auto simp: numeral_2_eq_2 numeral_3_eq_3 eval_nat_numeral\<close>)
  have raw: "unquote (r @ rest) = map_option (apfst ((@) r)) (unquote rest)"
  proof -
    have "seqLength (r @ rest) = n" "length r = n" using seqLength_take [OF n, of rest] by (simp_all add: r)
    moreover have "a \<noteq> CHR 0x22" "a \<noteq> CHR 0x5C" using a(2) by auto
    moreover have "\<not> byteOf a < 0x20" using a(2) by simp
    ultimately have "unquote (r @ rest) = map_option (apfst ((@) (take n (r @ rest)))) (unquote (drop n (r @ rest)))"
      using n(2) unquote.simps(2) [of a "x # t @ rest"] unfolding a(1) by simp
    then show ?thesis using \<open>length r = n\<close> by simp
  qed
  consider "r = replacementRune \<or> jsonRune r = r" | "r \<noteq> replacementRune" "r = [CHR 0xE2, CHR 0x80, CHR 0xA8]"
    | "r \<noteq> replacementRune" "r = [CHR 0xE2, CHR 0x80, CHR 0xA9]"
    unfolding a(1) jsonRune_def by (simp only: list.case) metis
  then show ?thesis
  proof cases
    case 1
    then show ?thesis using raw by auto
  next
    case 2
    then show ?thesis using unquote_escape [OF strEscape_unicode(2)] by (simp add: jsonRune_def)
  next
    case 3
    then show ?thesis using unquote_escape [OF strEscape_unicode(3)] by (simp add: jsonRune_def)
  qed
qed

lemma unquote_jsonChars: "unquote (jsonChars s @ CHR 0x22 # rest) = Some (validUTF8 s, rest)"
proof (induction s rule: jsonChars.induct)
  case (2 c s)
  let ?n = "seqLength (c # s)"
  show ?case
  proof (cases "?n = 0")
    case True
    then show ?thesis
      using unquote_escape [OF strEscape_unicode(1)] "2.IH"(1) by (simp add: validUTF8_def runes.simps(2) [of c s])
  next
    case False
    then show ?thesis
      using unquote_rune [OF refl False refl] "2.IH"(2) [OF False refl]
      by (simp add: validUTF8_def runes.simps(2) [of c s] Let_def)
  qed
qed (simp add: validUTF8_def)

lemma lexTokens_string:
  "lexTokens (jsonString s @ rest) = map_option ((#) (TVal (JStr (validUTF8 s)))) (lexTokens rest)"
  using unquote_jsonChars [of s rest]
  by (simp add: jsonString_def lexTokens.simps(2) isJsonSpace_def lexOne_def)

subsection \<open>Numbers\<close>

text \<open>What may follow a number for it to end there.\<close>

definition numEnd :: "string \<Rightarrow> bool" where
  "numEnd rest \<longleftrightarrow> (case rest of [] \<Rightarrow> True | c # _ \<Rightarrow> c \<in> {CHR '','', CHR '']'', CHR ''}''} \<or> isJsonSpace c)"

lemma numEnd_simps [simp]:
  "numEnd []" "numEnd (CHR '','' # s)" "numEnd (CHR '']'' # s)" "numEnd (CHR ''}'' # s)"
  "isJsonSpace c \<Longrightarrow> numEnd (c # s)"
  by (simp_all add: numEnd_def)

lemma numEnd_head: "numEnd (c # s) \<Longrightarrow> \<not> isDigit c \<and> c \<noteq> CHR ''.'' \<and> c \<noteq> CHR ''e'' \<and> c \<noteq> CHR ''E''"
  by (auto simp: numEnd_def isJsonSpace_def isDigit_def)

lemma numDigits_append:
  "numDigits s = Some (a, r) \<Longrightarrow> numEnd rest \<Longrightarrow> numDigits (s @ rest) = Some (a, r @ rest)"
proof -
  assume n: "numDigits s = Some (a, r)" and e: "numEnd rest"
  have "takeWhile isDigit (s @ rest) = takeWhile isDigit s" "dropWhile isDigit (s @ rest) = dropWhile isDigit s @ rest"
    using numEnd_head e by (induction s; cases rest; auto)+
  with n show ?thesis by (auto simp: numDigits_def split: if_splits)
qed

lemma numInt_append: "numInt s = Some (a, r) \<Longrightarrow> numEnd rest \<Longrightarrow> numInt (s @ rest) = Some (a, r @ rest)"
  using numDigits_append [of s a r rest] by (cases s) (auto simp: numInt_def split: if_splits)

lemma numFrac_append: "numFrac s = Some (a, r) \<Longrightarrow> numEnd rest \<Longrightarrow> numFrac (s @ rest) = Some (a, r @ rest)"
  using numEnd_head numDigits_append [of "tl s"]
  by (cases s; cases rest) (auto simp: numFrac_def split: if_splits)

lemma numSign_append: "s \<noteq> [] \<Longrightarrow> numSign signs s = (a, r) \<Longrightarrow> numSign signs (s @ rest) = (a, r @ rest)"
  by (cases s) (auto simp: numSign_def split: if_splits)

lemma numExp_append: "numExp s = Some (a, r) \<Longrightarrow> numEnd rest \<Longrightarrow> numExp (s @ rest) = Some (a, r @ rest)"
proof (cases s)
  case Nil
  assume "numExp s = Some (a, r)" "numEnd rest"
  then show ?thesis using Nil numEnd_head by (cases rest) (auto simp: numExp_def)
next
  case (Cons c t)
  assume n: "numExp s = Some (a, r)" and e: "numEnd rest"
  show ?thesis
  proof (cases "c = CHR ''e'' \<or> c = CHR ''E''")
    case True
    obtain sg u where u: "numSign ''+-'' t = (sg, u)" by fastforce
    with n True Cons obtain ds where d: "numDigits u = Some (ds, r)" "a = c # sg @ ds" by (auto simp: numExp_def)
    then have "t \<noteq> []" using u by (auto simp: numSign_def numDigits_def)
    from numSign_append [OF this u] numDigits_append [OF d(1) e] show ?thesis
      using True d(2) by (auto simp: numExp_def Cons)
  next
    case False
    with n Cons show ?thesis by (auto simp: numExp_def)
  qed
qed

lemma lexNumber_append:
  assumes n: "lexNumber s = Some (a, r)" and e: "numEnd rest"
  shows "lexNumber (s @ rest) = Some (a, r @ rest)"
proof -
  obtain sg s1 i s2 f s3 x where p: "numSign ''-'' s = (sg, s1)" "numInt s1 = Some (i, s2)" "numFrac s2 = Some (f, s3)"
    "numExp s3 = Some (x, r)" "a = sg @ i @ f @ x"
    using n by (auto simp: lexNumber_def split: prod.splits option.splits)
  then have "s \<noteq> []" by (auto simp: numSign_def numInt_def)
  from numSign_append [OF this p(1)] numInt_append [OF p(2) e] numFrac_append [OF p(3) e] numExp_append [OF p(4) e] p(5)
  show ?thesis by (simp add: lexNumber_def)
qed

text \<open>A literal of the grammar, and that the decimal integers are some.\<close>

definition isNumber :: "string \<Rightarrow> bool" where
  "isNumber n \<longleftrightarrow> lexNumber n = Some (n, [])"

lemma numInt_head: "numInt s = Some (i, r) \<Longrightarrow> \<exists>c t. i = c # t \<and> isDigit c"
proof (cases s)
  case (Cons c t)
  assume n: "numInt s = Some (i, r)"
  show ?thesis
  proof (cases "c = CHR ''0''")
    case True
    with n Cons have "i = [CHR ''0'']" by (simp add: numInt_def)
    moreover have "isDigit (CHR ''0'')" by code_simp
    ultimately show ?thesis by blast
  next
    case False
    with n Cons have "numDigits (c # t) = Some (i, r)" by (simp add: numInt_def)
    then show ?thesis by (cases "isDigit c") (simp_all add: numDigits_def, metis)
  qed
qed (simp add: numInt_def)

lemma isNumber_head:
  assumes "isNumber n"
  shows "\<exists>c s. n = c # s \<and> (c = CHR ''-'' \<or> isDigit c)"
proof -
  obtain sg s1 i s2 x where p: "numSign ''-'' n = (sg, s1)" "numInt s1 = Some (i, s2)" "n = sg @ i @ x"
    using assms unfolding isNumber_def lexNumber_def by (auto split: prod.splits option.splits)
  moreover have "sg = [] \<or> sg = ''-''" using p(1) by (auto simp: numSign_def split: list.splits if_splits)
  ultimately show ?thesis using numInt_head [OF p(2)] by auto
qed

lemma lexTokens_number:
  assumes "isNumber n" and "numEnd rest"
  shows "lexTokens (n @ rest) = map_option ((#) (TVal (JNum n))) (lexTokens rest)"
proof -
  obtain c s where n: "n = c # s" "c = CHR ''-'' \<or> isDigit c" using isNumber_head [OF assms(1)] by blast
  then have "c \<notin> {CHR ''{'', CHR ''}'', CHR ''['', CHR '']'', CHR '','', CHR '':'', CHR 0x22, CHR ''t'', CHR ''f'', CHR ''n'',
      CHR 0x20, CHR 0x09, CHR 0x0A, CHR 0x0D}"
    by (cases "c = CHR ''-''") (auto simp: isDigit_def)
  then have "lexOne c (s @ rest) = map_option (apfst (\<lambda>t. TVal (JNum t))) (lexNumber (c # s @ rest))" "\<not> isJsonSpace c"
    by (simp_all add: lexOne_def isJsonSpace_def)
  moreover have "lexNumber (c # s @ rest) = Some (n, rest)"
    using lexNumber_append [of n n "[]" rest] assms n(1) by (simp add: isNumber_def)
  ultimately show ?thesis by (simp add: n(1) lexTokens.simps(2))
qed

lemma natString_zero_head: "natString n = CHR ''0'' # s \<Longrightarrow> n = 0 \<and> s = []"
proof (induction n arbitrary: s rule: natString.induct)
  case (1 n)
  show ?case
  proof (cases "n < 10")
    case True
    with 1 show ?thesis by (simp add: natString.simps [of n] digitChar_def char_of_eq_iff take_bit_eq_mod)
  next
    case False
    then obtain t where "natString (n div 10) = CHR ''0'' # t"
      using "1.prems" by (cases "natString (n div 10)") (auto simp: natString.simps [of n])
    with "1.IH" [OF False] False show ?thesis by auto
  qed
qed

lemma isNumber_natString: "isNumber (natString n)" "isNumber (CHR ''-'' # natString n)"
proof -
  have d: "list_all isDigit (natString n)" by (rule isDigit_natString)
  then have t: "takeWhile isDigit (natString n) = natString n" "dropWhile isDigit (natString n) = []"
    by (simp_all add: takeWhile_eq_all_conv list_all_iff)
  obtain c s where cs: "natString n = c # s" by (cases "natString n") auto
  have i: "numInt (natString n) = Some (natString n, [])"
  proof (cases "c = CHR ''0''")
    case True
    with natString_zero_head [of n s] cs show ?thesis by (simp add: numInt_def)
  next
    case False
    then have "numInt (natString n) = numDigits (natString n)" by (simp add: numInt_def cs)
    then show ?thesis by (simp add: numDigits_def t)
  qed
  have "c \<noteq> CHR ''-''" using d cs by (auto simp: isDigit_def)
  with i show "isNumber (natString n)" "isNumber (CHR ''-'' # natString n)"
    by (simp_all add: isNumber_def lexNumber_def numSign_def numFrac_def numExp_def cs)
qed

lemma isNumber_intString: "isNumber (intString i)"
  by (simp add: intString_def isNumber_natString)

subsection \<open>The tokens of a text\<close>

lemma lexTokens_space [simp]: "list_all isJsonSpace w \<Longrightarrow> lexTokens (w @ rest) = lexTokens rest"
  by (induction w) (simp_all add: lexTokens.simps(2))

lemma lexTokens_punct [simp]:
  "lexTokens (CHR ''{'' # s) = map_option ((#) TLBrace) (lexTokens s)"
  "lexTokens (CHR ''}'' # s) = map_option ((#) TRBrace) (lexTokens s)"
  "lexTokens (CHR ''['' # s) = map_option ((#) TLBrack) (lexTokens s)"
  "lexTokens (CHR '']'' # s) = map_option ((#) TRBrack) (lexTokens s)"
  "lexTokens (CHR '','' # s) = map_option ((#) TComma) (lexTokens s)"
  "lexTokens (CHR '':'' # s) = map_option ((#) TColon) (lexTokens s)"
  by (simp_all add: lexTokens.simps(2) isJsonSpace_def lexOne_def)

lemma lexTokens_words:
  "lexTokens (''null'' @ s) = map_option ((#) (TVal JNull)) (lexTokens s)"
  "lexTokens (''true'' @ s) = map_option ((#) (TVal (JBool True))) (lexTokens s)"
  "lexTokens (''false'' @ s) = map_option ((#) (TVal (JBool False))) (lexTokens s)"
  by (simp_all add: lexTokens.simps(2) isJsonSpace_def lexOne_def lexWord_def)

fun sepTokens :: "token list list \<Rightarrow> token list" where
  "sepTokens [] = []"
| "sepTokens [ts] = ts"
| "sepTokens (ts # us # r) = ts @ TComma # sepTokens (us # r)"

fun tokensOf :: "JValue \<Rightarrow> token list" where
  "tokensOf (JList vs) = TLBrack # sepTokens (map tokensOf vs) @ [TRBrack]"
| "tokensOf (JObj fs) =
     TLBrace # sepTokens (map (\<lambda>(k, v). TVal (JStr k) # TColon # tokensOf v) fs) @ [TRBrace]"
| "tokensOf v = [TVal v]"

text \<open>A tree the encoder can write, and the tree it means: its strings as text.\<close>

fun encodable :: "JValue \<Rightarrow> bool" where
  "encodable (JNum n) = isNumber n"
| "encodable (JList vs) = list_all encodable vs"
| "encodable (JObj fs) = list_all (\<lambda>(k, v). encodable v) fs"
| "encodable JInvalid = False"
| "encodable v = True"

fun asText :: "JValue \<Rightarrow> JValue" where
  "asText (JStr s) = JStr (validUTF8 s)"
| "asText (JList vs) = JList (map asText vs)"
| "asText (JObj fs) = JObj (map (\<lambda>(k, v). (validUTF8 k, asText v)) fs)"
| "asText v = v"

lemma append_fun [simp]: "(@) (x # xs) = (\<lambda>ys. x # xs @ ys)"
  by (simp add: fun_eq_iff)

text \<open>A text that lexes to some tokens wherever it stands, up to the end of a number.\<close>

definition lexesTo :: "string \<Rightarrow> token list \<Rightarrow> bool" where
  "lexesTo w ts \<longleftrightarrow> (\<forall>rest. numEnd rest \<longrightarrow> lexTokens (w @ rest) = map_option ((@) ts) (lexTokens rest))"

lemma lexesToD: "lexesTo w ts \<Longrightarrow> numEnd rest \<Longrightarrow> lexTokens (w @ rest) = map_option ((@) ts) (lexTokens rest)"
  by (simp add: lexesTo_def)

lemma numEnd_space: "list_all isJsonSpace b \<Longrightarrow> numEnd rest \<Longrightarrow> numEnd (b @ rest)"
  by (cases b) simp_all

lemma lex_joined:
  assumes "list_all2 lexesTo ws tss" and b: "list_all isJsonSpace b" and e: "numEnd rest"
  shows "lexTokens (joinWith ('','' @ b) ws @ rest) = map_option ((@) (sepTokens tss)) (lexTokens rest)"
  using assms(1)
proof (induction ws tss rule: list_all2_induct)
  case Nil
  show ?case by (simp add: option.map_ident)
next
  case (Cons w ws ts tss)
  show ?case
  proof (cases ws)
    case Nil
    with Cons show ?thesis by (simp add: lexesToD [OF _ e])
  next
    case (Cons w' ws')
    then obtain ts' tss' where t: "tss = ts' # tss'" using Cons.hyps by (cases tss) auto
    have "lexTokens (w @ ('','' @ b) @ joinWith ('','' @ b) ws @ rest)
        = map_option ((@) ts) (lexTokens (('','' @ b) @ joinWith ('','' @ b) ws @ rest))"
      using Cons.hyps(1) by (intro lexesToD) simp_all
    also have "lexTokens (('','' @ b) @ joinWith ('','' @ b) ws @ rest)
        = map_option ((@) (TComma # sepTokens tss)) (lexTokens rest)"
      using Cons.IH b by (simp add: option.map_comp comp_def)
    finally show ?thesis using Cons t by (simp add: option.map_comp comp_def)
  qed
qed

text \<open>A bracketed, comma-separated list with its breaks.\<close>

lemma lex_bracketed:
  assumes "list_all2 lexesTo ws tss" and "list_all isJsonSpace b" and "list_all isJsonSpace b'"
    and l: "\<And>s. lexTokens (l # s) = map_option ((#) tl') (lexTokens s)"
    and r: "\<And>s. lexTokens (r # s) = map_option ((#) tr) (lexTokens s)" and "numEnd [r]"
  shows "lexesTo ([l] @ b @ joinWith ('','' @ b) ws @ b' @ [r]) (tl' # sepTokens tss @ [tr])"
  unfolding lexesTo_def
proof (intro allI impI)
  fix rest
  have "numEnd (b' @ r # rest)"
    using assms(3,6) by (intro numEnd_space) (auto simp: numEnd_def)
  from lex_joined [OF assms(1,2) this]
  show "lexTokens (([l] @ b @ joinWith ('','' @ b) ws @ b' @ [r]) @ rest)
      = map_option ((@) (tl' # sepTokens tss @ [tr])) (lexTokens rest)"
    using assms(2,3) by (simp add: l r option.map_comp comp_def)
qed

lemma encodeWith_lexes:
  assumes br: "\<And>d. list_all isJsonSpace (br d)" and colon: "colon = '':'' @ gap" "list_all isJsonSpace gap"
  shows "encodable v \<Longrightarrow> lexesTo (encodeWith br colon d v) (tokensOf (asText v))"
proof (induction v arbitrary: d rule: encodable.induct)
  case (1 n)
  then show ?case by (simp add: lexesTo_def lexTokens_number)
next
  case (2 vs)
  show ?case
  proof (cases "vs = []")
    case True
    then show ?thesis by (simp add: lexesTo_def option.map_comp comp_def)
  next
    case False
    have "list_all2 lexesTo (map (encodeWith br colon (Suc d)) vs) (map (\<lambda>v. tokensOf (asText v)) vs)"
      using 2 by (auto simp: list_all2_map1 list_all2_map2 list_all2_same list_all_iff)
    from lex_bracketed [OF this br br lexTokens_punct(3,4)] False show ?thesis by (simp add: comp_def)
  qed
next
  case (3 fs)
  show ?case
  proof (cases "fs = []")
    case True
    then show ?thesis by (simp add: lexesTo_def option.map_comp comp_def)
  next
    case False
    let ?w = "\<lambda>(k, v). jsonString k @ colon @ encodeWith br colon (Suc d) v"
    let ?t = "\<lambda>(k, v). TVal (JStr (validUTF8 k)) # TColon # tokensOf (asText v)"
    have "lexesTo (?w p) (?t p)" if "p \<in> set fs" for p
    proof -
      obtain k v where p: "p = (k, v)" by fastforce
      have "lexesTo (encodeWith br colon (Suc d) v) (tokensOf (asText v))"
        using 3 that p by (auto simp: list_all_iff)
      then show ?thesis using colon
        by (simp add: p lexesTo_def lexTokens_string option.map_comp comp_def)
    qed
    then have "list_all2 lexesTo (map ?w fs) (map ?t fs)"
      by (simp add: list_all2_map1 list_all2_map2 list_all2_same)
    from lex_bracketed [OF this br br lexTokens_punct(1,2)] False
    show ?thesis by (simp add: comp_def case_prod_unfold)
  qed
qed (simp_all add: lexesTo_def lexTokens_string lexTokens_words [simplified])

declare append_fun [simp del]

subsection \<open>The stack machine\<close>

fun jsonDepth :: "JValue \<Rightarrow> nat" where
  "jsonDepth (JList vs) = Suc (fold max (map jsonDepth vs) 0)"
| "jsonDepth (JObj fs) = Suc (fold max (map (\<lambda>(k, v). jsonDepth v) fs) 0)"
| "jsonDepth v = 0"

lemma fold_max_ge: "x \<in> set xs \<or> x \<le> m \<Longrightarrow> x \<le> fold max xs (m::nat)"
  by (induction xs arbitrary: m) (auto simp: le_max_iff_disj)

lemma runTokens_append:
  "runTokens p ts = Some p' \<Longrightarrow> runTokens p (ts @ us) = runTokens p' us"
  by (induction ts arbitrary: p) (auto split: option.splits)

text \<open>The elements of an array, then its end; the members of an object, then its end.\<close>

lemma run_elems:
  assumes "vs \<noteq> []" and "\<And>v us. v \<in> set vs \<Longrightarrow> runTokens (PValue (FArr us # fr)) (tokensOf v) = Some (PAfter (FArr (us @ [v]) # fr))"
  shows "runTokens (PValue (FArr us # fr)) (sepTokens (map tokensOf vs) @ [TRBrack]) = Some (putValue (JList (us @ vs)) fr)"
  using assms
proof (induction vs arbitrary: us)
  case (Cons v vs)
  have v: "runTokens (PValue (FArr us # fr)) (tokensOf v @ ts) = runTokens (PAfter (FArr (us @ [v]) # fr)) ts" for ts
    using Cons.prems(2) by (intro runTokens_append) simp
  show ?case
  proof (cases vs)
    case Nil
    then show ?thesis by (simp add: v)
  next
    case (Cons w ws)
    then show ?thesis using Cons.IH [of "us @ [v]"] Cons.prems(2) by (simp add: v)
  qed
qed simp

lemma run_members:
  assumes "fs \<noteq> []"
    and "\<And>k v us. (k, v) \<in> set fs \<Longrightarrow> runTokens (PValue (FMem us k # fr)) (tokensOf v) = Some (PAfter (FObj (us @ [(k, v)]) # fr))"
  shows "runTokens (PKey (FObj us # fr) e) (sepTokens (map (\<lambda>(k, v). TVal (JStr k) # TColon # tokensOf v) fs) @ [TRBrace])
    = Some (putValue (JObj (us @ fs)) fr)"
  using assms
proof (induction fs arbitrary: us e)
  case (Cons p fs)
  obtain k v where p: "p = (k, v)" by fastforce
  have v: "runTokens (PValue (FMem us k # fr)) (tokensOf v @ ts) = runTokens (PAfter (FObj (us @ [(k, v)]) # fr)) ts" for ts
    using Cons.prems(2) p by (intro runTokens_append) simp
  show ?case
  proof (cases fs)
    case Nil
    then show ?thesis by (simp add: p v)
  next
    case (Cons q qs)
    then show ?thesis using Cons.IH [of "us @ [(k, v)]" False] Cons.prems(2) by (simp add: p v case_prod_unfold)
  qed
qed simp

lemma stepToken_first: "t \<noteq> TRBrack \<Longrightarrow> stepToken (PFirst fr) t = stepValue fr t"
  by (cases "(PFirst fr, t)" rule: stepToken.cases) auto

lemma tokensOf_first: "runTokens (PFirst fr) (tokensOf v @ ts) = runTokens (PValue fr) (tokensOf v @ ts)"
proof -
  obtain t us where "tokensOf v = t # us" "t \<noteq> TRBrack" by (cases v) auto
  then show ?thesis by (simp add: stepToken_first)
qed

lemma run_value:
  "encodable v \<Longrightarrow> jsonDepth v + length fr \<le> maxNestingDepth \<Longrightarrow> runTokens (PValue fr) (tokensOf v) = Some (putValue v fr)"
proof (induction v arbitrary: fr rule: encodable.induct)
  case (2 vs)
  have d: "length fr < maxNestingDepth" using 2(3) by simp
  have run: "runTokens (PValue (FArr us # fr)) (tokensOf v) = Some (PAfter (FArr (us @ [v]) # fr))" if "v \<in> set vs" for v us
  proof -
    have "jsonDepth v \<le> fold max (map jsonDepth vs) 0" using that by (intro fold_max_ge) simp
    then show ?thesis using 2 that by (simp add: list_all_iff)
  qed
  show ?case
  proof (cases vs)
    case Nil
    then show ?thesis using d by (simp add: stepValue_def openFrame_def)
  next
    case (Cons w ws)
    have "runTokens (PFirst (FArr [] # fr)) (sepTokens (map tokensOf vs) @ [TRBrack])
        = runTokens (PValue (FArr [] # fr)) (sepTokens (map tokensOf vs) @ [TRBrack])"
      using tokensOf_first by (cases ws) (simp_all add: Cons)
    also have "\<dots> = Some (putValue (JList vs) fr)" using run_elems [of vs fr "[]"] run Cons by simp
    finally show ?thesis using d by (simp add: stepValue_def openFrame_def)
  qed
next
  case (3 fs)
  have d: "length fr < maxNestingDepth" using 3(3) by simp
  have run: "runTokens (PValue (FMem us k # fr)) (tokensOf v) = Some (PAfter (FObj (us @ [(k, v)]) # fr))"
    if "(k, v) \<in> set fs" for k v us
  proof -
    have "jsonDepth v \<le> fold max (map (\<lambda>(k, v). jsonDepth v) fs) 0" using that by (intro fold_max_ge) force
    then show ?thesis using 3 that by (fastforce simp: list_all_iff)
  qed
  show ?case
  proof (cases fs)
    case Nil
    then show ?thesis using d by (simp add: stepValue_def openFrame_def)
  next
    case (Cons w ws)
    then show ?thesis using run_members [of fs fr "[]" True] run d by (simp add: stepValue_def openFrame_def)
  qed
qed (simp_all add: stepValue_def)

subsection \<open>The round trip\<close>

lemma encodable_asText: "encodable (asText v) = encodable v"
proof (induction v rule: encodable.induct)
  case (2 vs)
  then show ?case by (auto simp: list_all_iff)
next
  case (3 fs)
  then show ?case by (fastforce simp: list_all_iff)
qed simp_all

lemma jsonDepth_asText: "jsonDepth (asText v) = jsonDepth v"
proof (induction v rule: encodable.induct)
  case (2 vs)
  then have "map (jsonDepth \<circ> asText) vs = map jsonDepth vs" by simp
  then show ?case by (simp only: asText.simps jsonDepth.simps map_map)
next
  case (3 fs)
  then have "map ((\<lambda>(k, v). jsonDepth v) \<circ> (\<lambda>(k, v). (validUTF8 k, asText v))) fs = map (\<lambda>(k, v). jsonDepth v) fs" by auto
  then show ?case by (simp only: asText.simps jsonDepth.simps map_map)
qed simp_all

lemma parse_encodeWith:
  assumes "encodable v" and "jsonDepth v \<le> maxNestingDepth"
    and br: "\<And>d. list_all isJsonSpace (br d)" and colon: "colon = '':'' @ gap" "list_all isJsonSpace gap"
    and w: "list_all isJsonSpace w"
  shows "parseJSON (encodeWith br colon d v @ w) = Some (asText v)"
proof -
  have e: "numEnd w" using numEnd_space [OF w, of "[]"] by simp
  have "lexTokens w = Some []" using lexTokens_space [OF w, of "[]"] by (simp add: lexTokens.simps(1))
  then have "lexTokens (encodeWith br colon d v @ w) = Some (tokensOf (asText v))"
    using lexesToD [OF encodeWith_lexes [OF br colon assms(1)] e] by simp
  moreover have "runTokens (PValue []) (tokensOf (asText v)) = Some (PDone (asText v))"
    using run_value [of "asText v" "[]"] assms(1,2) by (simp add: encodable_asText jsonDepth_asText)
  ultimately show ?thesis by (simp add: parseJSON_def)
qed

theorem parse_encodeJSON:
  "encodable v \<Longrightarrow> jsonDepth v \<le> maxNestingDepth \<Longrightarrow> parseJSON (encodeJSON v) = Some (asText v)"
  using parse_encodeWith [of v "\<lambda>_. []" "'':''" "[]" "[]" 0] by (simp add: encodeJSON_def)

theorem parse_indentJSON:
  "encodable v \<Longrightarrow> jsonDepth v \<le> maxNestingDepth \<Longrightarrow> list_all isJsonSpace w \<Longrightarrow> parseJSON (indentJSON v @ w) = Some (asText v)"
  using parse_encodeWith [of v "\<lambda>d. CHR 0x0A # replicate (2 * d) (CHR 0x20)" "'': ''" "'' ''" w 0]
  by (simp add: indentJSON_def isJsonSpace_def list_all_iff)

text \<open>A map of strings into a map that has none of its keys.\<close>

lemma decodeStrMap_pairs:
  "distinct (map fst (m @ ps)) \<Longrightarrow> decodeStrMap m (map (\<lambda>(k, v). (k, JStr v)) ps) = Some (m @ ps)"
proof (induction ps arbitrary: m)
  case (Cons p ps)
  obtain k v where p: "p = (k, v)" by fastforce
  have "k \<notin> fst ` set m" using Cons.prems by (auto simp: p)
  then have "AList.update k v m = m @ [(k, v)]" by (induction m) auto
  then show ?case using Cons.IH [of "m @ [(k, v)]"] Cons.prems by (simp add: p)
qed simp

end
