(* ===== verification/JsonAny.thy ===== *)
theory JsonAny
  imports JsonRoundtrip "HOL-Library.List_Lexorder" "HOL-Library.Char_ord"
begin

section \<open>JSON without a type: what a text can mean, and \<open>map[string]any\<close>\<close>

text \<open>
  What the parser can return at all: valid UTF-8, literals of the grammar, a bounded depth; so
  whatever has been read is written and read again unchanged. Then the decoding into Go's
  dynamic values, where an object is a map and a number a \<open>float64\<close>, and their encoding with
  sorted keys.
\<close>

subsection \<open>Strings are UTF-8\<close>

definition isRune :: "string \<Rightarrow> bool" where
  "isRune r \<longleftrightarrow> r \<noteq> [] \<and> seqLength r = length r"

lemma validUTF8_Nil [simp]: "validUTF8 [] = []"
  by (simp add: validUTF8_def)

lemma validUTF8_rune: "isRune r \<Longrightarrow> validUTF8 (r @ t) = r @ validUTF8 t"
proof -
  assume r: "isRune r"
  then have "seqLength (r @ t) = length r"
    using seqLength_take [of r "length r" t] by (simp add: isRune_def)
  moreover obtain c s where "r = c # s" using r by (cases r) (auto simp: isRune_def)
  ultimately show ?thesis using runes.simps(2) [of c "s @ t"] by (simp add: validUTF8_def)
qed

lemma isRune_ascii: "byteOf c < 0x80 \<Longrightarrow> isRune [c]"
  by (simp add: isRune_def seqLength_def)

lemma isRune_replacement: "isRune replacementRune"
  by code_simp

lemma isRune_take: "seqLength s \<noteq> 0 \<Longrightarrow> isRune (take (seqLength s) s)"
  using seqLength_take [of s "seqLength s" "[]"] by (auto simp: isRune_def)

lemma encodeRune_two: "0x80 \<le> n \<Longrightarrow> n < 0x800 \<Longrightarrow> isRune (encodeRune n)"
  by (simp add: isRune_def encodeRune_def seqLength_def isCont_def Let_def) linarith

lemma encodeRune_three: "0x800 \<le> n \<Longrightarrow> n < 0x10000 \<Longrightarrow> n < 0xD800 \<or> 0xE000 \<le> n \<Longrightarrow> isRune (encodeRune n)"
proof -
  assume n: "0x800 \<le> n" "n < 0x10000" "n < 0xD800 \<or> 0xE000 \<le> n"
  define q where "q = n div 64"
  have qm: "q = 64 * (q div 64) + q mod 64" "q mod 64 < 64" by simp_all
  have "n div 4096 = q div 64" by (simp add: q_def div_mult2_eq [symmetric])
  moreover have "32 \<le> q" "q < 1024" "q < 864 \<or> 896 \<le> q" using n by (auto simp: q_def)
  then have "q div 64 \<le> 15" "0 < q div 64 \<or> 32 \<le> q" "q div 64 = 13 \<longrightarrow> q mod 64 \<le> 31"
    using qm by linarith+
  moreover have "q mod 64 \<le> 63" "n mod 64 \<le> 63" by (simp_all add: less_Suc_eq_le [symmetric])
  ultimately show ?thesis using n
    by (simp add: isRune_def encodeRune_def seqLength_def isCont_def Let_def flip: q_def)
qed

lemma encodeRune_four: "0x10000 \<le> n \<Longrightarrow> n < 0x110000 \<Longrightarrow> isRune (encodeRune n)"
proof -
  assume n: "0x10000 \<le> n" "n < 0x110000"
  define q where "q = n div 4096"
  have qm: "q = 64 * (q div 64) + q mod 64" "q mod 64 < 64" by simp_all
  have "n div 262144 = q div 64" by (simp add: q_def div_mult2_eq [symmetric])
  moreover have "16 \<le> q" "q < 272" using n by (auto simp: q_def)
  then have "q div 64 \<le> 4" "0 < q div 64 \<or> 16 \<le> q" "q div 64 = 4 \<longrightarrow> q mod 64 \<le> 15"
    using qm by linarith+
  moreover have "q mod 64 \<le> 63" "n div 64 mod 64 \<le> 63" "n mod 64 \<le> 63" by (simp_all add: less_Suc_eq_le [symmetric])
  ultimately show ?thesis using n
    by (simp add: isRune_def encodeRune_def seqLength_def isCont_def Let_def flip: q_def)
qed

lemma encodeRune_isRune: "n < 0x110000 \<Longrightarrow> n < 0xD800 \<or> 0xE000 \<le> n \<Longrightarrow> isRune (encodeRune n)"
proof -
  assume n: "n < 0x110000" "n < 0xD800 \<or> 0xE000 \<le> n"
  consider "n < 0x80" | "0x80 \<le> n" "n < 0x800" | "0x800 \<le> n" "n < 0x10000" | "0x10000 \<le> n" by linarith
  then show ?thesis
  proof cases
    case 1
    then show ?thesis using isRune_ascii [of "char_of n"] by (simp add: encodeRune_def)
  qed (use n encodeRune_two encodeRune_three encodeRune_four in blast)+
qed

lemma hexNibble_less: "hexNibble c = Some x \<Longrightarrow> x < 16"
  by (auto simp: hexNibble_def isDigit_def Let_def split: if_splits)

lemma hex4_less: "hex4 s = Some (n, r) \<Longrightarrow> n < 0x10000"
proof (induction s rule: hex4.induct)
  case (1 a b c d s)
  then obtain x y z w where h: "hexNibble a = Some x" "hexNibble b = Some y" "hexNibble c = Some z" "hexNibble d = Some w"
    and n: "n = ((x * 16 + y) * 16 + z) * 16 + w"
    by (auto split: option.splits)
  show ?case using n h [THEN hexNibble_less] by simp
qed simp_all

lemma uEscape_rune:
  assumes "uEscape s = Some (t, r)"
  shows "isRune t"
proof -
  obtain n s1 where n: "hex4 s = Some (n, s1)" using assms by (auto simp: uEscape_def split: option.splits)
  have nl: "n < 0x10000" by (rule hex4_less [OF n])
  show ?thesis
  proof (cases "n < 0xD800 \<or> 0xE000 \<le> n")
    case True
    then show ?thesis using assms n nl encodeRune_isRune [of n] by (auto simp: uEscape_def)
  next
    case False
    then have "t = replacementRune \<or> (\<exists>m. n < 0xDC00 \<and> 0xDC00 \<le> m \<and> m < 0xE000
        \<and> t = encodeRune (0x10000 + (n - 0xD800) * 0x400 + (m - 0xDC00)))"
      using assms n by (auto simp: uEscape_def split: list.splits if_splits option.splits)
    moreover have "isRune (encodeRune (0x10000 + (n - 0xD800) * 0x400 + (m - 0xDC00)))"
      if "n < 0xDC00" "0xDC00 \<le> m" "m < 0xE000" for m
      using that False by (intro encodeRune_isRune) simp_all
    ultimately show ?thesis using isRune_replacement by auto
  qed
qed

lemma strEscape_rune: "strEscape s = Some (t, r) \<Longrightarrow> isRune t"
  by (auto simp: strEscape_def intro!: isRune_ascii dest: uEscape_rune split: list.splits if_splits)

lemma unquote_valid: "unquote s = Some (t, r) \<Longrightarrow> validUTF8 t = t"
proof (induction s arbitrary: t rule: unquote.induct)
  case (2 c s)
  have add: "validUTF8 (p @ u) = p @ u" if "isRune p" "validUTF8 u = u" for p u
    using validUTF8_rune that by simp
  show ?case
  proof (cases "c = CHR 0x22 \<or> \<not> c = CHR 0x5C \<and> byteOf c < 0x20")
    case True
    then show ?thesis using "2.prems" by (cases "c = CHR 0x22") (simp_all add: unquote.simps(2) [of c s])
  next
    case False
    then consider (e) "c = CHR 0x5C" | (bad) "c \<noteq> CHR 0x5C" "seqLength (c # s) = 0" | (rune) "c \<noteq> CHR 0x5C" "seqLength (c # s) \<noteq> 0"
      by blast
    then show ?thesis
    proof cases
      case e
      then obtain p u r1 where "strEscape s = Some (p, r1)" "unquote r1 = Some (u, r)" "t = p @ u"
        using "2.prems" False by (auto simp: unquote.simps(2) split: option.splits)
      then show ?thesis using "2.IH"(1) [OF _ e] False e strEscape_rune by (auto intro!: add)
    next
      case bad
      then obtain u where "unquote s = Some (u, r)" "t = replacementRune @ u"
        using "2.prems" False by (auto simp: unquote.simps(2) [of c s])
      then show ?thesis using "2.IH"(2) bad False by (auto intro!: add isRune_replacement)
    next
      case rune
      then obtain u where "unquote (drop (seqLength (c # s)) (c # s)) = Some (u, r)" "t = take (seqLength (c # s)) (c # s) @ u"
        using "2.prems" False by (auto simp: unquote.simps(2) [of c s])
      then show ?thesis using "2.IH"(3) rune False isRune_take by (auto intro!: add)
    qed
  qed
qed (simp add: unquote.simps)

subsection \<open>Numbers are literals of the grammar\<close>

lemma numDigits_split:
  "numDigits s = Some (a, r) \<Longrightarrow> s = a @ r \<and> (r = [] \<or> \<not> isDigit (hd r)) \<and> a \<noteq> [] \<and> list_all isDigit a"
proof -
  assume "numDigits s = Some (a, r)"
  then have "a = takeWhile isDigit s" "r = dropWhile isDigit s" "a \<noteq> []" by (auto simp: numDigits_def split: if_splits)
  then show ?thesis using hd_dropWhile [of isDigit s] by (auto simp: list_all_iff simp del: dropWhile_eq_Nil_conv dest: set_takeWhileD)
qed

lemma numDigits_prefix: "a \<noteq> [] \<Longrightarrow> list_all isDigit a \<Longrightarrow> r = [] \<or> \<not> isDigit (hd r) \<Longrightarrow> numDigits (a @ r) = Some (a, r)"
proof -
  assume a: "a \<noteq> []" "list_all isDigit a" "r = [] \<or> \<not> isDigit (hd r)"
  have "takeWhile isDigit r = []" "dropWhile isDigit r = r" using a(3) by (cases r; simp)+
  with a show ?thesis by (simp add: numDigits_def takeWhile_append2 dropWhile_append2 list_all_iff)
qed

text \<open>Each part is found again when what follows is the part that followed it.\<close>

lemma numInt_prefix:
  "numInt s = Some (a, r) \<Longrightarrow> s = a @ r \<and> (\<forall>u. u = [] \<or> \<not> isDigit (hd u) \<longrightarrow> numInt (a @ u) = Some (a, u))"
proof (cases s)
  case (Cons c t)
  assume n: "numInt s = Some (a, r)"
  show ?thesis
  proof (cases "c = CHR ''0''")
    case True
    with n Cons have "a = [CHR ''0'']" "t = r" by (simp_all add: numInt_def)
    then show ?thesis using True Cons by (simp add: numInt_def)
  next
    case False
    with n Cons have d: "numDigits s = Some (a, r)" by (simp add: numInt_def)
    note sp = numDigits_split [OF d]
    then have "hd a = c" using Cons by (cases a) auto
    then have "numInt (a @ u) = numDigits (a @ u)" for u using sp False by (cases a) (simp_all add: numInt_def)
    then show ?thesis using sp numDigits_prefix by simp
  qed
qed (simp add: numInt_def)

lemma numFrac_prefix:
  "numFrac s = Some (a, r) \<Longrightarrow> s = a @ r \<and> (a = [] \<or> hd a = CHR ''.'')
     \<and> (\<forall>u. (u = [] \<or> \<not> isDigit (hd u) \<and> hd u \<noteq> CHR ''.'') \<longrightarrow> numFrac (a @ u) = Some (a, u))"
proof (cases s)
  case Nil
  assume "numFrac s = Some (a, r)"
  then show ?thesis using Nil by (auto simp: numFrac_def split: list.split)
next
  case (Cons c t)
  assume n: "numFrac s = Some (a, r)"
  show ?thesis
  proof (cases "c = CHR ''.''")
    case True
    with n Cons obtain ds where "numDigits t = Some (ds, r)" "a = c # ds" by (auto simp: numFrac_def)
    moreover have d: "numDigits (ds @ u) = Some (ds, u)" if "u = [] \<or> \<not> isDigit (hd u)" for u
      using numDigits_split [OF calculation(1)] that by (intro numDigits_prefix) auto
    ultimately show ?thesis using True Cons numDigits_split [of t ds r] d [of "[]"] by (simp add: numFrac_def)
  next
    case False
    with n Cons show ?thesis by (auto simp: numFrac_def split: list.split)
  qed
qed

lemma numExp_prefix:
  "numExp s = Some (a, r) \<Longrightarrow> s = a @ r \<and> (a = [] \<or> hd a \<in> {CHR ''e'', CHR ''E''}) \<and> numExp a = Some (a, [])"
proof (cases s)
  case (Cons c t)
  assume n: "numExp s = Some (a, r)"
  show ?thesis
  proof (cases "c = CHR ''e'' \<or> c = CHR ''E''")
    case True
    obtain sg u where u: "numSign ''+-'' t = (sg, u)" by fastforce
    with n True Cons obtain ds where d: "numDigits u = Some (ds, r)" "a = c # sg @ ds" by (auto simp: numExp_def)
    note sp = numDigits_split [OF d(1)]
    have t: "t = sg @ u" using u by (auto simp: numSign_def split: list.splits if_splits)
    have "numSign ''+-'' (sg @ ds) = (sg, ds)"
      using u sp by (cases t; cases ds) (auto simp: numSign_def isDigit_def split: if_splits)
    then show ?thesis using True d sp t Cons numDigits_prefix [of ds "[]"] by (auto simp: numExp_def)
  next
    case False
    with n Cons show ?thesis by (auto simp: numExp_def)
  qed
qed (auto simp: numExp_def)

lemma lexNumber_isNumber:
  assumes "lexNumber s = Some (t, r)"
  shows "isNumber t"
proof -
  obtain sg s1 i s2 f s3 x where p: "numSign ''-'' s = (sg, s1)" "numInt s1 = Some (i, s2)" "numFrac s2 = Some (f, s3)"
    "numExp s3 = Some (x, r)" "t = sg @ i @ f @ x"
    using assms by (auto simp: lexNumber_def split: prod.splits option.splits)
  note i = numInt_prefix [OF p(2)] and f = numFrac_prefix [OF p(3)] and x = numExp_prefix [OF p(4)]
  have hx: "x = [] \<or> \<not> isDigit (hd x) \<and> hd x \<noteq> CHR ''.''" using x by (auto simp: isDigit_def)
  have hf: "f @ x = [] \<or> \<not> isDigit (hd (f @ x))" using f hx by (cases f) (auto simp: isDigit_def)
  have "numInt (i @ f @ x) = Some (i, f @ x)" using i hf by blast
  moreover have "numFrac (f @ x) = Some (f, x)" using f hx by blast
  moreover obtain c i' where "i = c # i'" "isDigit c" using numInt_head [OF p(2)] by blast
  then have "numSign ''-'' (sg @ i @ f @ x) = (sg, i @ f @ x)"
    using p(1) by (cases s) (auto simp: numSign_def isDigit_def split: if_splits)
  ultimately show ?thesis using x by (simp add: isNumber_def lexNumber_def p(5))
qed

subsection \<open>What the parser returns\<close>

text \<open>A tree a text can stand for: text, literals, and no deeper than the scanner goes.\<close>

definition wellRead :: "nat \<Rightarrow> JValue \<Rightarrow> bool" where
  "wellRead n v \<longleftrightarrow> asText v = v \<and> encodable v \<and> jsonDepth v + n \<le> maxNestingDepth"

lemma lexOne_wellRead:
  "lexOne c s = Some (TVal v, r) \<Longrightarrow> wellRead maxNestingDepth v"
  by (auto simp: wellRead_def lexOne_def lexWord_def intro: unquote_valid lexNumber_isNumber split: if_splits)

lemma lexTokens_wellRead: "lexTokens s = Some ts \<Longrightarrow> TVal v \<in> set ts \<Longrightarrow> wellRead maxNestingDepth v"
proof (induction s arbitrary: ts rule: lexTokens.induct)
  case (2 c s)
  then show ?case
    by (cases "isJsonSpace c") (auto simp: lexTokens.simps(2) [of c s] dest: lexOne_wellRead split: option.splits)
qed (simp add: lexTokens.simps)

text \<open>Every value on the stack fits where it stands.\<close>

fun frameOk :: "nat \<Rightarrow> frame \<Rightarrow> bool" where
  "frameOk n (FArr vs) = list_all (wellRead (Suc n)) vs"
| "frameOk n (FObj fs) = list_all (\<lambda>(k, v). validUTF8 k = k \<and> wellRead (Suc n) v) fs"
| "frameOk n (FMem fs k) \<longleftrightarrow> list_all (\<lambda>(k, v). validUTF8 k = k \<and> wellRead (Suc n) v) fs \<and> validUTF8 k = k"

fun framesOk :: "frame list \<Rightarrow> bool" where
  "framesOk [] = True"
| "framesOk (f # fr) \<longleftrightarrow> length fr < maxNestingDepth \<and> frameOk (length fr) f \<and> framesOk fr"

fun stateOk :: "pstate \<Rightarrow> bool" where
  "stateOk (PDone v) = wellRead 0 v"
| "stateOk (PValue fr) = framesOk fr"
| "stateOk (PFirst fr) = framesOk fr"
| "stateOk (PKey fr e) = framesOk fr"
| "stateOk (PColon fr) = framesOk fr"
| "stateOk (PAfter fr) = framesOk fr"

lemma wellRead_le: "wellRead n v \<Longrightarrow> m \<le> n \<Longrightarrow> wellRead m v"
  by (simp add: wellRead_def)

lemma putValue_ok: "wellRead (length fr) v \<Longrightarrow> framesOk fr \<Longrightarrow> stateOk (putValue v fr)"
  by (cases "(v, fr)" rule: putValue.cases) (auto intro: wellRead_le)

lemma fold_max_le: "(\<And>x. x \<in> set xs \<Longrightarrow> x \<le> n) \<Longrightarrow> m \<le> n \<Longrightarrow> fold max xs (m::nat) \<le> n"
  by (induction xs arbitrary: m) auto

lemma depth_obj: "\<forall>p \<in> set fs. jsonDepth (snd p) \<le> n \<Longrightarrow> jsonDepth (JObj fs) \<le> Suc n"
  by (auto intro!: fold_max_le simp: case_prod_unfold)

lemma depth_list: "\<forall>v \<in> set vs. jsonDepth v \<le> n \<Longrightarrow> jsonDepth (JList vs) \<le> Suc n"
  by (auto intro!: fold_max_le)

lemma wellRead_list:
  assumes n: "n < maxNestingDepth" and vs: "list_all (wellRead (Suc n)) vs"
  shows "wellRead n (JList vs)"
proof -
  have "\<forall>v \<in> set vs. jsonDepth v \<le> maxNestingDepth - Suc n" using vs by (auto simp: list_all_iff wellRead_def)
  from depth_list [OF this] n have "jsonDepth (JList vs) + n \<le> maxNestingDepth" by linarith
  then show ?thesis using vs by (auto simp: wellRead_def list_all_iff intro!: map_idI)
qed

lemma wellRead_obj:
  assumes n: "n < maxNestingDepth" and fs: "list_all (\<lambda>(k, v). validUTF8 k = k \<and> wellRead (Suc n) v) fs"
  shows "wellRead n (JObj fs)"
proof -
  have "\<forall>p \<in> set fs. jsonDepth (snd p) \<le> maxNestingDepth - Suc n" using fs by (auto simp: list_all_iff wellRead_def)
  from depth_obj [OF this] n have "jsonDepth (JObj fs) + n \<le> maxNestingDepth" by linarith
  then show ?thesis using fs by (auto simp: wellRead_def list_all_iff intro!: map_idI)
qed

lemma framesOk_length: "framesOk fr \<Longrightarrow> length fr \<le> maxNestingDepth"
  by (induction fr rule: framesOk.induct) auto

lemma stepValue_ok:
  assumes "stepValue fr t = Some p" and "framesOk fr" and "\<And>v. t = TVal v \<Longrightarrow> wellRead maxNestingDepth v"
  shows "stateOk p"
  using assms framesOk_length [OF assms(2)]
  by (auto simp: stepValue_def openFrame_def intro: putValue_ok wellRead_le split: token.splits if_splits)

lemma stepToken_ok:
  assumes "stepToken p t = Some q" and "stateOk p" and v: "\<And>v. t = TVal v \<Longrightarrow> wellRead maxNestingDepth v"
  shows "stateOk q"
proof -
  have key: "validUTF8 k = k" if "t = TVal (JStr k)" for k using v [OF that] by (simp add: wellRead_def)
  show ?thesis
    using assms(1,2) key
    by (cases "(p, t)" rule: stepToken.cases)
      (auto intro: putValue_ok wellRead_list wellRead_obj dest: stepValue_ok [OF _ _ v])
qed

lemma runTokens_ok:
  "runTokens p ts = Some q \<Longrightarrow> stateOk p \<Longrightarrow> (\<And>v. TVal v \<in> set ts \<Longrightarrow> wellRead maxNestingDepth v) \<Longrightarrow> stateOk q"
proof (induction ts arbitrary: p)
  case (Cons t ts)
  then obtain p' where "stepToken p t = Some p'" "runTokens p' ts = Some q" by (auto split: option.splits)
  then show ?case using Cons.IH [of p'] stepToken_ok [of p t p'] Cons.prems by auto
qed simp

lemma parseJSON_wellRead:
  assumes "parseJSON data = Some v"
  shows "wellRead 0 v"
proof -
  obtain ts where ts: "lexTokens data = Some ts" "runTokens (PValue []) ts = Some (PDone v)"
    using assms by (auto simp: parseJSON_def split: option.splits pstate.splits)
  then show ?thesis using runTokens_ok [OF ts(2)] lexTokens_wellRead [OF ts(1)] by simp
qed

text \<open>What has been read is written and read again as it was, compact or indented.\<close>

theorem parse_canonical:
  assumes "parseJSON data = Some v"
  shows "parseJSON (encodeJSON v) = Some v \<and> parseJSON (indentJSON v) = Some v"
  using parseJSON_wellRead [OF assms] parse_encodeJSON [of v] parse_indentJSON [of v "[]"]
  by (simp add: wellRead_def)

subsection \<open>Dynamic values\<close>

text \<open>
  A tree as a Go \<open>any\<close>: a number becomes a \<open>float64\<close> (\<open>fl\<close> is its literal after that, \<open>None\<close>
  when it is out of range), and of two members with the same key the last one stays.
\<close>

fun decodeAny :: "(string \<Rightarrow> string option) \<Rightarrow> JValue \<Rightarrow> JValue option" where
  "decodeAny fl (JNum n) = map_option JNum (fl n)"
| "decodeAny fl (JList vs) = map_option JList (those (map (decodeAny fl) vs))"
| "decodeAny fl (JObj fs) =
     map_option (\<lambda>ws. JObj (fold (\<lambda>(k, v). AList.update k v) ws []))
       (those (map (\<lambda>(k, v). map_option (Pair k) (decodeAny fl v)) fs))"
| "decodeAny fl v = Some v"

text \<open>\<open>json.Unmarshal\<close> into a nil \<open>map[string]any\<close>, and \<open>json.MarshalIndent\<close> of one.\<close>

definition unmarshalAnyMap :: "(string \<Rightarrow> string option) \<Rightarrow> string \<Rightarrow> Struct option" where
  "unmarshalAnyMap fl data =
     (case parseJSON data of
        None \<Rightarrow> None
      | Some JNull \<Rightarrow> Some []
      | Some (JObj fs) \<Rightarrow> (case decodeAny fl (JObj fs) of Some (JObj m) \<Rightarrow> Some m | _ \<Rightarrow> None)
      | Some _ \<Rightarrow> None)"

fun sortJSON :: "JValue \<Rightarrow> JValue" where
  "sortJSON (JList vs) = JList (map sortJSON vs)"
| "sortJSON (JObj fs) = JObj (sort_key fst (map (\<lambda>(k, v). (k, sortJSON v)) fs))"
| "sortJSON v = v"

definition marshalAnyMap :: "Struct \<Rightarrow> string" where
  "marshalAnyMap m = indentJSON (sortJSON (JObj m))"

text \<open>
  Formatting a float and parsing it again gives the same float: the literal is one of the
  grammar and stays as it is.
\<close>

definition floatLaw :: "(string \<Rightarrow> string option) \<Rightarrow> bool" where
  "floatLaw fl \<longleftrightarrow> (\<forall>n n'. fl n = Some n' \<longrightarrow> isNumber n' \<and> fl n' = Some n')"

fun stableAny :: "(string \<Rightarrow> string option) \<Rightarrow> JValue \<Rightarrow> bool" where
  "stableAny fl (JNum n) \<longleftrightarrow> fl n = Some n"
| "stableAny fl (JList vs) = list_all (stableAny fl) vs"
| "stableAny fl (JObj fs) \<longleftrightarrow> distinct (map fst fs) \<and> list_all (\<lambda>(k, v). stableAny fl v) fs"
| "stableAny fl v = True"

lemma those_map_Some: "those (map f xs) = Some ys \<Longrightarrow> list_all2 (\<lambda>x y. f x = Some y) xs ys"
  by (induction xs arbitrary: ys) (auto split: option.splits)

lemma those_id: "(\<And>x. x \<in> set xs \<Longrightarrow> f x = Some x) \<Longrightarrow> those (map f xs) = Some xs"
  by (induction xs) simp_all

lemma updates_subset: "set (fold (\<lambda>(k, v). AList.update k v) ws m) \<subseteq> set ws \<union> set m"
proof (induction ws arbitrary: m)
  case (Cons p ws)
  obtain k v where p: "p = (k, v)" by fastforce
  have "set (AList.update k v m) \<subseteq> {(k, v)} \<union> set m" by (induction m) auto
  then show ?case using Cons.IH [of "AList.update k v m"] by (auto simp: p)
qed simp

lemma updates_distinct: "distinct (map fst m) \<Longrightarrow> distinct (map fst (fold (\<lambda>(k, v). AList.update k v) ws m))"
  by (induction ws arbitrary: m) (auto simp: distinct_update)

lemma updates_id: "distinct (map fst (m @ ws)) \<Longrightarrow> fold (\<lambda>(k, v). AList.update k v) ws m = m @ ws"
proof (induction ws arbitrary: m)
  case (Cons p ws)
  obtain k v where p: "p = (k, v)" by fastforce
  have "k \<notin> fst ` set m" using Cons.prems by (auto simp: p)
  then have "AList.update k v m = m @ [(k, v)]" by (induction m) auto
  then show ?case using Cons.IH [of "m @ [(k, v)]"] Cons.prems by (simp add: p)
qed simp

lemma wellRead_listD: "wellRead n (JList vs) \<Longrightarrow> n < maxNestingDepth \<and> list_all (wellRead (Suc n)) vs"
proof -
  assume w: "wellRead n (JList vs)"
  have "jsonDepth v + Suc n \<le> maxNestingDepth" if "v \<in> set vs" for v
    using fold_max_ge [of "jsonDepth v" "map jsonDepth vs" 0] w that by (simp add: wellRead_def)
  moreover have "map asText vs = vs" using w by (simp add: wellRead_def)
  then have "asText v = v" if "v \<in> set vs" for v using that by (metis map_idI map_eq_conv map_ident)
  ultimately show ?thesis using w by (auto simp: wellRead_def list_all_iff)
qed

lemma wellRead_objD:
  "wellRead n (JObj fs) \<Longrightarrow> n < maxNestingDepth \<and> list_all (\<lambda>(k, v). validUTF8 k = k \<and> wellRead (Suc n) v) fs"
proof -
  assume w: "wellRead n (JObj fs)"
  have "jsonDepth v + Suc n \<le> maxNestingDepth" if "(k, v) \<in> set fs" for k v
  proof -
    have "jsonDepth v \<in> set (map (\<lambda>(k, v). jsonDepth v) fs)" using that by force
    from fold_max_ge [OF disjI1, OF this, of 0] show ?thesis using w by (simp add: wellRead_def)
  qed
  moreover have "map (\<lambda>(k, v). (validUTF8 k, asText v)) fs = fs" using w by (simp add: wellRead_def)
  then have "(validUTF8 k, asText v) = (k, v)" if "(k, v) \<in> set fs" for k v
    using that by (induction fs) auto
  ultimately show ?thesis using w by (fastforce simp: wellRead_def list_all_iff)
qed

lemma list_all2_source: "list_all2 P xs ys \<Longrightarrow> y \<in> set ys \<Longrightarrow> \<exists>x \<in> set xs. P x y"
  by (induction rule: list_all2_induct) auto

lemma decodeAny_stable:
  "floatLaw fl \<Longrightarrow> decodeAny fl v = Some w \<Longrightarrow> wellRead n v \<Longrightarrow> wellRead n w \<and> stableAny fl w"
proof (induction fl v arbitrary: w n rule: decodeAny.induct)
  case (1 fl n')
  then show ?case by (auto simp: floatLaw_def wellRead_def)
next
  case (2 fl vs)
  obtain ws where w: "w = JList ws" and t: "those (map (decodeAny fl) vs) = Some ws" using "2.prems"(2) by auto
  note l = wellRead_listD [OF "2.prems"(3)]
  have "wellRead (Suc n) y \<and> stableAny fl y" if y: "y \<in> set ws" for y
  proof -
    obtain x where x: "x \<in> set vs" "decodeAny fl x = Some y"
      using list_all2_source [OF those_map_Some [OF t] y] by blast
    then show ?thesis using "2.IH" [OF x(1) "2.prems"(1) x(2), of "Suc n"] l by (simp add: list_all_iff)
  qed
  then show ?case using l by (auto simp: w list_all_iff intro: wellRead_list)
next
  case (3 fl fs)
  obtain ws where w: "w = JObj (fold (\<lambda>(k, v). AList.update k v) ws [])"
    and t: "those (map (\<lambda>(k, v). map_option (Pair k) (decodeAny fl v)) fs) = Some ws" using "3.prems"(2) by auto
  note l = wellRead_objD [OF "3.prems"(3)]
  have "validUTF8 k = k \<and> wellRead (Suc n) y \<and> stableAny fl y" if y: "(k, y) \<in> set ws" for k y
  proof -
    obtain x where x: "(k, x) \<in> set fs" "decodeAny fl x = Some y"
      using list_all2_source [OF those_map_Some [OF t] y] by auto
    then show ?thesis using "3.IH" [OF x(1) refl "3.prems"(1) x(2)] l by (auto simp: list_all_iff)
  qed
  then show ?case using l updates_subset [of ws "[]"] updates_distinct [of "[]" ws]
    by (fastforce simp: w list_all_iff intro!: wellRead_obj)
qed (auto simp: wellRead_def)

lemma distinct_fst_sort: "distinct (map fst (sort_key f xs)) = distinct (map fst xs)"
  by (simp only: distinct_map distinct_sort set_sort)

lemma sortJSON_stable:
  "stableAny fl w \<Longrightarrow> wellRead n w \<Longrightarrow> wellRead n (sortJSON w) \<and> decodeAny fl (sortJSON w) = Some (sortJSON w)"
proof (induction fl w arbitrary: n rule: stableAny.induct)
  case (2 fl vs)
  note l = wellRead_listD [OF "2.prems"(2)]
  have v: "wellRead (Suc n) (sortJSON x) \<and> decodeAny fl (sortJSON x) = Some (sortJSON x)" if "x \<in> set vs" for x
    using 2 l that by (auto simp: list_all_iff)
  then have "those (map (decodeAny fl) (map sortJSON vs)) = Some (map sortJSON vs)" by (intro those_id) auto
  then show ?case using l v by (auto simp: list_all_iff intro!: wellRead_list)
next
  case (3 fl fs)
  note l = wellRead_objD [OF "3.prems"(2)]
  let ?gs = "sort_key fst (map (\<lambda>(k, v). (k, sortJSON v)) fs)"
  have v: "validUTF8 k = k \<and> wellRead (Suc n) x \<and> decodeAny fl x = Some x" if "(k, x) \<in> set ?gs" for k x
    using 3 l that by (fastforce simp: list_all_iff)
  then have t: "those (map (\<lambda>(k, v). map_option (Pair k) (decodeAny fl v)) ?gs) = Some ?gs"
    by (intro those_id) (use v in \<open>fastforce simp del: set_sort set_map\<close>)
  have "fst \<circ> (\<lambda>(k :: string, v). (k, sortJSON v)) = fst" by auto
  then have "distinct (map fst (map (\<lambda>(k, v). (k, sortJSON v)) fs))" using "3.prems"(1) by simp
  then have "distinct (map fst ?gs)" by (simp only: distinct_fst_sort)
  then have "fold (\<lambda>(k, v). AList.update k v) ?gs [] = ?gs" using updates_id [of "[]" ?gs] by simp
  moreover have "list_all (\<lambda>(k, v). validUTF8 k = k \<and> wellRead (Suc n) v) ?gs"
    unfolding list_all_iff using v by fast
  then have "wellRead n (JObj ?gs)" using l by (intro wellRead_obj) simp_all
  ultimately show ?case using t by simp
qed (simp_all add: wellRead_def)

text \<open>A decoded map, written and read again, is the same map.\<close>

lemma unmarshalAnyMap_stable:
  assumes fl: "floatLaw fl" and u: "unmarshalAnyMap fl data = Some m"
  shows "wellRead 0 (JObj m) \<and> stableAny fl (JObj m)"
proof (cases "parseJSON data = Some JNull")
  case True
  then show ?thesis using u by (simp add: unmarshalAnyMap_def wellRead_def maxNestingDepth_def)
next
  case False
  then obtain fs where "parseJSON data = Some (JObj fs)" "decodeAny fl (JObj fs) = Some (JObj m)"
    using u by (auto simp: unmarshalAnyMap_def simp del: decodeAny.simps split: option.splits JValue.splits)
  then show ?thesis using decodeAny_stable [OF fl] parseJSON_wellRead by blast
qed

lemma marshalAnyMap_read_back:
  assumes m: "wellRead 0 (JObj m)" "stableAny fl (JObj m)"
  shows "\<exists>m'. unmarshalAnyMap fl (marshalAnyMap m) = Some m' \<and> (\<forall>k. map_of m' k = map_option sortJSON (map_of m k))"
proof -
  let ?gs = "sort_key fst (map (\<lambda>(k, v). (k, sortJSON v)) m)"
  have s: "wellRead 0 (JObj ?gs)" "decodeAny fl (JObj ?gs) = Some (JObj ?gs)"
    using sortJSON_stable [OF m(2,1)] by simp_all
  have "parseJSON (marshalAnyMap m) = Some (JObj ?gs)"
    using parse_indentJSON [of "JObj ?gs" "[]"] s(1) by (simp add: marshalAnyMap_def wellRead_def)
  then have "unmarshalAnyMap fl (marshalAnyMap m) = Some ?gs"
    using s(2) by (simp add: unmarshalAnyMap_def del: decodeAny.simps)
  moreover have "map_of ?gs k = map_option sortJSON (map_of m k)" for k
  proof -
    have "fst \<circ> (\<lambda>(k :: string, v). (k, sortJSON v)) = fst" by auto
    then have d: "distinct (map fst (map (\<lambda>(k, v). (k, sortJSON v)) m))" using m(2) by simp
    then have "distinct (map fst ?gs)" by (simp only: distinct_fst_sort)
    then have "map_of ?gs = map_of (map (\<lambda>(k, v). (k, sortJSON v)) m)" using d by (intro map_of_inject_set [THEN iffD2]) auto
    then show ?thesis by (simp add: map_of_map)
  qed
  ultimately show ?thesis by blast
qed

lemma stable_update:
  assumes "wellRead 0 (JObj m)" and "stableAny fl (JObj m)" and "validUTF8 k = k" and "validUTF8 s = s"
  shows "wellRead 0 (JObj (AList.update k (JStr s) m)) \<and> stableAny fl (JObj (AList.update k (JStr s) m))"
proof -
  have set: "set (AList.update k (JStr s) m) \<subseteq> {(k, JStr s)} \<union> set m" by (induction m) auto
  note l = wellRead_objD [OF assms(1)]
  have "wellRead (Suc 0) (JStr s)" using assms(4) by (simp add: wellRead_def maxNestingDepth_def)
  then have "list_all (\<lambda>(k, v). validUTF8 k = k \<and> wellRead (Suc 0) v) (AList.update k (JStr s) m)"
    using set l assms(3) by (fastforce simp: list_all_iff)
  then have "wellRead 0 (JObj (AList.update k (JStr s) m))" using l by (intro wellRead_obj) simp_all
  moreover have "list_all (\<lambda>(k, v). stableAny fl v) (AList.update k (JStr s) m)"
    using set assms(2) by (fastforce simp: list_all_iff)
  ultimately show ?thesis using assms(2) by (simp add: distinct_update)
qed

end
