(* ===== verification/HostSetup.thy ===== *)
theory HostSetup
  imports HostWiring Preflight Seed JsonAny
begin

section \<open>Host setup and cleanup (\<open>setup.go\<close>)\<close>

text \<open>
  \<open>setup\<close> wires the driver into the host and \<open>cleanup\<close> takes it out again. Both run commands,
  whose effects are not the program's: what a command does to the machine is a parameter,
  and so is what the machine does on its own while the program waits. The state is the host's
  files, the world of the container runtime and of everything else that runs, the clock, and
  the commands issued so far.
\<close>

subsection \<open>The host\<close>

record 'w Host =
  hoFs :: hostfs
  hoWorld :: 'w
  hoClock :: int
  hoTrace :: "(string \<times> string list) list"

text \<open>
  What is not the program: the runtime, commands (whether they succeed, and their output),
  how long a call takes, what happens in a quarter of a second, which system calls succeed,
  the environment, the search path, who listens, and the decoders of PEM, X.509 and URLs.
  \<open>heFloat\<close> is the literal of a number after it has been a \<open>float64\<close>; \<open>heURL\<close> is host name and port of a string that parses, \<open>heURLWith\<close> the URL with
  another host. Certificates give their addresses in the sixteen-byte form. A file that holds
  a record has the bytes \<open>heJSON\<close> says.
\<close>

record 'w hostenv =
  heRt :: "'w Runtime"
  heExec :: "string \<Rightarrow> string list \<Rightarrow> 'w \<times> hostfs \<Rightarrow> (bool \<times> string) \<times> 'w \<times> hostfs"
  heTakes :: "'w \<Rightarrow> nat"
  hePass :: "'w \<times> hostfs \<Rightarrow> 'w \<times> hostfs"
  heIo :: hostio
  heEnv :: procenv
  heLookPath :: "string \<Rightarrow> bool"
  heListens :: "string \<Rightarrow> 'w \<Rightarrow> bool"
  heArch :: string
  hePem :: "string \<Rightarrow> string option"
  heX509 :: "string \<Rightarrow> ip list option"
  heFloat :: "string \<Rightarrow> string option"
  heURL :: "string \<Rightarrow> (string \<times> string) option"
  heURLWith :: "string \<Rightarrow> string \<Rightarrow> string"
  heJSON :: "Record \<Rightarrow> string"

text \<open>\<open>Exec\<close> and \<open>ExecStream\<close> differ in where the output goes.\<close>

definition runCmd :: "'w hostenv \<Rightarrow> string \<Rightarrow> string list \<Rightarrow> 'w Host \<Rightarrow> (bool \<times> string) \<times> 'w Host" where
  "runCmd ev name args st =
     (let (res, w, fs) = heExec ev name args (hoWorld st, hoFs st)
      in (res, st\<lparr>hoWorld := w, hoFs := fs, hoClock := hoClock st + int (heTakes ev (hoWorld st)),
                  hoTrace := hoTrace st @ [(name, args)]\<rparr>))"

text \<open>A call of the runtime, with a context that expires at \<open>dl\<close>.\<close>

definition rtStep :: "'w hostenv \<Rightarrow> int \<Rightarrow> ('w Runtime \<Rightarrow> bool \<Rightarrow> 'w \<Rightarrow> 'r \<times> 'w) \<Rightarrow> 'w Host \<Rightarrow> 'r \<times> 'w Host" where
  "rtStep ev dl f st =
     (let (r, w) = f (heRt ev) (dl \<le> hoClock st) (hoWorld st)
      in (r, st\<lparr>hoWorld := w, hoClock := hoClock st + int (heTakes ev (hoWorld st))\<rparr>))"

definition fileExists :: "string \<Rightarrow> 'w Host \<Rightarrow> bool" where
  "fileExists p st \<longleftrightarrow> map_of (hoFs st) p \<noteq> None"

definition readFile :: "'w hostenv \<Rightarrow> string \<Rightarrow> 'w Host \<Rightarrow> string option" where
  "readFile ev p st =
     (if heIo ev IoRead p
      then (case map_of (hoFs st) p of
              Some (FileN _ (Bytes b)) \<Rightarrow> Some b
            | Some (FileN _ (RecordJSON r)) \<Rightarrow> Some (heJSON ev r)
            | _ \<Rightarrow> None)
      else None)"

definition mkdirAll :: "'w hostenv \<Rightarrow> string \<Rightarrow> 'w Host \<Rightarrow> err option \<times> 'w Host" where
  "mkdirAll ev d st =
     (if heIo ev IoMkdir d \<and> canMkdir d (hoFs st)
      then (None, st\<lparr>hoFs := fsExec (MkdirAllOp mode700 d) (hoFs st)\<rparr>)
      else (Some (errorf ''mkdir'' [d]), st))"

definition osWriteFile :: "'w hostenv \<Rightarrow> string \<Rightarrow> string \<Rightarrow> 'w Host \<Rightarrow> err option \<times> 'w Host" where
  "osWriteFile ev p b st =
     (let (e, fs) = writeFile (heIo ev) mode600 p b (errorf ''write'' [p]) (hoFs st) in (e, st\<lparr>hoFs := fs\<rparr>))"

definition osRemove :: "'w hostenv \<Rightarrow> string \<Rightarrow> 'w Host \<Rightarrow> err option \<times> 'w Host" where
  "osRemove ev p st =
     (if \<not> fileExists p st then (Some (Err KNotFound ''remove'' [p]), st)
      else if \<not> heIo ev IoRemove p then (Some (errorf ''remove'' [p]), st)
      else (None, st\<lparr>hoFs := fsExec (RemoveOp p) (hoFs st)\<rparr>))"

text \<open>A tree that can only be removed in part loses that part.\<close>

definition osRemoveAll :: "'w hostenv \<Rightarrow> string \<Rightarrow> 'w Host \<Rightarrow> 'w Host" where
  "osRemoveAll ev d st =
     st\<lparr>hoFs := filter (\<lambda>(p, n). \<not> (underPath d p \<and> heIo ev IoRemoveAll p)) (hoFs st)\<rparr>"

text \<open>
  \<open>waitFor\<close>: probe every quarter second until the answer is good or the deadline has passed,
  then probe once more. The answer is the last probe's. The clock never goes back.
\<close>

definition sleep250 :: "'w hostenv \<Rightarrow> int \<Rightarrow> 'w Host \<Rightarrow> 'w Host" where
  "sleep250 ev since st =
     (let (w, fs) = hePass ev (hoWorld st, hoFs st)
      in st\<lparr>hoWorld := w, hoFs := fs, hoClock := max since (hoClock st) + 250\<rparr>)"

function waitUntil ::
  "'w hostenv \<Rightarrow> ('a \<Rightarrow> bool) \<Rightarrow> ('w Host \<Rightarrow> 'a \<times> 'w Host) \<Rightarrow> int \<Rightarrow> 'w Host \<Rightarrow> 'a \<times> 'w Host" where
  "waitUntil ev good probe deadline st =
     (if hoClock st < deadline
      then (let (a, st1) = probe st
            in if good a then (a, st1)
               else waitUntil ev good probe deadline (sleep250 ev (hoClock st) st1))
      else probe st)"
  by pat_completeness auto
termination
  by (relation "measure (\<lambda>(ev, good, probe, deadline, st). nat (deadline - hoClock st))")
    (auto simp: sleep250_def split: prod.splits)

declare waitUntil.simps [simp del]

definition waitFor :: "'w hostenv \<Rightarrow> ('w Host \<Rightarrow> bool \<times> 'w Host) \<Rightarrow> int \<Rightarrow> 'w Host \<Rightarrow> bool \<times> 'w Host" where
  "waitFor ev cond timeout st = waitUntil ev (\<lambda>b. b) cond (hoClock st + timeout) st"

subsection \<open>What is set up\<close>

record Setup =
  stHome :: string
  stUID :: nat
  stBinPath :: string
  stHasOpenShell :: "(hostfs \<Rightarrow> bool) option"
  stACUninstaller :: string
  stOpenShellVarDir :: string
  stReadyTimeout :: int

record Options =
  opNetwork :: string
  opSocket :: string
  opTLSDir :: string
  opDefaultImage :: string
  opSupervisorImage :: string
  opPullImages :: bool
  opDriverVersion :: string

text \<open>\<open>exe\<close> is \<open>os.Executable\<close>, \<open>ev\<close> \<open>filepath.EvalSymlinks\<close>.\<close>

definition newSetup ::
  "procenv \<Rightarrow> string option \<Rightarrow> nat \<Rightarrow> (string \<Rightarrow> string option) \<Rightarrow> err + Setup" where
  "newSetup env exe uid ev =
     (case UserHomeDir env of
        None \<Rightarrow> Inl (errorf ''$HOME is not defined'' [])
      | Some home \<Rightarrow>
          (case exe of
             None \<Rightarrow> Inl (errorf ''resolve driver binary path: %w'' [])
           | Some bin \<Rightarrow>
               Inr \<lparr>stHome = home, stUID = uid, stBinPath = resolveBinPath ev bin, stHasOpenShell = None,
                 stACUninstaller = ''/usr/local/bin/uninstall-container.sh'',
                 stOpenShellVarDir = ''/opt/homebrew/var/openshell'', stReadyTimeout = 15000\<rparr>))"

definition configDir :: "procenv \<Rightarrow> Setup \<Rightarrow> string" where
  "configDir env s =
     (if Getenv env ''XDG_CONFIG_HOME'' \<noteq> [] then pathJoin [Getenv env ''XDG_CONFIG_HOME'', ''openshell'']
      else pathJoin [stHome s, ''.config'', ''openshell''])"

definition gatewayEnvPath :: "procenv \<Rightarrow> Setup \<Rightarrow> string" where
  "gatewayEnvPath env s = pathJoin [configDir env s, ''gateway.env'']"

definition agentPlistPath :: "Setup \<Rightarrow> string" where
  "agentPlistPath s = pathJoin [stHome s, ''Library'', ''LaunchAgents'', AgentLabel @ ''.plist'']"

definition agentLogPath :: "Setup \<Rightarrow> string" where
  "agentLogPath s = pathJoin [stHome s, ''Library'', ''Logs'', ''openshell-driver-applecontainer.log'']"

definition defaultKernelPath :: "'w hostenv \<Rightarrow> Setup \<Rightarrow> string" where
  "defaultKernelPath ev s =
     pathJoin [stHome s, ''Library'', ''Application Support'', ''com.apple.container'',
       ''kernels'', ''default.kernel-'' @ heArch ev]"

definition agentDomain :: "Setup \<Rightarrow> string" where
  "agentDomain s = ''gui/'' @ natString (stUID s)"

definition agentTarget :: "Setup \<Rightarrow> string" where
  "agentTarget s = agentDomain s @ ''/'' @ AgentLabel"

definition detectTLSDir :: "'w hostenv \<Rightarrow> 'w Host \<Rightarrow> string" where
  "detectTLSDir ev st = DefaultGuestTLSDir (heEnv ev) (\<lambda>p. fileExists p st)"

definition tlsDirOf :: "'w hostenv \<Rightarrow> string \<Rightarrow> 'w Host \<Rightarrow> string" where
  "tlsDirOf ev given st = (if given = [] then detectTLSDir ev st else given)"

definition brewHasOpenShell :: "'w hostenv \<Rightarrow> 'w Host \<Rightarrow> bool" where
  "brewHasOpenShell ev st \<longleftrightarrow> heLookPath ev ''brew'' \<and> fileExists ''/opt/homebrew/opt/openshell'' st"

definition openShellInstalled :: "'w hostenv \<Rightarrow> Setup \<Rightarrow> 'w Host \<Rightarrow> bool" where
  "openShellInstalled ev s st =
     (case stHasOpenShell s of Some f \<Rightarrow> f (hoFs st) | None \<Rightarrow> brewHasOpenShell ev st)"

definition probeVersion :: "'w hostenv \<Rightarrow> string \<Rightarrow> 'w Host \<Rightarrow> string \<times> 'w Host" where
  "probeVersion ev bin st =
     (case runCmd ev bin [''--version''] st of
        ((ok, out), st1) \<Rightarrow> (if ok then ParseVersionOutput out else [], st1))"

definition orUnknown :: "string \<Rightarrow> string" where
  "orUnknown v = (if v = [] then ''unknown'' else v)"

subsection \<open>The steps of setup\<close>

definition ensureKernel :: "'w hostenv \<Rightarrow> Setup \<Rightarrow> 'w Host \<Rightarrow> 'w Host" where
  "ensureKernel ev s st =
     (if fileExists (defaultKernelPath ev s) st then st
      else snd (runCmd ev ''container'' [''system'', ''kernel'', ''set'', ''--recommended''] st))"

text \<open>The host side address of a network, empty when it has none or is not there.\<close>

definition findNetwork :: "'w hostenv \<Rightarrow> int \<Rightarrow> string \<Rightarrow> 'w Host \<Rightarrow> (err + string) \<times> 'w Host" where
  "findNetwork ev dl name st =
     (case rtStep ev dl rtNetworks st of
        (Inl e, st1) \<Rightarrow> (Inl e, st1)
      | (Inr ns, st1) \<Rightarrow> (Inr (case gatewayOf name ns of Some g \<Rightarrow> g | None \<Rightarrow> []), st1))"

definition hasAddress :: "err + string \<Rightarrow> bool" where
  "hasAddress r = (case r of Inl _ \<Rightarrow> False | Inr a \<Rightarrow> a \<noteq> [])"

definition hostEnsureNetwork :: "'w hostenv \<Rightarrow> int \<Rightarrow> string \<Rightarrow> 'w Host \<Rightarrow> (err + string) \<times> 'w Host" where
  "hostEnsureNetwork ev dl name st =
     (case findNetwork ev dl name st of
        (Inl e, st1) \<Rightarrow> (Inl (Wrap ''list vmnet networks: %w'' [] e), st1)
      | (Inr a, st1) \<Rightarrow>
          (if a \<noteq> [] then (Inr a, st1)
           else (case rtStep ev dl (\<lambda>rt ctx. rtNetworkCreate rt ctx name) st1 of
                   (Some e, st2) \<Rightarrow> (Inl (Wrap ''create vmnet network %s: %w'' [name] e), st2)
                 | (None, st2) \<Rightarrow>
                     (case waitUntil ev hasAddress (findNetwork ev dl name) (hoClock st2 + 10000) st2 of
                        (r, st3) \<Rightarrow>
                          (if hasAddress r then (r, st3)
                           else (Inl (errorf ''vmnet network %s has no gateway address after creation (%v)'' [name]), st3))))))"

definition CertHasIPSAN :: "'w hostenv \<Rightarrow> string \<Rightarrow> string \<Rightarrow> err + bool" where
  "CertHasIPSAN ev certPEM a =
     (case ParseIP a of
        None \<Rightarrow> Inl (errorf ''invalid ip %q'' [a])
      | Some want \<Rightarrow>
          (case hePem ev certPEM of
             None \<Rightarrow> Inl (errorf ''no PEM block in certificate'' [])
           | Some der \<Rightarrow>
               (case heX509 ev der of
                  None \<Rightarrow> Inl (errorf ''parse certificate: %w'' [])
                | Some sans \<Rightarrow> Inr (want \<in> set sans))))"

definition certPathOf :: "string \<Rightarrow> string" where
  "certPathOf tlsDir = pathJoin [tlsDir, ''server'', ''tls.crt'']"

definition ensureCertSAN :: "'w hostenv \<Rightarrow> string \<Rightarrow> string \<Rightarrow> 'w Host \<Rightarrow> err option \<times> 'w Host" where
  "ensureCertSAN ev tlsDir a st =
     (if (case readFile ev (certPathOf tlsDir) st of
            Some data \<Rightarrow> CertHasIPSAN ev data a = Inr True
          | None \<Rightarrow> False)
      then (None, st)
      else if \<not> heLookPath ev ''openshell-gateway''
      then (Some (errorf ''the gateway certificate at %s does not cover %s and openshell-gateway is not on PATH'' [certPathOf tlsDir, a]), st)
      else (case runCmd ev ''openshell-gateway''
                   [''generate-certs'', ''--output-dir'', tlsDir, ''--server-san'', ''host.openshell.internal'',
                    ''--server-san'', a] st of
              ((True, out), st1) \<Rightarrow> (None, st1)
            | ((False, out), st1) \<Rightarrow> (Some (errorf ''generate-certs failed: %v: %s'' [out]), st1)))"

definition upsertFileBlock :: "'w hostenv \<Rightarrow> string \<Rightarrow> string list \<Rightarrow> 'w Host \<Rightarrow> err option \<times> 'w Host" where
  "upsertFileBlock ev path ls st =
     (case mkdirAll ev (pathDir path) st of
        (Some e, st1) \<Rightarrow> (Some e, st1)
      | (None, st1) \<Rightarrow>
          (let existing = (case readFile ev path st1 of Some d \<Rightarrow> d | None \<Rightarrow> [])
           in osWriteFile ev path (UpsertManagedBlock existing ls) st1))"

text \<open>
  A local registration that points at the IPv6 loopback is rewritten to IPv4: the new data
  and whether it changed.
\<close>

definition jsonBool :: "Struct \<Rightarrow> string \<Rightarrow> bool" where
  "jsonBool m k = (case map_of m k of Some (JBool b) \<Rightarrow> b | _ \<Rightarrow> False)"

definition jsonText :: "Struct \<Rightarrow> string \<Rightarrow> string" where
  "jsonText m k = (case map_of m k of Some (JStr s) \<Rightarrow> s | _ \<Rightarrow> [])"

definition FixLocalGatewayMetadata :: "'w hostenv \<Rightarrow> string \<Rightarrow> err + (string \<times> bool)" where
  "FixLocalGatewayMetadata ev data =
     (case unmarshalAnyMap (heFloat ev) data of
        None \<Rightarrow> Inl (errorf ''json: %v'' [])
      | Some m \<Rightarrow>
          (if jsonBool m ''is_remote'' then Inr (data, False)
           else
             (let endpoint = jsonText m ''gateway_endpoint''
              in case heURL ev endpoint of
                   None \<Rightarrow> Inr (data, False)
                 | Some (host, p) \<Rightarrow>
                     (if host \<noteq> ''::1'' then Inr (data, False)
                      else
                        (let h = JoinHostPort ''127.0.0.1'' (if p = [] then ''17670'' else p);
                             m1 = AList.update ''gateway_endpoint'' (JStr (heURLWith ev endpoint h)) m
                         in Inr (marshalAnyMap m1, True))))))"

definition registrations :: "'w hostenv \<Rightarrow> Setup \<Rightarrow> 'w Host \<Rightarrow> string list" where
  "registrations ev s st =
     (let g = pathJoin [configDir (heEnv ev) s, ''gateways'']
      in filter (\<lambda>p. fileExists p st)
           (map (\<lambda>(n, d). g @ ''/'' @ n @ ''/metadata.json'') (readDir g (hoFs st))))"

definition fixRegistration :: "'w hostenv \<Rightarrow> string \<Rightarrow> 'w Host \<Rightarrow> 'w Host" where
  "fixRegistration ev p st =
     (case readFile ev p st of
        None \<Rightarrow> st
      | Some data \<Rightarrow>
          (case FixLocalGatewayMetadata ev data of
             Inr (fixed, True) \<Rightarrow> snd (osWriteFile ev p fixed st)
           | _ \<Rightarrow> st))"

definition fixCLIRegistrations :: "'w hostenv \<Rightarrow> Setup \<Rightarrow> 'w Host \<Rightarrow> 'w Host" where
  "fixCLIRegistrations ev s st = fold (fixRegistration ev) (registrations ev s st) st"

subsection \<open>The service\<close>

definition serviceGone :: "'w hostenv \<Rightarrow> Setup \<Rightarrow> 'w Host \<Rightarrow> bool \<times> 'w Host" where
  "serviceGone ev s st =
     (case runCmd ev ''launchctl'' [''print'', agentTarget s] st of ((ok, out), st1) \<Rightarrow> (\<not> ok, st1))"

definition socketUp :: "string \<Rightarrow> 'w Host \<Rightarrow> bool \<times> 'w Host" where
  "socketUp sock st = (fileExists sock st, st)"

text \<open>The bootstrap with \<open>k\<close> attempts left and the error of the last one.\<close>

fun bootstrapAgent :: "'w hostenv \<Rightarrow> Setup \<Rightarrow> nat \<Rightarrow> err option \<Rightarrow> 'w Host \<Rightarrow> err option \<times> 'w Host" where
  "bootstrapAgent ev s 0 bootErr st = (bootErr, st)"
| "bootstrapAgent ev s (Suc k) bootErr st =
     (case runCmd ev ''launchctl'' [''bootstrap'', agentDomain s, agentPlistPath s] st of
        ((True, out), st1) \<Rightarrow> (None, st1)
      | ((False, out), st1) \<Rightarrow>
          bootstrapAgent ev s k (Some (errorf ''launchctl bootstrap failed: %v: %s'' [TrimSpace out]))
            (snd (waitFor ev (serviceGone ev s) (stReadyTimeout s) st1)))"

definition writePlist :: "'w hostenv \<Rightarrow> Setup \<Rightarrow> string \<Rightarrow> 'w Host \<Rightarrow> err option \<times> 'w Host" where
  "writePlist ev s tlsDir st =
     (case mkdirAll ev (pathDir (agentLogPath s)) st of
        (Some e, st1) \<Rightarrow> (Some e, st1)
      | (None, st1) \<Rightarrow>
          (case mkdirAll ev (pathDir (agentPlistPath s)) st1 of
             (Some e, st2) \<Rightarrow> (Some e, st2)
           | (None, st2) \<Rightarrow>
               osWriteFile ev (agentPlistPath s) (RenderLaunchAgent (stBinPath s) tlsDir (agentLogPath s)) st2))"

text \<open>The old service goes, the new one is loaded.\<close>

definition reloadAgent :: "'w hostenv \<Rightarrow> Setup \<Rightarrow> 'w Host \<Rightarrow> err option \<times> 'w Host" where
  "reloadAgent ev s st =
     (let st1 = snd (runCmd ev ''launchctl'' [''bootout'', agentTarget s] st);
          st2 = snd (waitFor ev (serviceGone ev s) (stReadyTimeout s) st1)
      in bootstrapAgent ev s 3 None st2)"

text \<open>The driver has to show its socket; one forced restart is tried.\<close>

definition confirmAgent :: "'w hostenv \<Rightarrow> Setup \<Rightarrow> string \<Rightarrow> 'w Host \<Rightarrow> err option \<times> 'w Host" where
  "confirmAgent ev s sock st =
     (case waitFor ev (socketUp sock) (stReadyTimeout s) st of
        (True, st1) \<Rightarrow> (None, st1)
      | (False, st1) \<Rightarrow>
          (let st2 = snd (runCmd ev ''launchctl'' [''kickstart'', ''-k'', agentTarget s] st1)
           in case waitFor ev (socketUp sock) (stReadyTimeout s) st2 of
                (True, st3) \<Rightarrow> (None, st3)
              | (False, st3) \<Rightarrow>
                  (Some (errorf ''driver service did not start; check the log at %s'' [agentLogPath s]), st3)))"

definition installAgent :: "'w hostenv \<Rightarrow> Setup \<Rightarrow> string \<Rightarrow> string \<Rightarrow> 'w Host \<Rightarrow> err option \<times> 'w Host" where
  "installAgent ev s tlsDir sock st =
     (case writePlist ev s tlsDir st of
        (Some e, st1) \<Rightarrow> (Some e, st1)
      | (None, st1) \<Rightarrow>
          (case reloadAgent ev s st1 of
             (Some e, st2) \<Rightarrow> (Some e, st2)
           | (None, st2) \<Rightarrow> confirmAgent ev s sock st2))"

definition gatewayAddr :: string where "gatewayAddr = ''127.0.0.1:17670''"

definition gatewayUp :: "'w hostenv \<Rightarrow> 'w Host \<Rightarrow> bool \<times> 'w Host" where
  "gatewayUp ev st = (heListens ev gatewayAddr (hoWorld st), st)"

definition restartGatewayService :: "'w hostenv \<Rightarrow> Setup \<Rightarrow> 'w Host \<Rightarrow> 'w Host" where
  "restartGatewayService ev s st =
     (if \<not> openShellInstalled ev s st then st
      else (case runCmd ev ''brew'' [''services'', ''restart'', ''openshell''] st of
              ((False, out), st1) \<Rightarrow> st1
            | ((True, out), st1) \<Rightarrow> snd (waitFor ev (gatewayUp ev) 30000 st1)))"

definition pullOne :: "'w hostenv \<Rightarrow> string list \<Rightarrow> string \<Rightarrow> 'w Host \<Rightarrow> 'w Host" where
  "pullOne ev present ref st =
     (if ref = [] \<or> ref \<in> set present then st
      else snd (runCmd ev ''container'' [''image'', ''pull'', ref, ''--platform'', ''linux/arm64''] st))"

definition pullImages :: "'w hostenv \<Rightarrow> int \<Rightarrow> Options \<Rightarrow> 'w Host \<Rightarrow> 'w Host" where
  "pullImages ev dl opts st =
     (let (r, st1) = rtStep ev dl rtImageList st;
          present = (case r of Inl _ \<Rightarrow> [] | Inr imgs \<Rightarrow> map imReference imgs)
      in fold (pullOne ev present) [opDefaultImage opts, opSupervisorImage opts] st1)"

text \<open>What follows the last colon of an image reference.\<close>

definition imageTag :: "string \<Rightarrow> string" where
  "imageTag ref = (case LastIndex ref (CHR '':'') of None \<Rightarrow> ref | Some i \<Rightarrow> drop (Suc i) ref)"

text \<open>
  \<open>logVersions\<close>: the versions it logs (driver, gateway, runtime), the findings, \<open>None\<close> for a
  panic, and whether it warns that the supervisor does not match the gateway.
\<close>

record versionReport =
  vrVersions :: "string list"
  vrFindings :: "Finding list option"
  vrMismatch :: bool

definition logVersions :: "'w hostenv \<Rightarrow> Options \<Rightarrow> 'w Host \<Rightarrow> versionReport \<times> 'w Host" where
  "logVersions ev opts st =
     (let (gwVer, st1) = probeVersion ev ''openshell-gateway'' st;
          (acVer, st2) = probeVersion ev ''container'' st1;
          fs = (case (CheckAppleContainer acVer, CheckOpenShell gwVer) of
                  (Some f, Some g) \<Rightarrow> Some (filter (\<lambda>x. fLevel x = ''warn'' \<or> fLevel x = ''error'') (f @ g))
                | _ \<Rightarrow> None)
      in (\<lparr>vrVersions = [orUnknown (opDriverVersion opts), orUnknown gwVer, orUnknown acVer],
           vrFindings = fs,
           vrMismatch = (gwVer \<noteq> [] \<and> opSupervisorImage opts \<noteq> [] \<and> imageTag (opSupervisorImage opts) \<noteq> gwVer)\<rparr>, st2))"

definition startRuntime :: "'w hostenv \<Rightarrow> int \<Rightarrow> 'w Host \<Rightarrow> err option \<times> 'w Host" where
  "startRuntime ev dl st =
     (case rtStep ev dl rtNetworks st of
        (Inr ns, st1) \<Rightarrow> (None, st1)
      | (Inl e, st1) \<Rightarrow>
          (case rtStep ev dl rtSystemStart st1 of
             (None, st2) \<Rightarrow> (None, st2)
           | (Some e', st2) \<Rightarrow>
               (Some (Wrap ''the apple/container runtime is not available (install it from https://github.com/apple/container): %w'' [] e'), st2)))"

text \<open>The last steps cannot fail.\<close>

definition setupTail :: "'w hostenv \<Rightarrow> Setup \<Rightarrow> int \<Rightarrow> Options \<Rightarrow> 'w Host \<Rightarrow> 'w Host" where
  "setupTail ev s dl opts st =
     (let st1 = restartGatewayService ev s st;
          st2 = (if opPullImages opts then pullImages ev dl opts st1 else st1)
      in snd (logVersions ev opts st2))"

text \<open>\<open>Run\<close>; \<open>dl\<close> is when its context expires.\<close>

definition setupRun :: "'w hostenv \<Rightarrow> Setup \<Rightarrow> int \<Rightarrow> Options \<Rightarrow> 'w Host \<Rightarrow> err option \<times> 'w Host" where
  "setupRun ev s dl opts st =
     (case startRuntime ev dl st of
        (Some e, st1) \<Rightarrow> (Some e, st1)
      | (None, st1) \<Rightarrow>
          (case hostEnsureNetwork ev dl (opNetwork opts) (ensureKernel ev s st1) of
             (Inl e, st2) \<Rightarrow> (Some e, st2)
           | (Inr a, st2) \<Rightarrow>
               (let tlsDir = tlsDirOf ev (opTLSDir opts) st2
                in case ensureCertSAN ev tlsDir a st2 of
                     (Some e, st3) \<Rightarrow> (Some e, st3)
                   | (None, st3) \<Rightarrow>
                       (case upsertFileBlock ev (gatewayEnvPath (heEnv ev) s) (GatewayEnvLines (opSocket opts) tlsDir) st3 of
                          (Some e, st4) \<Rightarrow> (Some (Wrap ''write %s: %w'' [gatewayEnvPath (heEnv ev) s] e), st4)
                        | (None, st4) \<Rightarrow>
                            (case installAgent ev s tlsDir (opSocket opts) (fixCLIRegistrations ev s st4) of
                               (Some e, st5) \<Rightarrow> (Some e, st5)
                             | (None, st5) \<Rightarrow> (None, setupTail ev s dl opts st5))))))"

subsection \<open>Cleanup\<close>

record CleanupOptions =
  coDeleteData :: bool
  coAll :: bool
  coNetwork :: string
  coSocket :: string
  coStateDir :: string
  coDefaultImage :: string
  coSupervisorImage :: string

definition removeImage :: "'w hostenv \<Rightarrow> string \<Rightarrow> 'w Host \<Rightarrow> 'w Host" where
  "removeImage ev ref st =
     (if ref = [] then st else snd (runCmd ev ''container'' [''image'', ''rm'', ref] st))"

definition deleteDriverData :: "'w hostenv \<Rightarrow> CleanupOptions \<Rightarrow> 'w Host \<Rightarrow> 'w Host" where
  "deleteDriverData ev opts st =
     (let st1 = (if coStateDir opts \<noteq> [] then osRemoveAll ev (coStateDir opts) st else st);
          st2 = (if coSocket opts \<noteq> [] then osRemoveAll ev (pathDir (coSocket opts)) st1 else st1);
          st3 = fold (removeImage ev) [coDefaultImage opts, coSupervisorImage opts] st2
      in if coNetwork opts \<noteq> [] then snd (runCmd ev ''container'' [''network'', ''rm'', coNetwork opts] st3) else st3)"

definition removeContainerRuntime :: "'w hostenv \<Rightarrow> Setup \<Rightarrow> bool \<Rightarrow> 'w Host \<Rightarrow> 'w Host" where
  "removeContainerRuntime ev s deleteData st =
     (if stACUninstaller s = [] \<or> \<not> fileExists (stACUninstaller s) st then st
      else (let st1 = snd (runCmd ev ''container'' [''system'', ''stop''] st)
            in snd (runCmd ev (stACUninstaller s) [if deleteData then ''-d'' else ''-k''] st1)))"

definition removePrerequisites :: "'w hostenv \<Rightarrow> Setup \<Rightarrow> CleanupOptions \<Rightarrow> 'w Host \<Rightarrow> 'w Host" where
  "removePrerequisites ev s opts st =
     (let st1 = (if openShellInstalled ev s st then snd (runCmd ev ''brew'' [''uninstall'', ''openshell''] st) else st);
          dirs = configDir (heEnv ev) s # (if stOpenShellVarDir s \<noteq> [] then [stOpenShellVarDir s] else []);
          st2 = (if coDeleteData opts then fold (osRemoveAll ev) dirs st1 else st1)
      in removeContainerRuntime ev s (coDeleteData opts) st2)"

definition unwireGateway :: "'w hostenv \<Rightarrow> Setup \<Rightarrow> 'w Host \<Rightarrow> err option \<times> 'w Host" where
  "unwireGateway ev s st =
     (let p = gatewayEnvPath (heEnv ev) s
      in case readFile ev p st of
           None \<Rightarrow> (None, st)
         | Some data \<Rightarrow>
             (let rest = RemoveManagedBlock data
              in if rest = [] \<or> rest = HostWiring.nl then (None, snd (osRemove ev p st))
                 else osWriteFile ev p rest st))"

definition stopGateway :: "'w hostenv \<Rightarrow> Setup \<Rightarrow> 'w Host \<Rightarrow> 'w Host" where
  "stopGateway ev s st =
     (if openShellInstalled ev s st then snd (runCmd ev ''brew'' [''services'', ''stop'', ''openshell''] st) else st)"

definition Cleanup :: "'w hostenv \<Rightarrow> Setup \<Rightarrow> CleanupOptions \<Rightarrow> 'w Host \<Rightarrow> err option \<times> 'w Host" where
  "Cleanup ev s opts st =
     (let st1 = snd (runCmd ev ''launchctl'' [''bootout'', agentTarget s] st)
      in case osRemove ev (agentPlistPath s) st1 of
           (e, st2) \<Rightarrow>
             (if e \<noteq> None \<and> \<not> isNotFoundErr (the e) then (e, st2)
              else (case unwireGateway ev s st2 of
                      (Some e', st3) \<Rightarrow> (Some e', st3)
                    | (None, st3) \<Rightarrow>
                        (let st4 = stopGateway ev s st3;
                             st5 = (if coDeleteData opts then deleteDriverData ev opts st4 else st4)
                         in (None, if coAll opts then removePrerequisites ev s opts st5 else st5)))))"

subsection \<open>What commands leave alone\<close>

definition nodeAt :: "string \<Rightarrow> 'w Host \<Rightarrow> node option" where
  "nodeAt p st = map_of (hoFs st) p"

definition fileText :: "string \<Rightarrow> 'w Host \<Rightarrow> string option" where
  "fileText p st = (case nodeAt p st of Some (FileN _ (Bytes b)) \<Rightarrow> Some b | _ \<Rightarrow> None)"

text \<open>Neither commands nor the passing of time touch the file.\<close>

definition keepsFile :: "'w hostenv \<Rightarrow> string \<Rightarrow> bool" where
  "keepsFile ev p \<longleftrightarrow>
     (\<forall>name args w fs. map_of (snd (snd (heExec ev name args (w, fs)))) p = map_of fs p)
     \<and> (\<forall>w fs. map_of (snd (hePass ev (w, fs))) p = map_of fs p)"

lemma nodeAt_runCmd [frame_simps]: "keepsFile ev p \<Longrightarrow> nodeAt p (snd (runCmd ev name args st)) = nodeAt p st"
proof -
  assume "keepsFile ev p"
  then have "map_of (snd (snd (heExec ev name args (hoWorld st, hoFs st)))) p = map_of (hoFs st) p"
    unfolding keepsFile_def by blast
  then show ?thesis by (auto simp: nodeAt_def runCmd_def split: prod.splits)
qed

lemma nodeAt_rtStep [frame_simps]: "nodeAt p (snd (rtStep ev dl f st)) = nodeAt p st"
  by (simp add: nodeAt_def rtStep_def split: prod.splits)

lemma nodeAt_sleep: "keepsFile ev p \<Longrightarrow> nodeAt p (sleep250 ev t st) = nodeAt p st"
proof -
  assume "keepsFile ev p"
  then have "map_of (snd (hePass ev (hoWorld st, hoFs st))) p = map_of (hoFs st) p"
    unfolding keepsFile_def by blast
  then show ?thesis by (auto simp: nodeAt_def sleep250_def split: prod.splits)
qed

lemma nodeAt_waitUntil:
  assumes k: "keepsFile ev p" and probe: "\<And>st. nodeAt p (snd (probe st)) = nodeAt p st"
  shows "nodeAt p (snd (waitUntil ev good probe deadline st)) = nodeAt p st"
  using k probe
proof (induction ev good probe deadline st rule: waitUntil.induct)
  case (1 ev good probe deadline st)
  obtain a st1 where p: "probe st = (a, st1)" by fastforce
  show ?case
  proof (cases "hoClock st < deadline \<and> \<not> good a")
    case True
    then have "nodeAt p (snd (waitUntil ev good probe deadline st)) = nodeAt p (sleep250 ev (hoClock st) st1)"
      using "1.IH" [OF _ p [symmetric] refl _ "1.prems"] by (simp add: waitUntil.simps [of ev good probe deadline st] p)
    then show ?thesis using nodeAt_sleep [OF "1.prems"(1)] "1.prems"(2) [of st] p by simp
  next
    case False
    then show ?thesis using "1.prems"(2) [of st] by (auto simp: waitUntil.simps [of ev good probe deadline st] p)
  qed
qed

lemma nodeAt_waitFor [frame_simps]:
  "keepsFile ev p \<Longrightarrow> (\<And>st. nodeAt p (snd (probe st)) = nodeAt p st) \<Longrightarrow>
     nodeAt p (snd (waitFor ev probe timeout st)) = nodeAt p st"
  unfolding waitFor_def by (rule nodeAt_waitUntil)

lemma nodeAt_mkdirAll: "nodeAt p st = Some n \<Longrightarrow> nodeAt p (snd (mkdirAll ev d st)) = Some n"
  by (simp add: nodeAt_def mkdirAll_def map_of_mkdirs)

lemma nodeAt_writeFile:
  "writeFile io mode q b e0 fs = (e, fs') \<Longrightarrow> p \<noteq> q \<Longrightarrow> map_of fs' p = map_of fs p"
  by (auto simp: writeFile_def openTrunc_def split: if_splits option.splits node.splits)

lemma nodeAt_osWriteFile: "p \<noteq> q \<Longrightarrow> nodeAt p (snd (osWriteFile ev q b st)) = nodeAt p st"
  by (cases "writeFile (heIo ev) mode600 q b (errorf ''write'' [q]) (hoFs st)")
    (simp add: nodeAt_def osWriteFile_def nodeAt_writeFile)

lemma osWriteFile_ok:
  "osWriteFile ev p b st = (None, st') \<Longrightarrow>
     fileText p st' = Some b \<and> (\<forall>m. nodeAt p st \<noteq> Some (DirN m)) \<and> hoTrace st' = hoTrace st"
  by (auto simp: fileText_def nodeAt_def osWriteFile_def writeFile_def openTrunc_def isDirNode_def
      split: prod.splits if_splits option.splits node.splits)

lemma nodeAt_osRemove: "p \<noteq> q \<Longrightarrow> nodeAt p (snd (osRemove ev q st)) = nodeAt p st"
  by (simp add: nodeAt_def osRemove_def)

lemma fold_keeps: "(\<And>x st. x \<in> set xs \<Longrightarrow> h (f x st) = h st) \<Longrightarrow> h (fold f xs st) = h st"
  by (induction xs arbitrary: st) simp_all

lemma nodeAt_probes [frame_simps]:
  assumes "keepsFile ev p"
  shows "nodeAt p (snd (serviceGone ev s st)) = nodeAt p st"
    "nodeAt p (snd (socketUp sock st)) = nodeAt p st"
    "nodeAt p (snd (gatewayUp ev st)) = nodeAt p st"
    "nodeAt p (snd (probeVersion ev bin st)) = nodeAt p st"
  using nodeAt_runCmd [OF assms, of "''launchctl''" "[''print'', agentTarget s]" st]
    nodeAt_runCmd [OF assms, of bin "[''--version'']" st]
  by (auto simp: serviceGone_def socketUp_def gatewayUp_def probeVersion_def split: prod.splits)

lemma nodeAt_findNetwork [frame_simps]: "nodeAt p (snd (findNetwork ev dl name st)) = nodeAt p st"
  using nodeAt_rtStep [of p ev dl rtNetworks st] by (auto simp: findNetwork_def split: prod.splits sum.splits)

lemma nodeAt_ensureKernel [frame_simps]: "keepsFile ev p \<Longrightarrow> nodeAt p (ensureKernel ev s st) = nodeAt p st"
  by (simp add: ensureKernel_def nodeAt_runCmd)

lemma nodeAt_startRuntime [frame_simps]: "nodeAt p (snd (startRuntime ev dl st)) = nodeAt p st"
proof -
  obtain r st1 where 1: "rtStep ev dl rtNetworks st = (r, st1)" by fastforce
  obtain e st2 where 2: "rtStep ev dl rtSystemStart st1 = (e, st2)" by fastforce
  show ?thesis using nodeAt_rtStep [of p ev dl rtNetworks st] nodeAt_rtStep [of p ev dl rtSystemStart st1]
    by (auto simp: startRuntime_def 1 2 split: sum.splits option.splits)
qed

lemma nodeAt_hostEnsureNetwork [frame_simps]:
  assumes "keepsFile ev p"
  shows "nodeAt p (snd (hostEnsureNetwork ev dl name st)) = nodeAt p st"
proof -
  obtain r st1 where 1: "findNetwork ev dl name st = (r, st1)" by fastforce
  obtain e st2 where 2: "rtStep ev dl (\<lambda>rt ctx. rtNetworkCreate rt ctx name) st1 = (e, st2)" by fastforce
  obtain r3 st3 where 3: "waitUntil ev hasAddress (findNetwork ev dl name) (hoClock st2 + 10000) st2 = (r3, st3)" by fastforce
  have "nodeAt p st1 = nodeAt p st" using nodeAt_findNetwork [of p ev dl name st] 1 by simp
  moreover have "nodeAt p st2 = nodeAt p st1" using nodeAt_rtStep [of p ev dl _ st1] 2 by (metis snd_conv)
  moreover have "nodeAt p st3 = nodeAt p st2"
    using nodeAt_waitUntil [OF assms, of "findNetwork ev dl name"] 3 by (metis nodeAt_findNetwork snd_conv)
  ultimately show ?thesis by (auto simp: hostEnsureNetwork_def 1 2 3 split: sum.split option.split)
qed

lemma nodeAt_ensureCertSAN [frame_simps]:
  "keepsFile ev p \<Longrightarrow> nodeAt p (snd (ensureCertSAN ev tlsDir a st)) = nodeAt p st"
  using nodeAt_runCmd [of ev p "''openshell-gateway''"]
  by (auto simp: ensureCertSAN_def split: prod.splits bool.splits) (metis snd_conv)+

lemma nodeAt_bootstrap [frame_simps]:
  "keepsFile ev p \<Longrightarrow> nodeAt p (snd (bootstrapAgent ev s k e st)) = nodeAt p st"
proof (induction k arbitrary: e st)
  case (Suc k)
  obtain b out st1 where c: "runCmd ev ''launchctl'' [''bootstrap'', agentDomain s, agentPlistPath s] st = ((b, out), st1)"
    by (metis prod.exhaust_sel)
  then have "nodeAt p st1 = nodeAt p st" using nodeAt_runCmd [OF Suc.prems] by (metis snd_conv)
  then show ?case using Suc by (cases b) (simp_all add: c frame_simps)
qed simp

lemma nodeAt_reload [frame_simps]: "keepsFile ev p \<Longrightarrow> nodeAt p (snd (reloadAgent ev s st)) = nodeAt p st"
  by (simp add: reloadAgent_def Let_def frame_simps)

lemma nodeAt_confirm [frame_simps]: "keepsFile ev p \<Longrightarrow> nodeAt p (snd (confirmAgent ev s sock st)) = nodeAt p st"
proof -
  assume k: "keepsFile ev p"
  obtain b st1 where 1: "waitFor ev (socketUp sock) (stReadyTimeout s) st = (b, st1)" by fastforce
  define st2 where "st2 = snd (runCmd ev ''launchctl'' [''kickstart'', ''-k'', agentTarget s] st1)"
  obtain b3 st3 where 3: "waitFor ev (socketUp sock) (stReadyTimeout s) st2 = (b3, st3)" by fastforce
  have w: "nodeAt p (snd (waitFor ev (socketUp sock) t x)) = nodeAt p x" for t x using k by (simp add: frame_simps)
  have "nodeAt p st1 = nodeAt p st" "nodeAt p st3 = nodeAt p st2" using w 1 3 by (metis snd_conv)+
  moreover have "nodeAt p st2 = nodeAt p st1" using k by (simp add: st2_def frame_simps)
  ultimately show ?thesis by (simp add: confirmAgent_def 1 Let_def st2_def [symmetric] 3 split: bool.split)
qed

lemma nodeAt_restart [frame_simps]: "keepsFile ev p \<Longrightarrow> nodeAt p (restartGatewayService ev s st) = nodeAt p st"
proof -
  assume k: "keepsFile ev p"
  obtain b out st1 where c: "runCmd ev ''brew'' [''services'', ''restart'', ''openshell''] st = ((b, out), st1)"
    by (metis prod.exhaust_sel)
  then have "nodeAt p st1 = nodeAt p st" using nodeAt_runCmd [OF k] by (metis snd_conv)
  then show ?thesis using k by (simp add: restartGatewayService_def c frame_simps split: bool.split)
qed

lemma nodeAt_pull [frame_simps]: "keepsFile ev p \<Longrightarrow> nodeAt p (pullImages ev dl opts st) = nodeAt p st"
proof -
  assume k: "keepsFile ev p"
  obtain r st1 where 1: "rtStep ev dl rtImageList st = (r, st1)" by fastforce
  have "nodeAt p (pullOne ev present ref x) = nodeAt p x" for present ref x
    using k by (simp add: pullOne_def frame_simps)
  then show ?thesis using nodeAt_rtStep [of p ev dl rtImageList st] by (simp add: pullImages_def 1 Let_def)
qed

lemma nodeAt_logVersions [frame_simps]: "keepsFile ev p \<Longrightarrow> nodeAt p (snd (logVersions ev opts st)) = nodeAt p st"
proof -
  assume k: "keepsFile ev p"
  obtain v st1 where 1: "probeVersion ev ''openshell-gateway'' st = (v, st1)" by fastforce
  obtain w st2 where 2: "probeVersion ev ''container'' st1 = (w, st2)" by fastforce
  have "nodeAt p (snd (probeVersion ev ''openshell-gateway'' st)) = nodeAt p st"
    "nodeAt p (snd (probeVersion ev ''container'' st1)) = nodeAt p st1" using k by (simp_all add: frame_simps)
  then show ?thesis by (simp add: logVersions_def 1 2 Let_def)
qed

lemma nodeAt_tail [frame_simps]: "keepsFile ev p \<Longrightarrow> nodeAt p (setupTail ev s dl opts st) = nodeAt p st"
  by (simp add: setupTail_def Let_def frame_simps)

subsection \<open>What setup leaves\<close>

lemma joinWith_nonempty: "\<forall>e \<in> set es. e \<noteq> [] \<Longrightarrow> joinWith sep es = [] \<Longrightarrow> es = []"
  by (induction sep es rule: joinWith.induct) auto

lemma pathJoin_Clean:
  "filter (\<lambda>e. e \<noteq> []) es \<noteq> [] \<Longrightarrow> pathJoin es = Clean (joinWith ''/'' (filter (\<lambda>e. e \<noteq> []) es))"
  by (cases "filter (\<lambda>e. e \<noteq> []) es") (simp_all add: pathJoin_def)

lemma pathJoin_last:
  assumes "normComp n"
  shows "last (pathJoin (ds @ [n])) = last n"
proof -
  define d where "d = joinWith ''/'' (filter (\<lambda>e. e \<noteq> []) ds)"
  have n: "n \<noteq> []" using assms by (simp add: normComp_def)
  have "d = [] \<longleftrightarrow> filter (\<lambda>e. e \<noteq> []) ds = []"
    using joinWith_nonempty [of "filter (\<lambda>e. e \<noteq> []) ds" "''/''"] by (auto simp: d_def)
  then have "pathJoin (ds @ [n]) = pathJoin [d, n]"
    using n by (cases "filter (\<lambda>e. e \<noteq> []) ds = []") (simp_all add: pathJoin_Clean joinWith_snoc d_def)
  then show ?thesis using n by (simp add: pathJoin_base [OF assms])
qed

lemma last_paths:
  "last (gatewayEnvPath env s) = CHR ''v''" "last (agentPlistPath s) = CHR ''t''"
proof -
  have "normComp ''gateway.env''" by code_simp
  from pathJoin_last [OF this, of "[configDir env s]"] show "last (gatewayEnvPath env s) = CHR ''v''"
    by (simp add: gatewayEnvPath_def)
  have "normComp (AgentLabel @ ''.plist'')" by code_simp
  from pathJoin_last [OF this, of "[stHome s, ''Library'', ''LaunchAgents'']"]
  show "last (agentPlistPath s) = CHR ''t''" by (simp add: agentPlistPath_def)
qed

lemma paths_differ [simp]:
  "gatewayEnvPath env s \<noteq> agentPlistPath s" "agentPlistPath s \<noteq> gatewayEnvPath env s"
proof -
  show "gatewayEnvPath env s \<noteq> agentPlistPath s"
  proof
    assume "gatewayEnvPath env s = agentPlistPath s"
    then show False using last_paths(1) [of env s] last_paths(2) [of s] by simp
  qed
  then show "agentPlistPath s \<noteq> gatewayEnvPath env s" by (rule not_sym)
qed

lemma registrations_last: "q \<in> set (registrations ev s st) \<Longrightarrow> last q = CHR ''n''"
  by (auto simp: registrations_def Let_def)

lemma nodeAt_fixRegistration: "p \<noteq> q \<Longrightarrow> nodeAt p (fixRegistration ev q st) = nodeAt p st"
  by (auto simp: fixRegistration_def nodeAt_osWriteFile split: option.split sum.split prod.split bool.split)

lemma nodeAt_fixCLI: "last p \<noteq> CHR ''n'' \<Longrightarrow> nodeAt p (fixCLIRegistrations ev s st) = nodeAt p st"
  unfolding fixCLIRegistrations_def
  by (rule fold_keeps) (metis nodeAt_fixRegistration registrations_last)

text \<open>The text a file has for the program, empty when it cannot be read.\<close>

definition textOr :: "'w hostenv \<Rightarrow> string \<Rightarrow> 'w Host \<Rightarrow> string" where
  "textOr ev p st = (case readFile ev p st of Some d \<Rightarrow> d | None \<Rightarrow> [])"

lemma textOr_cong: "nodeAt p st = nodeAt p st' \<Longrightarrow> textOr ev p st = textOr ev p st'"
  by (simp add: textOr_def readFile_def nodeAt_def)

lemma upsertFileBlock_ok:
  assumes "upsertFileBlock ev p ls st = (None, st')"
  shows "fileText p st' = Some (UpsertManagedBlock (textOr ev p st) ls)"
proof -
  obtain st1 where 1: "mkdirAll ev (pathDir p) st = (None, st1)"
    and 2: "osWriteFile ev p (UpsertManagedBlock (textOr ev p st1) ls) st1 = (None, st')"
    using assms by (auto simp: upsertFileBlock_def textOr_def Let_def split: prod.splits option.splits)
  have d: "nodeAt p st1 \<noteq> Some (DirN m)" for m using osWriteFile_ok [OF 2] by blast
  have "nodeAt p st1 = nodeAt p st"
    using 1 d [of mode700] by (auto simp: mkdirAll_def nodeAt_def map_of_mkdirs split: if_splits option.splits)
  then show ?thesis using osWriteFile_ok [OF 2] textOr_cong [of p st1 st ev] by simp
qed

lemma writePlist_ok:
  assumes "writePlist ev s tlsDir st = (None, st')"
  shows "fileText (agentPlistPath s) st' = Some (RenderLaunchAgent (stBinPath s) tlsDir (agentLogPath s))"
    and "nodeAt p st = Some n \<Longrightarrow> p \<noteq> agentPlistPath s \<Longrightarrow> nodeAt p st' = Some n"
proof -
  obtain st1 st2 where 1: "mkdirAll ev (pathDir (agentLogPath s)) st = (None, st1)"
    and 2: "mkdirAll ev (pathDir (agentPlistPath s)) st1 = (None, st2)"
    and 3: "osWriteFile ev (agentPlistPath s) (RenderLaunchAgent (stBinPath s) tlsDir (agentLogPath s)) st2 = (None, st')"
    using assms by (auto simp: writePlist_def split: prod.splits option.splits)
  show "fileText (agentPlistPath s) st' = Some (RenderLaunchAgent (stBinPath s) tlsDir (agentLogPath s))"
    using osWriteFile_ok [OF 3] by blast
  show "nodeAt p st' = Some n" if "nodeAt p st = Some n" "p \<noteq> agentPlistPath s"
    using nodeAt_mkdirAll [OF that(1), of ev "pathDir (agentLogPath s)"] nodeAt_mkdirAll [of p st1 n ev "pathDir (agentPlistPath s)"]
      nodeAt_osWriteFile [OF that(2), of ev _ st2] 1 2 3 by (metis snd_conv)
qed

lemma waitUntil_answer:
  "waitUntil ev good probe deadline st = (a, st') \<Longrightarrow> \<exists>st0. probe st0 = (a, st') \<and> (good a \<or> deadline \<le> hoClock st0)"
proof (induction ev good probe deadline st rule: waitUntil.induct)
  case (1 ev good probe deadline st)
  show ?case
  proof (cases "hoClock st < deadline \<and> \<not> good (fst (probe st))")
    case True
    then show ?thesis using 1 by (cases "probe st") (simp add: waitUntil.simps [of ev good probe deadline st])
  next
    case False
    then show ?thesis using "1.prems"
      by (cases "probe st") (force simp: waitUntil.simps [of ev good probe deadline st] split: if_splits)
  qed
qed

lemma waitFor_True:
  "waitFor ev (socketUp sock) t st = (True, st') \<Longrightarrow> fileExists sock st'"
  unfolding waitFor_def by (drule waitUntil_answer) (auto simp: socketUp_def)

lemma confirmAgent_ok: "confirmAgent ev s sock st = (None, st') \<Longrightarrow> fileExists sock st'"
  by (auto simp: confirmAgent_def Let_def split: prod.splits bool.splits dest: waitFor_True)

lemma installAgent_ok:
  assumes "installAgent ev s tlsDir sock st = (None, st')" and "keepsFile ev (agentPlistPath s)"
  shows "fileText (agentPlistPath s) st' = Some (RenderLaunchAgent (stBinPath s) tlsDir (agentLogPath s))"
    and "fileExists sock st'"
    and "nodeAt p st = Some n \<Longrightarrow> p \<noteq> agentPlistPath s \<Longrightarrow> keepsFile ev p \<Longrightarrow> nodeAt p st' = Some n"
proof -
  obtain st1 st2 where 1: "writePlist ev s tlsDir st = (None, st1)" and 2: "reloadAgent ev s st1 = (None, st2)"
    and 3: "confirmAgent ev s sock st2 = (None, st')"
    using assms(1) by (auto simp: installAgent_def split: prod.splits option.splits)
  have k: "nodeAt q st' = nodeAt q st1" if "keepsFile ev q" for q
    using nodeAt_reload [OF that, of s st1] nodeAt_confirm [OF that, of s sock st2] 2 3 by simp
  show "fileText (agentPlistPath s) st' = Some (RenderLaunchAgent (stBinPath s) tlsDir (agentLogPath s))"
    using writePlist_ok(1) [OF 1] k [OF assms(2)] by (simp add: fileText_def)
  show "fileExists sock st'" using confirmAgent_ok [OF 3] .
  show "nodeAt p st = Some n \<Longrightarrow> p \<noteq> agentPlistPath s \<Longrightarrow> keepsFile ev p \<Longrightarrow> nodeAt p st' = Some n"
    using writePlist_ok(2) [OF 1] k by simp
qed

lemma findNetwork_ok: "findNetwork ev dl name st = (Inr a, st') \<Longrightarrow> a \<noteq> [] \<Longrightarrow>
    \<exists>ns. fst (rtStep ev dl rtNetworks st) = Inr ns \<and> gatewayOf name ns = Some a"
  by (auto simp: findNetwork_def split: prod.splits sum.splits option.splits)

text \<open>The address setup uses is that of the network, in the last listing it took.\<close>

lemma hostEnsureNetwork_ok:
  assumes "hostEnsureNetwork ev dl name st = (Inr a, st')"
  shows "\<exists>st0 ns. fst (rtStep ev dl rtNetworks st0) = Inr ns \<and> gatewayOf name ns = Some a \<and> a \<noteq> []"
proof -
  have "\<exists>st0 st1. findNetwork ev dl name st0 = (Inr a, st1) \<and> a \<noteq> []"
    using assms
    by (auto simp: hostEnsureNetwork_def hasAddress_def split: prod.splits sum.splits option.splits if_splits
        dest!: waitUntil_answer)
  then show ?thesis using findNetwork_ok by blast
qed

lemma setupRun_split:
  assumes "setupRun ev s dl opts st = (None, st')"
  obtains st3 st4 st5 tlsDir where
    "\<And>p. keepsFile ev p \<Longrightarrow> nodeAt p st3 = nodeAt p st"
    "opTLSDir opts \<noteq> [] \<Longrightarrow> tlsDir = opTLSDir opts"
    "upsertFileBlock ev (gatewayEnvPath (heEnv ev) s) (GatewayEnvLines (opSocket opts) tlsDir) st3 = (None, st4)"
    "installAgent ev s tlsDir (opSocket opts) (fixCLIRegistrations ev s st4) = (None, st5)"
    "st' = setupTail ev s dl opts st5"
proof -
  obtain st1 a st2 where 1: "startRuntime ev dl st = (None, st1)"
    and 2: "hostEnsureNetwork ev dl (opNetwork opts) (ensureKernel ev s st1) = (Inr a, st2)"
    using assms by (auto simp: setupRun_def split: prod.splits option.splits sum.splits)
  define tlsDir where "tlsDir = tlsDirOf ev (opTLSDir opts) st2"
  obtain st3 st4 st5 where 3: "ensureCertSAN ev tlsDir a st2 = (None, st3)"
    and 4: "upsertFileBlock ev (gatewayEnvPath (heEnv ev) s) (GatewayEnvLines (opSocket opts) tlsDir) st3 = (None, st4)"
    and 5: "installAgent ev s tlsDir (opSocket opts) (fixCLIRegistrations ev s st4) = (None, st5)"
    and st': "st' = setupTail ev s dl opts st5"
    using assms by (auto simp: setupRun_def 1 2 Let_def tlsDir_def split: prod.splits option.splits)
  show ?thesis
  proof (rule that [OF _ _ 4 5 st'])
    show "nodeAt p st3 = nodeAt p st" if "keepsFile ev p" for p
      using nodeAt_startRuntime [of p ev dl st] nodeAt_hostEnsureNetwork [OF that, of dl "opNetwork opts" "ensureKernel ev s st1"]
        nodeAt_ensureCertSAN [OF that, of tlsDir a st2] nodeAt_ensureKernel [OF that, of s st1] 1 2 3 by simp
    show "opTLSDir opts \<noteq> [] \<Longrightarrow> tlsDir = opTLSDir opts" by (simp add: tlsDir_def tlsDirOf_def)
  qed
qed

lemma setup_wired:
  assumes "setupRun ev s dl opts st = (None, st')"
    and "keepsFile ev (gatewayEnvPath (heEnv ev) s)" and "keepsFile ev (agentPlistPath s)"
  shows "\<exists>tlsDir. (opTLSDir opts = [] \<or> tlsDir = opTLSDir opts)
    \<and> fileText (gatewayEnvPath (heEnv ev) s) st' =
        Some (UpsertManagedBlock (textOr ev (gatewayEnvPath (heEnv ev) s) st) (GatewayEnvLines (opSocket opts) tlsDir))
    \<and> fileText (agentPlistPath s) st' = Some (RenderLaunchAgent (stBinPath s) tlsDir (agentLogPath s))
    \<and> (\<exists>st5. fileExists (opSocket opts) st5 \<and> st' = setupTail ev s dl opts st5)"
proof -
  let ?E = "gatewayEnvPath (heEnv ev) s"
  obtain st3 st4 st5 tlsDir where 3: "\<And>p. keepsFile ev p \<Longrightarrow> nodeAt p st3 = nodeAt p st"
    and t: "opTLSDir opts \<noteq> [] \<Longrightarrow> tlsDir = opTLSDir opts"
    and 4: "upsertFileBlock ev ?E (GatewayEnvLines (opSocket opts) tlsDir) st3 = (None, st4)"
    and 5: "installAgent ev s tlsDir (opSocket opts) (fixCLIRegistrations ev s st4) = (None, st5)"
    and st': "st' = setupTail ev s dl opts st5"
    by (rule setupRun_split [OF assms(1)]) blast
  have e: "fileText ?E st4 = Some (UpsertManagedBlock (textOr ev ?E st) (GatewayEnvLines (opSocket opts) tlsDir))"
    using upsertFileBlock_ok [OF 4] textOr_cong [OF 3 [OF assms(2)]] by simp
  then obtain n where n: "nodeAt ?E st4 = Some n" by (auto simp: fileText_def split: option.splits)
  then have "nodeAt ?E (fixCLIRegistrations ev s st4) = Some n" using nodeAt_fixCLI [of ?E ev s st4] last_paths(1) [of "heEnv ev" s] by simp
  then have "nodeAt ?E st5 = Some n" using installAgent_ok(3) [OF 5 assms(3)] assms(2) by simp
  then have "fileText ?E st' = fileText ?E st4"
    using nodeAt_tail [OF assms(2), of s dl opts st5] n by (simp add: fileText_def st')
  moreover have "fileText (agentPlistPath s) st' = Some (RenderLaunchAgent (stBinPath s) tlsDir (agentLogPath s))"
    using installAgent_ok(1) [OF 5 assms(3)] nodeAt_tail [OF assms(3), of s dl opts st5] by (simp add: fileText_def st')
  ultimately show ?thesis using e t installAgent_ok(2) [OF 5 assms(3)] st' by metis
qed

text \<open>
  A setup that succeeded has wired the host: the gateway's settings file is the old one
  with the block that selects this driver and its socket, the launch agent starts this binary
  with the same certificates, and the driver's socket was there when the agent had been
  loaded.
\<close>

theorem setup_wires:
  assumes "setupRun ev s dl opts st = (None, st')"
    and "keepsFile ev (gatewayEnvPath (heEnv ev) s)" and "keepsFile ev (agentPlistPath s)"
  shows "\<exists>tlsDir. (opTLSDir opts = [] \<or> tlsDir = opTLSDir opts)
    \<and> fileText (gatewayEnvPath (heEnv ev) s) st' =
        Some (UpsertManagedBlock (textOr ev (gatewayEnvPath (heEnv ev) s) st) (GatewayEnvLines (opSocket opts) tlsDir))
    \<and> fileText (agentPlistPath s) st' = Some (RenderLaunchAgent (stBinPath s) tlsDir (agentLogPath s))
    \<and> (\<exists>st5. fileExists (opSocket opts) st5 \<and> st' = setupTail ev s dl opts st5)"
  by (rule setup_wired [OF assms])

subsection \<open>A host to set up\<close>

definition demoHome :: Setup where
  "demoHome = \<lparr>stHome = ''/u'', stUID = 20, stBinPath = ''/b/d'', stHasOpenShell = Some (\<lambda>_. True),
     stACUninstaller = ''/x'', stOpenShellVarDir = ''/v'', stReadyTimeout = 15000\<rparr>"

definition demoOptions :: Options where
  "demoOptions = \<lparr>opNetwork = ''n'', opSocket = ''/t/s'', opTLSDir = ''/c'', opDefaultImage = ''i'',
     opSupervisorImage = ''v:1'', opPullImages = True, opDriverVersion = ''1''\<rparr>"

text \<open>Loading the agent makes the driver's socket appear; commands do nothing else.\<close>

definition demoExec :: "string \<Rightarrow> string list \<Rightarrow> Fake \<times> hostfs \<Rightarrow> (bool \<times> string) \<times> Fake \<times> hostfs" where
  "demoExec name args x =
     (if name = ''launchctl'' \<and> take 1 args = [''bootstrap'']
      then ((True, []), fst x, AList.update ''/t/s'' (FileN 384 (Bytes [])) (snd x))
      else ((name \<noteq> ''launchctl'', []), x))"

definition demoHostEnv :: "Fake hostenv" where
  "demoHostEnv = \<lparr>heRt = fakeRuntime, heExec = demoExec, heTakes = (\<lambda>_. 5), hePass = (\<lambda>x. x), heIo = (\<lambda>_ _. True),
     heEnv = (\<lambda>_. None), heLookPath = (\<lambda>_. True), heListens = (\<lambda>_ _. True), heArch = ''arm64'',
     hePem = (\<lambda>_. None), heX509 = (\<lambda>_. None), heFloat = (\<lambda>n. if isNumber n then Some n else None),
     heURL = (\<lambda>_. None), heURLWith = (\<lambda>u h. u), heJSON = (\<lambda>_. [])\<rparr>"

definition demoHost :: "Fake Host" where
  "demoHost = \<lparr>hoFs = [(''/u/.config/openshell/gateway.env'', FileN 420 (Bytes ''A=1''))], hoWorld = emptyFake,
     hoClock = 0, hoTrace = []\<rparr>"

lemma demo_keeps: "p \<noteq> ''/t/s'' \<Longrightarrow> keepsFile demoHostEnv p"
  by (simp add: keepsFile_def demoHostEnv_def demoExec_def)


lemma demo_first_probe: "waitFor demoHostEnv probe t st = (True, st1)"
  if "probe st = (True, st1)"
  using that by (simp add: waitFor_def waitUntil.simps [of _ _ probe _ st])

lemma demo_gone: "serviceGone demoHostEnv s st = (True, st1) \<longleftrightarrow> st1 = snd (serviceGone demoHostEnv s st)"
  by (auto simp: serviceGone_def runCmd_def demoHostEnv_def demoExec_def)

text \<open>The same host with an environment of the user's.\<close>

abbreviation demoEnvAt :: "procenv \<Rightarrow> Fake hostenv" where
  "demoEnvAt e \<equiv> demoHostEnv\<lparr>heEnv := e\<rparr>"

lemma demoEnvAt_none: "demoEnvAt (\<lambda>_. None) = demoHostEnv"
  by (simp add: demoHostEnv_def)

lemma demo_reload: "\<exists>st1. reloadAgent (demoEnvAt e) s st = (None, st1) \<and> fileExists ''/t/s'' st1"
  by (simp add: reloadAgent_def Let_def numeral_eq_Suc runCmd_def demoHostEnv_def demoExec_def fileExists_def)

lemma demo_first_probe_at: "waitFor (demoEnvAt e) probe t st = (True, st1)"
  if "probe st = (True, st1)"
  using that by (simp add: waitFor_def waitUntil.simps [of _ _ probe _ st])

lemma demo_install:
  assumes "writePlist (demoEnvAt e) s tlsDir st = (None, st1)"
  shows "\<exists>st2. installAgent (demoEnvAt e) s tlsDir ''/t/s'' st = (None, st2)"
proof -
  obtain st2 where 2: "reloadAgent (demoEnvAt e) s st1 = (None, st2)" "fileExists ''/t/s'' st2" using demo_reload by blast
  then have "waitFor (demoEnvAt e) (socketUp ''/t/s'') t st2 = (True, st2)" for t
    by (intro demo_first_probe_at) (simp add: socketUp_def)
  then show ?thesis by (simp add: installAgent_def assms 2 confirmAgent_def)
qed

text \<open>The host up to the point where the agent is installed.\<close>

definition demoPlistFails :: "procenv \<Rightarrow> Setup \<Rightarrow> int \<Rightarrow> Fake Host \<Rightarrow> err option" where
  "demoPlistFails e s dl st =
     (case startRuntime (demoEnvAt e) dl st of
        (None, st1) \<Rightarrow>
          (case hostEnsureNetwork (demoEnvAt e) dl ''n'' (ensureKernel (demoEnvAt e) s st1) of
             (Inr a, st2) \<Rightarrow>
               (case ensureCertSAN (demoEnvAt e) ''/c'' a st2 of
                  (None, st3) \<Rightarrow>
                    (case upsertFileBlock (demoEnvAt e) (gatewayEnvPath e s) (GatewayEnvLines ''/t/s'' ''/c'') st3 of
                       (None, st4) \<Rightarrow> (case writePlist (demoEnvAt e) s ''/c'' (fixCLIRegistrations (demoEnvAt e) s st4) of (r, _) \<Rightarrow> r)
                     | (r, _) \<Rightarrow> Some (errorf [] []))
                | (r, _) \<Rightarrow> Some (errorf [] []))
           | _ \<Rightarrow> Some (errorf [] []))
      | (r, _) \<Rightarrow> r)"

lemma demo_setup_at:
  assumes "demoPlistFails e s dl st = None"
  shows "\<exists>st'. setupRun (demoEnvAt e) s dl demoOptions st = (None, st')"
proof -
  obtain st1 a st2 st3 st4 st5 where p: "startRuntime (demoEnvAt e) dl st = (None, st1)"
    "hostEnsureNetwork (demoEnvAt e) dl ''n'' (ensureKernel (demoEnvAt e) s st1) = (Inr a, st2)"
    "ensureCertSAN (demoEnvAt e) ''/c'' a st2 = (None, st3)"
    "upsertFileBlock (demoEnvAt e) (gatewayEnvPath e s) (GatewayEnvLines ''/t/s'' ''/c'') st3 = (None, st4)"
    and w: "writePlist (demoEnvAt e) s ''/c'' (fixCLIRegistrations (demoEnvAt e) s st4) = (None, st5)"
    using assms unfolding demoPlistFails_def by (auto split: prod.splits sum.splits option.splits)
  obtain st6 where "installAgent (demoEnvAt e) s ''/c'' ''/t/s'' (fixCLIRegistrations (demoEnvAt e) s st4) = (None, st6)"
    using demo_install [OF w] by blast
  then show ?thesis by (simp add: setupRun_def p demoOptions_def tlsDirOf_def Let_def)
qed

lemma demo_prefix: "demoPlistFails (\<lambda>_. None) demoHome 1000000 demoHost = None"
  unfolding demoPlistFails_def by code_simp

lemma demo_setup: "\<exists>st'. setupRun demoHostEnv demoHome 1000000 demoOptions demoHost = (None, st')"
  using demo_setup_at [OF demo_prefix] by (simp only: demoEnvAt_none)

lemma demo_paths:
  "gatewayEnvPath (heEnv demoHostEnv) demoHome = ''/u/.config/openshell/gateway.env''"
  "agentPlistPath demoHome = ''/u/Library/LaunchAgents/local.openshell-driver-applecontainer.plist''"
  by (simp add: demoHostEnv_def, code_simp) code_simp

theorem setup_wires_witness:
  "\<exists>st'. setupRun demoHostEnv demoHome 1000000 demoOptions demoHost = (None, st')
     \<and> fileText ''/u/.config/openshell/gateway.env'' st' =
         Some (UpsertManagedBlock ''A=1'' (GatewayEnvLines ''/t/s'' ''/c''))"
proof -
  obtain st' where r: "setupRun demoHostEnv demoHome 1000000 demoOptions demoHost = (None, st')"
    using demo_setup by blast
  have k: "keepsFile demoHostEnv (gatewayEnvPath (heEnv demoHostEnv) demoHome)" "keepsFile demoHostEnv (agentPlistPath demoHome)"
    by (simp_all add: demo_paths demo_keeps)
  have "textOr demoHostEnv ''/u/.config/openshell/gateway.env'' demoHost = ''A=1''"
    by (simp add: textOr_def readFile_def demoHost_def demoHostEnv_def)
  then show ?thesis using setup_wires [OF r k] r by (auto simp: demo_paths demoOptions_def)
qed

subsection \<open>What cleanup removes\<close>

lemma nodeAt_unwire:
  "p \<noteq> gatewayEnvPath (heEnv ev) s \<Longrightarrow> nodeAt p (snd (unwireGateway ev s st)) = nodeAt p st"
  by (auto simp: unwireGateway_def Let_def nodeAt_osRemove nodeAt_osWriteFile split: option.split)

lemma nodeAt_stopGateway [frame_simps]: "keepsFile ev p \<Longrightarrow> nodeAt p (stopGateway ev s st) = nodeAt p st"
  by (simp add: stopGateway_def frame_simps)

definition commandsOf :: "'w Host \<Rightarrow> 'w Host \<Rightarrow> (string \<times> string list) list" where
  "commandsOf st st' = drop (length (hoTrace st)) (hoTrace st')"

lemma trace_runCmd: "hoTrace (snd (runCmd ev name args st)) = hoTrace st @ [(name, args)]"
  by (simp add: runCmd_def split: prod.split)

lemma trace_files [simp]:
  "hoTrace (snd (osRemove ev p st)) = hoTrace st" "hoTrace (snd (osWriteFile ev p b st)) = hoTrace st"
  "hoTrace (snd (mkdirAll ev p st)) = hoTrace st" "hoTrace (osRemoveAll ev p st) = hoTrace st"
  by (simp_all add: osRemove_def osWriteFile_def mkdirAll_def osRemoveAll_def split: prod.split)

lemma trace_unwire [simp]: "hoTrace (snd (unwireGateway ev s st)) = hoTrace st"
  by (simp add: unwireGateway_def Let_def split: option.split)

lemma Cleanup_split:
  assumes "Cleanup ev s opts st = (None, st')" and "\<not> coDeleteData opts" and "\<not> coAll opts"
  obtains st1 st2 e st3 where "st1 = snd (runCmd ev ''launchctl'' [''bootout'', agentTarget s] st)"
    "osRemove ev (agentPlistPath s) st1 = (e, st2)" "e = None \<or> isNotFoundErr (the e)"
    "unwireGateway ev s st2 = (None, st3)" "st' = stopGateway ev s st3"
  using assms by (auto simp: Cleanup_def Let_def split: prod.splits if_splits option.splits)

text \<open>
  A plain cleanup, without \<open>--delete-data\<close> and \<open>--all\<close>, loses no data: the program itself
  changes no file but the launch agent's and the gateway's settings, and the only commands it
  issues unload the driver's service and stop the gateway.
\<close>

lemma Cleanup_keeps:
  assumes "Cleanup ev s opts st = (None, st')" and "\<not> coDeleteData opts" and "\<not> coAll opts"
  shows "(\<forall>p. keepsFile ev p \<longrightarrow> p = agentPlistPath s \<or> p = gatewayEnvPath (heEnv ev) s \<or> nodeAt p st' = nodeAt p st)
    \<and> set (commandsOf st st') \<subseteq>
        {(''launchctl'', [''bootout'', agentTarget s]), (''brew'', [''services'', ''stop'', ''openshell''])}
    \<and> (\<exists>ts. hoTrace st' = hoTrace st @ ts)"
proof -
  obtain st1 st2 e st3 where st1: "st1 = snd (runCmd ev ''launchctl'' [''bootout'', agentTarget s] st)"
    and 2: "osRemove ev (agentPlistPath s) st1 = (e, st2)" and 3: "unwireGateway ev s st2 = (None, st3)"
    and st': "st' = stopGateway ev s st3"
    by (rule Cleanup_split [OF assms]) blast
  have f: "nodeAt p st' = nodeAt p st"
    if "keepsFile ev p" "p \<noteq> agentPlistPath s" "p \<noteq> gatewayEnvPath (heEnv ev) s" for p
    using nodeAt_osRemove [OF that(2), of ev st1] nodeAt_unwire [OF that(3), of st2] nodeAt_stopGateway [OF that(1), of s st3]
      nodeAt_runCmd [OF that(1)] 2 3 by (simp add: st1 st')
  have "hoTrace st2 = hoTrace st1" "hoTrace st3 = hoTrace st2"
    using arg_cong [OF 2, of "\<lambda>x. hoTrace (snd x)"] arg_cong [OF 3, of "\<lambda>x. hoTrace (snd x)"] by simp_all
  then have t: "hoTrace st3 = hoTrace st @ [(''launchctl'', [''bootout'', agentTarget s])]" by (simp add: st1 trace_runCmd)
  have "\<exists>ts. hoTrace st' = hoTrace st @ ts" using t by (auto simp: st' stopGateway_def trace_runCmd)
  moreover have "set (commandsOf st st') \<subseteq>
      {(''launchctl'', [''bootout'', agentTarget s]), (''brew'', [''services'', ''stop'', ''openshell''])}"
    using t by (auto simp: commandsOf_def st' stopGateway_def trace_runCmd)
  ultimately show ?thesis using f by blast
qed

lemma demo_cleanup_env: "heIo demoHostEnv c p" "openShellInstalled demoHostEnv demoHome st"
  by (simp_all add: demoHostEnv_def demoHome_def openShellInstalled_def)

definition demoCleanup :: CleanupOptions where
  "demoCleanup = \<lparr>coDeleteData = False, coAll = False, coNetwork = ''n'', coSocket = ''/t/s'', coStateDir = ''/d'',
     coDefaultImage = ''i'', coSupervisorImage = ''v:1''\<rparr>"

lemma demo_unwire: "fst (unwireGateway demoHostEnv s st) = None"
proof (cases "readFile demoHostEnv (gatewayEnvPath (heEnv demoHostEnv) s) st")
  case (Some data)
  then have "\<not> isDirNode (map_of (hoFs st) (gatewayEnvPath (heEnv demoHostEnv) s))"
    by (auto simp: readFile_def isDirNode_def split: if_splits option.splits node.splits)
  then show ?thesis using Some
    by (simp add: unwireGateway_def Let_def osWriteFile_def writeFile_def demo_cleanup_env)
qed (simp add: unwireGateway_def Let_def)

lemma demo_cleanup_run: "\<exists>st'. Cleanup demoHostEnv s demoCleanup st = (None, st')"
proof -
  define st1 where "st1 = snd (runCmd demoHostEnv ''launchctl'' [''bootout'', agentTarget s] st)"
  obtain e st2 where 2: "osRemove demoHostEnv (agentPlistPath s) st1 = (e, st2)" by fastforce
  then have "e = None \<or> isNotFoundErr (the e)" by (auto simp: osRemove_def demo_cleanup_env split: if_splits)
  moreover obtain st3 where "unwireGateway demoHostEnv s st2 = (None, st3)" using demo_unwire [of s st2] by (metis eq_fst_iff)
  ultimately show ?thesis using 2 by (auto simp: Cleanup_def Let_def st1_def [symmetric] demoCleanup_def)
qed

lemma fileText_node: "fileText p st = Some b \<Longrightarrow> nodeAt p st \<noteq> None"
  by (cases "nodeAt p st") (simp_all add: fileText_def)

lemma userPart_text: "TrimSpace s \<noteq> [] \<Longrightarrow> userPart s \<noteq> [] \<and> userPart s \<noteq> HostWiring.nl"
proof -
  assume s: "TrimSpace s \<noteq> []"
  have "TrimSpace HostWiring.nl = []" "TrimSpace [] = []" by code_simp+
  then show ?thesis using s by (cases s) (auto simp: userPart_def HostWiring.nl_def)
qed

text \<open>
  C15. Cleanup undoes setup: when a setup and then a plain cleanup succeed, the launch agent is
  gone and the gateway's settings are what they were before the setup, up to a final line
  break; a settings file that held nothing is removed.
\<close>

theorem setup_cleanup_roundtrip:
  assumes "setupRun ev s dl opts st = (None, st1)" and "Cleanup ev s copts st1 = (None, st2)"
    and "\<not> coDeleteData copts" and "\<not> coAll copts"
    and "keepsFile ev (gatewayEnvPath (heEnv ev) s)" and "keepsFile ev (agentPlistPath s)"
    and "heIo ev IoRead (gatewayEnvPath (heEnv ev) s)" and "heIo ev IoRemove (gatewayEnvPath (heEnv ev) s)"
    and "opTLSDir opts \<noteq> []" and "markerFree (GatewayEnvLines (opSocket opts) (opTLSDir opts))"
    and "textOr ev (gatewayEnvPath (heEnv ev) s) st = old" and "\<not> Contains old blockBegin"
  shows "nodeAt (agentPlistPath s) st2 = None
    \<and> (if TrimSpace old = [] then nodeAt (gatewayEnvPath (heEnv ev) s) st2 = None
        else fileText (gatewayEnvPath (heEnv ev) s) st2 =
          Some (if HasSuffix old HostWiring.nl then old else old @ HostWiring.nl))"
proof -
  let ?E = "gatewayEnvPath (heEnv ev) s" and ?P = "agentPlistPath s"
  have wired: "fileText ?E st1 = Some (UpsertManagedBlock old (GatewayEnvLines (opSocket opts) (opTLSDir opts)))"
    "nodeAt ?P st1 \<noteq> None"
    using setup_wired [OF assms(1,5,6)] assms(9,11) by (auto dest: fileText_node)
  obtain sa sb e sc where sa: "sa = snd (runCmd ev ''launchctl'' [''bootout'', agentTarget s] st1)"
    and 2: "osRemove ev ?P sa = (e, sb)" "e = None \<or> isNotFoundErr (the e)"
    and 3: "unwireGateway ev s sb = (None, sc)" and st2: "st2 = stopGateway ev s sc"
    by (rule Cleanup_split [OF assms(2,3,4)]) blast
  have a: "nodeAt ?E sa = nodeAt ?E st1" "nodeAt ?P sa = nodeAt ?P st1"
    using nodeAt_runCmd assms(5,6) by (auto simp: sa)
  have b: "nodeAt ?P sb = None" "nodeAt ?E sb = nodeAt ?E st1"
    using 2 a wired(2) nodeAt_osRemove [of ?E ?P ev sa]
    by (auto simp: osRemove_def nodeAt_def fileExists_def split: if_splits)
  have p: "nodeAt ?P st2 = None"
    using nodeAt_unwire [of ?P ev s sb] nodeAt_stopGateway [OF assms(6), of s sc] b(1) 3 by (simp add: st2)
  have rest: "RemoveManagedBlock (UpsertManagedBlock old (GatewayEnvLines (opSocket opts) (opTLSDir opts))) = userPart old"
    using Remove_Upsert [OF assms(10), of old] assms(12) by (simp add: RemoveManagedBlock_clean)
  have r: "readFile ev ?E sb = Some (UpsertManagedBlock old (GatewayEnvLines (opSocket opts) (opTLSDir opts)))"
    using wired(1) b(2) assms(7) by (auto simp: readFile_def fileText_def nodeAt_def split: option.splits node.splits content.splits)
  have c: "if TrimSpace old = [] then nodeAt ?E sc = None else fileText ?E sc = Some (userPart old)"
  proof (cases "TrimSpace old = []")
    case True
    then have "sc = snd (osRemove ev ?E sb)" using 3 by (simp add: unwireGateway_def r rest userPart_def)
    then show ?thesis using True assms(8) by (simp add: osRemove_def nodeAt_def fileExists_def)
  next
    case False
    then have "userPart old \<noteq> [] \<and> userPart old \<noteq> HostWiring.nl" by (rule userPart_text)
    then have "osWriteFile ev ?E (userPart old) sb = (None, sc)" using 3 by (simp add: unwireGateway_def r rest)
    from osWriteFile_ok [OF this] False show ?thesis by simp
  qed
  have "nodeAt ?E st2 = nodeAt ?E sc" using nodeAt_stopGateway [OF assms(5)] by (simp add: st2)
  then show ?thesis using p c by (simp add: fileText_def userPart_def split: if_splits)
qed

theorem setup_cleanup_roundtrip_witness:
  "\<exists>st1 st2. setupRun demoHostEnv demoHome 1000000 demoOptions demoHost = (None, st1)
     \<and> Cleanup demoHostEnv demoHome demoCleanup st1 = (None, st2)
     \<and> fileText ''/u/.config/openshell/gateway.env'' st2 = Some (''A=1'' @ HostWiring.nl)"
proof -
  obtain st1 where r: "setupRun demoHostEnv demoHome 1000000 demoOptions demoHost = (None, st1)"
    using demo_setup by blast
  obtain st2 where c: "Cleanup demoHostEnv demoHome demoCleanup st1 = (None, st2)" using demo_cleanup_run by blast
  have k: "keepsFile demoHostEnv (gatewayEnvPath (heEnv demoHostEnv) demoHome)" "keepsFile demoHostEnv (agentPlistPath demoHome)"
    by (simp_all add: demo_paths demo_keeps)
  have o: "textOr demoHostEnv (gatewayEnvPath (heEnv demoHostEnv) demoHome) demoHost = ''A=1''"
    unfolding demo_paths by (simp add: textOr_def readFile_def demoHost_def demoHostEnv_def)
  have m: "markerFree (GatewayEnvLines (opSocket demoOptions) (opTLSDir demoOptions))"
    unfolding markerFree_def by code_simp
  have n: "\<not> Contains ''A=1'' blockBegin" "TrimSpace ''A=1'' \<noteq> []" "\<not> HasSuffix ''A=1'' HostWiring.nl" by code_simp+
  have z: "\<not> coDeleteData demoCleanup" "\<not> coAll demoCleanup" "opTLSDir demoOptions \<noteq> []"
    by (simp_all add: demoCleanup_def demoOptions_def)
  from setup_cleanup_roundtrip [OF r c z(1,2) k demo_cleanup_env(1,1) z(3) m o n(1)] n r c show ?thesis
    by (auto simp: demo_paths)
qed

text \<open>
  \<open>cleanup --delete-data\<close> removes the directory of the driver's socket, whatever else it
  holds: with a socket \<open>/tmp/x.sock\<close> every file below \<open>/tmp\<close> is removed.
\<close>

theorem cleanup_removes_socket_siblings:
  assumes "Cleanup ev s opts st = (None, st')" and "coDeleteData opts" and "coSocket opts \<noteq> []"
    and "underPath (pathDir (coSocket opts)) p" and "heIo ev IoRemoveAll p" and "keepsFile ev p"
  shows "nodeAt p st' = None"
proof -
  have all: "nodeAt p (osRemoveAll ev d x) = None" if "underPath d p \<or> nodeAt p x = None" for d x
    using that assms(5) by (auto simp: nodeAt_def osRemoveAll_def map_of_eq_None_iff)
  have cmd: "nodeAt p (snd (runCmd ev n as x)) = nodeAt p x" for n as x using nodeAt_runCmd [OF assms(6)] .
  have "nodeAt p (deleteDriverData ev opts x) = None" for x
    using assms(3,4) by (simp add: deleteDriverData_def Let_def removeImage_def cmd all)
  moreover have "nodeAt p x = None \<Longrightarrow> nodeAt p (removePrerequisites ev s opts x) = None" for x
    by (simp add: removePrerequisites_def removeContainerRuntime_def Let_def cmd all)
  ultimately show ?thesis using assms(1,2) by (auto simp: Cleanup_def Let_def split: prod.splits if_splits option.splits)
qed

theorem cleanup_removes_socket_siblings_witness:
  "\<exists>st'. Cleanup demoHostEnv demoHome (demoCleanup\<lparr>coDeleteData := True, coSocket := ''/tmp/x.sock''\<rparr>)
      (demoHost\<lparr>hoFs := [(''/tmp/thesis.tex'', FileN 420 (Bytes ''x''))]\<rparr>) = (None, st')
    \<and> nodeAt ''/tmp/thesis.tex'' st' = None"
proof -
  let ?o = "demoCleanup\<lparr>coDeleteData := True, coSocket := ''/tmp/x.sock''\<rparr>"
  let ?h = "demoHost\<lparr>hoFs := [(''/tmp/thesis.tex'', FileN 420 (Bytes ''x''))]\<rparr>"
  have "fst (Cleanup demoHostEnv demoHome ?o ?h) = None" by code_simp
  then obtain st' where r: "Cleanup demoHostEnv demoHome ?o ?h = (None, st')" by (metis eq_fst_iff)
  have u: "underPath (pathDir (coSocket ?o)) ''/tmp/thesis.tex''" by code_simp
  have d: "coDeleteData ?o" "coSocket ?o \<noteq> []" by simp_all
  show ?thesis using cleanup_removes_socket_siblings [OF r d u demo_cleanup_env(1) demo_keeps] r by simp
qed

subsection \<open>The gateway registration\<close>

text \<open>
  C17. Repairing a CLI registration changes its endpoint and nothing else: the file that is
  written back decodes to the map that was read, every other member with the same value (its
  own members in sorted order), and the endpoint on the IPv4 loopback with the port it had, or
  the gateway's default.
\<close>

theorem metadata_rewritten:
  assumes ok: "FixLocalGatewayMetadata ev data = Inr (fixed, True)" and fl: "floatLaw (heFloat ev)"
    and url: "\<And>u p. heURL ev u = Some (''::1'', p) \<Longrightarrow> 
      (let e = heURLWith ev u (JoinHostPort ''127.0.0.1'' (if p = [] then ''17670'' else p)) in validUTF8 e = e)"
  shows "\<exists>m m' p. unmarshalAnyMap (heFloat ev) data = Some m \<and> unmarshalAnyMap (heFloat ev) fixed = Some m'
    \<and> heURL ev (jsonText m ''gateway_endpoint'') = Some (''::1'', p)
    \<and> (\<forall>k. map_of m' k =
         (if k = ''gateway_endpoint''
          then Some (JStr (heURLWith ev (jsonText m ''gateway_endpoint'')
                 (JoinHostPort ''127.0.0.1'' (if p = [] then ''17670'' else p))))
          else map_option sortJSON (map_of m k)))"
proof -
  obtain m p where m: "unmarshalAnyMap (heFloat ev) data = Some m"
    and u: "heURL ev (jsonText m ''gateway_endpoint'') = Some (''::1'', p)"
    and f: "fixed = marshalAnyMap (AList.update ''gateway_endpoint'' (JStr (heURLWith ev (jsonText m ''gateway_endpoint'')
        (JoinHostPort ''127.0.0.1'' (if p = [] then ''17670'' else p)))) m)"
    using ok by (auto simp: FixLocalGatewayMetadata_def Let_def split: option.splits if_split_asm)
  let ?new = "heURLWith ev (jsonText m ''gateway_endpoint'') (JoinHostPort ''127.0.0.1'' (if p = [] then ''17670'' else p))"
  have "validUTF8 ''gateway_endpoint'' = ''gateway_endpoint''" by (simp add: validUTF8_ascii)
  moreover have "validUTF8 ?new = ?new" using url [OF u] by (simp only: Let_def)
  ultimately have "wellRead 0 (JObj (AList.update ''gateway_endpoint'' (JStr ?new) m))"
    "stableAny (heFloat ev) (JObj (AList.update ''gateway_endpoint'' (JStr ?new) m))"
    using stable_update [of m "heFloat ev" "''gateway_endpoint''" ?new] unmarshalAnyMap_stable [OF fl m] by blast+
  from marshalAnyMap_read_back [OF this] obtain m' where "unmarshalAnyMap (heFloat ev) fixed = Some m'"
    "\<forall>k. map_of m' k = map_option sortJSON (map_of (AList.update ''gateway_endpoint'' (JStr ?new) m) k)"
    unfolding f by blast
  then show ?thesis using m u by (auto simp: update_conv')
qed

definition demoRegistration :: string where
  "demoRegistration = encodeJSON (JObj [(''name'', JStr ''g''), (''gateway_endpoint'', JStr ''https://[::1]''), (''port'', JNum ''7'')])"

theorem metadata_rewritten_witness:
  "\<exists>fixed m'. FixLocalGatewayMetadata (demoHostEnv\<lparr>heURL := \<lambda>u. Some (''::1'', []), heURLWith := \<lambda>u h. ''https://'' @ h\<rparr>)
      demoRegistration = Inr (fixed, True)
     \<and> unmarshalAnyMap (heFloat demoHostEnv) fixed = Some m'
     \<and> map_of m' ''gateway_endpoint'' = Some (JStr ''https://127.0.0.1:17670'') \<and> map_of m' ''port'' = Some (JNum ''7'')"
proof -
  let ?ev = "demoHostEnv\<lparr>heURL := \<lambda>u. Some (''::1'', []), heURLWith := \<lambda>u h. ''https://'' @ h\<rparr>"
  have r: "unmarshalAnyMap (heFloat ?ev) demoRegistration
      = Some [(''name'', JStr ''g''), (''gateway_endpoint'', JStr ''https://[::1]''), (''port'', JNum ''7'')]"
    unfolding demoHostEnv_def by code_simp
  then obtain fixed where f: "FixLocalGatewayMetadata ?ev demoRegistration = Inr (fixed, True)"
    by (simp add: FixLocalGatewayMetadata_def jsonBool_def)
  have fl: "floatLaw (heFloat ?ev)" by (simp add: floatLaw_def demoHostEnv_def)
  have h: "JoinHostPort ''127.0.0.1'' ''17670'' = ''127.0.0.1:17670''" by code_simp
  have "\<And>u p. heURL ?ev u = Some (''::1'', p) \<Longrightarrow> 
      (let e = heURLWith ?ev u (JoinHostPort ''127.0.0.1'' (if p = [] then ''17670'' else p)) in validUTF8 e = e)"
    by (auto simp: h Let_def intro!: validUTF8_ascii)
  from metadata_rewritten [OF f fl this] show ?thesis using f r h by (auto simp: jsonText_def)
qed

end
