(* ===== verification/DriverConfig.thy ===== *)
theory DriverConfig
  imports Seed Config
begin

section \<open>Per-sandbox driver configuration (\<open>internal/grpcsvc/driverconfig.go\<close>)\<close>

text \<open>
  The decoder of the \<open>driver_config\<close> block, its structural validation and the operator's
  policy. \<open>protojson.Marshal\<close> followed by \<open>encoding/json\<close>'s strict decoder is modelled on
  the value tree: keys are visited in sorted order, matched exactly or up to case folding,
  null keeps a value, and an unknown key or a value of the wrong kind is an error.
  \<open>filepath.EvalSymlinks\<close> is a parameter.
\<close>

record mountConfig =
  mcType :: string
  mcSource :: string
  mcTarget :: string
  mcReadOnly :: "bool option"

record driverConfig =
  dcMounts :: "mountConfig list"
  dcNetwork :: string
  dcKernel :: string

definition zeroMount :: mountConfig where
  "zeroMount = \<lparr>mcType = [], mcSource = [], mcTarget = [], mcReadOnly = None\<rparr>"

definition zeroDriverConfig :: driverConfig where
  "zeroDriverConfig = \<lparr>dcMounts = [], dcNetwork = [], dcKernel = []\<rparr>"

definition readOnly :: "mountConfig \<Rightarrow> bool" where
  "readOnly m = (case mcReadOnly m of None \<Rightarrow> True | Some b \<Rightarrow> b)"

definition reservedMountTargets :: "string list" where
  "reservedMountTargets =
     [''/opt/openshell'', ''/etc/openshell'', ''/etc/openshell-tls'', ''/run/netns'', ''/sandbox'',
      GuestSeedDir]"

subsection \<open>Decoding\<close>

fun hasInvalid :: "JValue \<Rightarrow> bool" where
  "hasInvalid JInvalid = True"
| "hasInvalid (JList vs) = list_ex hasInvalid vs"
| "hasInvalid (JObj fs) = list_ex (\<lambda>p. hasInvalid (snd p)) fs"
| "hasInvalid _ = False"

definition sortFields :: "Struct \<Rightarrow> Struct" where
  "sortFields fs = sort_key fst fs"

definition decString :: "string \<Rightarrow> JValue \<Rightarrow> string option" where
  "decString old v = (case v of JNull \<Rightarrow> Some old | JStr s \<Rightarrow> Some s | _ \<Rightarrow> None)"

definition decBoolPtr :: "JValue \<Rightarrow> bool option option" where
  "decBoolPtr v = (case v of JNull \<Rightarrow> Some None | JBool b \<Rightarrow> Some (Some b) | _ \<Rightarrow> None)"

definition decMountField :: "string \<Rightarrow> JValue \<Rightarrow> mountConfig \<Rightarrow> mountConfig option" where
  "decMountField k v m =
     (let f = foldKey k
      in if f = ''type'' then map_option (\<lambda>s. m\<lparr>mcType := s\<rparr>) (decString (mcType m) v)
         else if f = ''source'' then map_option (\<lambda>s. m\<lparr>mcSource := s\<rparr>) (decString (mcSource m) v)
         else if f = ''target'' then map_option (\<lambda>s. m\<lparr>mcTarget := s\<rparr>) (decString (mcTarget m) v)
         else if f = ''read_only'' then map_option (\<lambda>b. m\<lparr>mcReadOnly := b\<rparr>) (decBoolPtr v)
         else None)"

fun decMountFields :: "Struct \<Rightarrow> mountConfig \<Rightarrow> mountConfig option" where
  "decMountFields [] m = Some m"
| "decMountFields ((k, v) # fs) m =
     (case decMountField k v m of None \<Rightarrow> None | Some m' \<Rightarrow> decMountFields fs m')"

definition decMount :: "mountConfig \<Rightarrow> JValue \<Rightarrow> mountConfig option" where
  "decMount old v =
     (case v of JNull \<Rightarrow> Some old | JObj fs \<Rightarrow> decMountFields (sortFields fs) old | _ \<Rightarrow> None)"

text \<open>
  An array is decoded over the slice's backing array, whose elements a second key that
  folds to \<open>mounts\<close> would find again.
\<close>

fun decMounts :: "mountConfig list \<Rightarrow> JValue list \<Rightarrow> mountConfig list option" where
  "decMounts old [] = Some []"
| "decMounts old (v # vs) =
     (case decMount (case old of [] \<Rightarrow> zeroMount | o' # _ \<Rightarrow> o') v of
        None \<Rightarrow> None
      | Some m \<Rightarrow> map_option ((#) m) (decMounts (tl old) vs))"

fun decFields :: "Struct \<Rightarrow> mountConfig list \<Rightarrow> driverConfig \<Rightarrow> driverConfig option" where
  "decFields [] backing cfg = Some cfg"
| "decFields ((k, v) # fs) backing cfg =
     (let f = foldKey k
      in if f = ''mounts'' then
           (case v of
              JNull \<Rightarrow> decFields fs [] (cfg\<lparr>dcMounts := []\<rparr>)
            | JList [] \<Rightarrow> decFields fs [] (cfg\<lparr>dcMounts := []\<rparr>)
            | JList vs \<Rightarrow>
                (case decMounts backing vs of
                   None \<Rightarrow> None
                 | Some ms \<Rightarrow> decFields fs (ms @ drop (length ms) backing) (cfg\<lparr>dcMounts := ms\<rparr>))
            | _ \<Rightarrow> None)
         else if f = ''network'' then
           (case decString (dcNetwork cfg) v of
              None \<Rightarrow> None
            | Some s \<Rightarrow> decFields fs backing (cfg\<lparr>dcNetwork := s\<rparr>))
         else if f = ''kernel'' then
           (case decString (dcKernel cfg) v of
              None \<Rightarrow> None
            | Some s \<Rightarrow> decFields fs backing (cfg\<lparr>dcKernel := s\<rparr>))
         else None)"

subsection \<open>Validation\<close>

definition validateMountTarget :: "string \<Rightarrow> err option" where
  "validateMountTarget target =
     (if target = [] then Some (errorf ''mount target is required'' [])
      else if \<not> HasPrefix target ''/'' then Some (errorf ''mount target %q must be absolute'' [target])
      else if Clean target \<noteq> target
      then Some (errorf ''mount target %q must be a normalized path'' [target])
      else if target = ''/'' then Some (errorf ''mount target may not be the container root'' [])
      else (case find (\<lambda>r. target = r \<or> HasPrefix target (r @ ''/'')) reservedMountTargets of
              Some r \<Rightarrow> Some (errorf ''mount target %q shadows reserved path %s'' [target, r])
            | None \<Rightarrow> None))"

definition mountKindError :: "nat \<Rightarrow> mountConfig \<Rightarrow> err option" where
  "mountKindError i m =
     (if mcType m = ''volume'' then
        (if \<not> HasPrefix (mcSource m) ''/''
         then Some (errorf ''driver config: mounts[%d]: volume source must be an absolute host path''
                [natString i])
         else None)
      else if mcType m = ''tmpfs'' then
        (if mcSource m \<noteq> []
         then Some (errorf ''driver config: mounts[%d]: tmpfs takes no source'' [natString i])
         else None)
      else Some (errorf ''driver config: mounts[%d]: unsupported type %q (volume or tmpfs)''
             [natString i, mcType m]))"

fun validateMounts :: "nat \<Rightarrow> string list \<Rightarrow> mountConfig list \<Rightarrow> err option" where
  "validateMounts i seen [] = None"
| "validateMounts i seen (m # ms) =
     (case validateMountTarget (mcTarget m) of
        Some e \<Rightarrow> Some (Wrap ''driver config: mounts[%d]: %w'' [natString i] e)
      | None \<Rightarrow>
          (if mcTarget m \<in> set seen
           then Some (errorf ''driver config: mounts[%d]: duplicate target %q'' [natString i, mcTarget m])
           else (case mountKindError i m of
                   Some e \<Rightarrow> Some e
                 | None \<Rightarrow> validateMounts (Suc i) (mcTarget m # seen) ms)))"

definition validateConfig :: "driverConfig \<Rightarrow> err option" where
  "validateConfig c =
     (case validateMounts 0 [] (dcMounts c) of
        Some e \<Rightarrow> Some e
      | None \<Rightarrow>
          (if ContainsAny (dcNetwork c) [CHR '' '', tab, nl]
           then Some (errorf ''driver config: invalid network name %q'' [dcNetwork c])
           else if dcKernel c \<noteq> [] \<and> \<not> HasPrefix (dcKernel c) ''/''
           then Some (errorf ''driver config: kernel must be an absolute host path'' [])
           else None))"

definition parseDriverConfig :: "Struct option \<Rightarrow> err + driverConfig" where
  "parseDriverConfig st =
     (case st of
        None \<Rightarrow> Inr zeroDriverConfig
      | Some fs \<Rightarrow>
          (if fs = [] then Inr zeroDriverConfig
           else if hasInvalid (JObj fs) then Inl (errorf ''driver config: %w'' [])
           else (case decFields (sortFields fs) [] zeroDriverConfig of
                   None \<Rightarrow> Inl (errorf ''driver config: %w'' [])
                 | Some cfg \<Rightarrow>
                     (case validateConfig cfg of Some e \<Rightarrow> Inl e | None \<Rightarrow> Inr cfg))))"

subsection \<open>Policy\<close>

definition allowedNetworks :: "Config \<Rightarrow> string list" where
  "allowedNetworks cfg = cfgNetwork cfg # cfgAllowedNetworks cfg"

definition networkAllowed :: "Config \<Rightarrow> string \<Rightarrow> bool" where
  "networkAllowed cfg name = list_ex (\<lambda>n. n = name) (allowedNetworks cfg)"

definition pathWithin :: "string \<Rightarrow> string \<Rightarrow> bool" where
  "pathWithin root p =
     (let r = Clean root; q = Clean p in q = r \<or> HasPrefix q (r @ ''/''))"

text \<open>\<open>ev\<close> is \<open>filepath.EvalSymlinks\<close>, \<open>None\<close> its error.\<close>

definition checkSourceWithinRoot ::
  "(string \<Rightarrow> string option) \<Rightarrow> string \<Rightarrow> string \<Rightarrow> err option" where
  "checkSourceWithinRoot ev root source =
     (case ev root of
        None \<Rightarrow> Some (errorf ''permitted root %s is not usable: %w'' [root])
      | Some realRoot \<Rightarrow>
          (case ev source of
             None \<Rightarrow> Some (errorf ''volume source %q is not usable: %w'' [source])
           | Some realSource \<Rightarrow>
               (if \<not> pathWithin realRoot realSource then
                  (if realSource \<noteq> Clean source
                   then Some (errorf ''volume source %q resolves to %s, outside the permitted root %s''
                          [source, realSource, root])
                   else Some (errorf ''volume source %q is outside the permitted root %s'' [source, root]))
                else None)))"

fun checkMountsPolicy ::
  "(string \<Rightarrow> string option) \<Rightarrow> Config \<Rightarrow> nat \<Rightarrow> mountConfig list \<Rightarrow> err option" where
  "checkMountsPolicy ev cfg i [] = None"
| "checkMountsPolicy ev cfg i (m # ms) =
     (if mcType m \<noteq> ''volume'' then checkMountsPolicy ev cfg (Suc i) ms
      else if \<not> cfgAllowHostMounts cfg
      then Some (errorf
        ''driver config: mounts[%d]: host volume mounts are disabled; start the driver with --allow-host-mounts to permit them''
        [natString i])
      else (case (if cfgHostMountRoot cfg \<noteq> []
                  then checkSourceWithinRoot ev (cfgHostMountRoot cfg) (mcSource m) else None) of
              Some e \<Rightarrow> Some (Wrap ''driver config: mounts[%d]: %w'' [natString i] e)
            | None \<Rightarrow> checkMountsPolicy ev cfg (Suc i) ms))"

definition checkDriverConfigPolicy ::
  "(string \<Rightarrow> string option) \<Rightarrow> Config \<Rightarrow> driverConfig \<Rightarrow> err option" where
  "checkDriverConfigPolicy ev cfg dcfg =
     (case checkMountsPolicy ev cfg 0 (dcMounts dcfg) of
        Some e \<Rightarrow> Some e
      | None \<Rightarrow>
          (if dcNetwork dcfg \<noteq> [] \<and> \<not> networkAllowed cfg (dcNetwork dcfg)
           then Some (errorf ''driver config: network %q is not permitted (allowed: %s)''
                  (dcNetwork dcfg # allowedNetworks cfg))
           else None))"

subsection \<open>What validation accepts\<close>

lemma reserved_abs:
  "r \<in> set reservedMountTargets \<Longrightarrow> r = absPath (absComps r) \<and> absComps r \<noteq> []"
proof -
  have "list_all (\<lambda>r. r = absPath (absComps r) \<and> absComps r \<noteq> []) reservedMountTargets"
    by code_simp
  then show "r \<in> set reservedMountTargets \<Longrightarrow> r = absPath (absComps r) \<and> absComps r \<noteq> []"
    by (simp add: list_all_iff)
qed

lemma shadows_iff:
  assumes r: "r \<in> set reservedMountTargets" and cs: "\<forall>c \<in> set cs. normComp c"
  shows "absPath cs = r \<or> HasPrefix (absPath cs) (r @ ''/'') \<longleftrightarrow> prefix (absComps r) cs"
proof -
  define rs where "rs = absComps r"
  have e: "r = absPath rs" and rs: "\<forall>c \<in> set rs. normComp c" "rs \<noteq> []"
    using reserved_abs [OF r] absComps_norm [of r] by (simp_all add: rs_def)
  have "absPath cs = r \<longleftrightarrow> cs = rs" unfolding e using absPath_inj [OF cs rs(1)] .
  moreover have "HasPrefix (absPath cs) (r @ ''/'') \<longleftrightarrow> (\<exists>ds. ds \<noteq> [] \<and> cs = rs @ ds)"
    unfolding e HasPrefix_def by (rule absPath_under [OF rs cs])
  ultimately show ?thesis unfolding rs_def [symmetric] by (auto simp: prefix_def)
qed

text \<open>
  A mount target is accepted exactly when it is the text of an absolute path made of at
  least one plain component, none of the reserved guest paths being that path or an
  ancestor of it.
\<close>

theorem validateMountTarget_iff:
  "validateMountTarget t = None \<longleftrightarrow>
     (\<exists>cs. cs \<noteq> [] \<and> t = absPath cs \<and> (\<forall>c \<in> set cs. normComp c)
        \<and> \<not> (\<exists>r \<in> set reservedMountTargets. prefix (absComps r) cs))"
proof
  assume v: "validateMountTarget t = None"
  then have a: "isAbs t" "Clean t = t" "t \<noteq> ''/''" and
    f: "\<not> (\<exists>r \<in> set reservedMountTargets. t = r \<or> HasPrefix t (r @ ''/''))"
    by (auto simp: validateMountTarget_def isAbs_def find_None_iff split: if_splits option.splits)
  define cs where "cs = absComps t"
  have t: "t = absPath cs" using Clean_fixed_abs [OF a(1,2)] by (simp add: cs_def)
  have n: "\<forall>c \<in> set cs. normComp c" by (simp add: cs_def absComps_norm)
  have "cs \<noteq> []" using t a(3) by (auto simp: absPath_def)
  with t n f shadows_iff [OF _ n] show
    "\<exists>cs. cs \<noteq> [] \<and> t = absPath cs \<and> (\<forall>c \<in> set cs. normComp c)
        \<and> \<not> (\<exists>r \<in> set reservedMountTargets. prefix (absComps r) cs)"
    by blast
next
  assume "\<exists>cs. cs \<noteq> [] \<and> t = absPath cs \<and> (\<forall>c \<in> set cs. normComp c)
        \<and> \<not> (\<exists>r \<in> set reservedMountTargets. prefix (absComps r) cs)"
  then obtain cs where cs: "cs \<noteq> []" "t = absPath cs" "\<forall>c \<in> set cs. normComp c"
    "\<not> (\<exists>r \<in> set reservedMountTargets. prefix (absComps r) cs)"
    by blast
  have abs: "HasPrefix t ''/''" using absPath_isAbs [of cs] cs(2) by (simp add: isAbs_def)
  have "Clean t = t" using cs absComps_absPath [OF cs(3)] by (simp add: Clean_abs)
  moreover have "t \<noteq> ''/''" "t \<noteq> []"
    using cs joinWith_eq_Nil [OF cs(3)] by (auto simp: absPath_def)
  moreover have "\<not> (\<exists>r \<in> set reservedMountTargets. t = r \<or> HasPrefix t (r @ ''/''))"
    using cs(2,4) shadows_iff [OF _ cs(3)] by blast
  then have "find (\<lambda>r. t = r \<or> HasPrefix t (r @ ''/'')) reservedMountTargets = None"
    by (simp add: find_None_iff)
  ultimately show "validateMountTarget t = None" using abs by (simp add: validateMountTarget_def)
qed

theorem validateMountTarget_iff_witness:
  "\<exists>cs. cs \<noteq> [] \<and> ''/data/in'' = absPath cs"
proof -
  have "validateMountTarget ''/data/in'' = None" by code_simp
  then show ?thesis using validateMountTarget_iff [of "''/data/in''"] by blast
qed

text \<open>What a structurally valid configuration promises.\<close>

definition mountOk :: "mountConfig \<Rightarrow> bool" where
  "mountOk m \<longleftrightarrow> validateMountTarget (mcTarget m) = None
     \<and> (mcType m = ''volume'' \<and> isAbs (mcSource m) \<or> mcType m = ''tmpfs'' \<and> mcSource m = [])"

definition driverConfigOk :: "driverConfig \<Rightarrow> bool" where
  "driverConfigOk c \<longleftrightarrow>
     list_all mountOk (dcMounts c) \<and> distinct (map mcTarget (dcMounts c))
     \<and> \<not> ContainsAny (dcNetwork c) [CHR '' '', tab, nl]
     \<and> (dcKernel c = [] \<or> isAbs (dcKernel c))"

lemma mountKind_ok:
  "mountKindError i m = None \<longleftrightarrow>
     mcType m = ''volume'' \<and> isAbs (mcSource m) \<or> mcType m = ''tmpfs'' \<and> mcSource m = []"
  by (auto simp: mountKindError_def isAbs_def)

lemma validateMounts_ok:
  "validateMounts i seen ms = None \<longleftrightarrow>
     list_all mountOk ms \<and> distinct (map mcTarget ms) \<and> mcTarget ` set ms \<inter> set seen = {}"
proof (induction ms arbitrary: i seen)
  case (Cons m ms)
  then show ?case
    by (cases "mcTarget m \<in> set seen") (auto simp: mountOk_def mountKind_ok)
qed simp

lemma validateConfig_ok: "validateConfig c = None \<longleftrightarrow> driverConfigOk c"
  by (auto simp: validateConfig_def driverConfigOk_def validateMounts_ok isAbs_def)

text \<open>
  A driver configuration block that is accepted has only well-formed mounts with
  pairwise distinct, unreserved targets, a network name without blanks and an absolute
  kernel path; and an unknown key, or a value of the wrong kind, is never accepted.
\<close>

theorem parseDriverConfig_ok:
  assumes "parseDriverConfig st = Inr c"
  shows "driverConfigOk c
    \<and> (\<forall>fs k v. st = Some fs \<and> (k, v) \<in> set fs \<longrightarrow>
          foldKey k \<in> {''mounts'', ''network'', ''kernel''} \<and> \<not> hasInvalid v)"
proof -
  have zero: "driverConfigOk zeroDriverConfig"
    by (simp add: driverConfigOk_def zeroDriverConfig_def ContainsAny_def)
  have keys: "foldKey k \<in> {''mounts'', ''network'', ''kernel''}"
    if "decFields fs b cfg = Some c'" "(k, v) \<in> set fs" for fs b cfg c' k v
    using that
  proof (induction fs b cfg rule: decFields.induct)
    case (2 k' v' fs backing cfg)
    then show ?case
      by (auto simp: Let_def split: if_splits JValue.splits list.splits option.splits)
  qed simp
  show ?thesis
  proof (cases st)
    case None
    with assms zero show ?thesis by (simp add: parseDriverConfig_def)
  next
    case (Some fs)
    show ?thesis
    proof (cases "fs = []")
      case True
      with assms Some zero show ?thesis by (simp add: parseDriverConfig_def)
    next
      case False
      with assms Some have d: "decFields (sortFields fs) [] zeroDriverConfig = Some c"
        "validateConfig c = None" "\<not> hasInvalid (JObj fs)"
        by (auto simp: parseDriverConfig_def split: if_splits option.splits)
      have "foldKey k \<in> {''mounts'', ''network'', ''kernel''} \<and> \<not> hasInvalid v" if "(k, v) \<in> set fs" for k v
        using keys [OF d(1), of k v] that d(3) by (auto simp: sortFields_def list_ex_iff)
      with d(2) Some show ?thesis by (simp add: validateConfig_ok)
    qed
  qed
qed

theorem parseDriverConfig_ok_witness:
  "\<exists>c. parseDriverConfig (Some [(''network'', JStr ''lab''),
        (''Mounts'', JList [JObj [(''type'', JStr ''volume''), (''source'', JStr ''/srv/x''),
                                 (''target'', JStr ''/work'')]])]) = Inr c
     \<and> map mcTarget (dcMounts c) = [''/work''] \<and> driverConfigOk c"
proof -
  have "case parseDriverConfig (Some [(''network'', JStr ''lab''),
        (''Mounts'', JList [JObj [(''type'', JStr ''volume''), (''source'', JStr ''/srv/x''),
                                 (''target'', JStr ''/work'')]])]) of
          Inr c \<Rightarrow> map mcTarget (dcMounts c) = [''/work''] | Inl _ \<Rightarrow> False"
    by code_simp
  then show ?thesis using parseDriverConfig_ok by (auto split: sum.splits)
qed

subsection \<open>What the policy permits\<close>

lemma pathWithin_comps:
  assumes "isAbs root" and "isAbs p" and "absComps root \<noteq> []"
  shows "pathWithin root p \<longleftrightarrow> prefix (absComps root) (absComps p)"
proof -
  have n: "\<forall>c \<in> set (absComps root). normComp c" "\<forall>c \<in> set (absComps p). normComp c"
    by (simp_all add: absComps_norm)
  have "HasPrefix (absPath (absComps p)) (absPath (absComps root) @ ''/'')
          \<longleftrightarrow> (\<exists>ds. ds \<noteq> [] \<and> absComps p = absComps root @ ds)"
    unfolding HasPrefix_def by (rule absPath_under [OF n(1) assms(3) n(2)])
  then show ?thesis
    using assms absPath_inj [OF n(2,1)]
    by (auto simp: pathWithin_def Clean_abs Let_def prefix_def)
qed

text \<open>
  A permitted root that is the file system root contains only itself: \<open>pathWithin\<close>
  rejects every other absolute path, although each of them lies under \<open>/\<close>.
\<close>

theorem pathWithin_root:
  assumes "isAbs p"
  shows "pathWithin ''/'' p \<longleftrightarrow> absComps p = []"
proof -
  have r: "Clean ''/'' = absPath []" by code_simp
  have n: "\<forall>c \<in> set (absComps p). normComp c" by (simp add: absComps_norm)
  show ?thesis
    using assms absPath_under_root [OF n] absPath_inj [OF n, of "[]"]
    by (simp add: pathWithin_def Clean_abs r HasPrefix_def)
qed

theorem pathWithin_root_witness: "\<not> pathWithin ''/'' ''/Users/dev''"
proof -
  have "isAbs ''/Users/dev''" "absComps ''/Users/dev'' = [''Users'', ''dev'']" by code_simp+
  then show ?thesis using pathWithin_root [of "''/Users/dev''"] by simp
qed

lemma checkMounts_volume:
  "checkMountsPolicy ev cfg i ms = None \<Longrightarrow> m \<in> set ms \<Longrightarrow> mcType m = ''volume'' \<Longrightarrow>
     cfgAllowHostMounts cfg
     \<and> (cfgHostMountRoot cfg \<noteq> [] \<longrightarrow>
          checkSourceWithinRoot ev (cfgHostMountRoot cfg) (mcSource m) = None)"
  by (induction ms arbitrary: i) (auto split: if_splits)


definition demoConfig :: Config where
  "demoConfig = (flCfg (flagDefaults (\<lambda>_. None) (\<lambda>_. False)))
     \<lparr>cfgAllowHostMounts := True, cfgHostMountRoot := ''/srv'', cfgAllowedNetworks := [''lab'']\<rparr>"

definition demoLinks :: "string \<Rightarrow> string option" where
  "demoLinks p = (if isAbs p then Some p else None)"


end
