(* ===== verification/SandboxEnv.thy ===== *)
theory SandboxEnv
  imports Seed Config JsonRoundtrip
begin

section \<open>The guest environment (\<open>internal/grpcsvc/env.go\<close>)\<close>

text \<open>
  How the environment of a sandbox is put together: base defaults, then the user's
  variables with the driver-owned names dropped, then the driver-owned variables. The
  environment is a Go map; it is built with \<open>AList.update\<close>, and only its lookups matter
  (\<open>RunArgs\<close> sorts the names). The two JSON texts in it are those of \<open>json.Marshal\<close>, and a
  guest that decodes them finds what the sandbox asked for.
\<close>

subsection \<open>JSON text\<close>

definition jsonStringMap :: "strmap \<Rightarrow> string" where
  "jsonStringMap m =
     ''{'' @ joinWith '','' (map (\<lambda>k. jsonString k @ '':'' @ jsonString (mapGet m k)) (sortedKeys m)) @ ''}''"

subsection \<open>Names\<close>

definition guestTLSCA :: string where "guestTLSCA = GuestSeedDir @ ''/tls/ca.crt''"
definition guestTLSCert :: string where "guestTLSCert = GuestSeedDir @ ''/tls/tls.crt''"
definition guestTLSKey :: string where "guestTLSKey = GuestSeedDir @ ''/tls/tls.key''"
definition guestTokenFile :: string where "guestTokenFile = GuestSeedDir @ ''/auth/sandbox.jwt''"

definition defaultSSHSocketPath :: string where
  "defaultSSHSocketPath = ''/run/openshell/ssh.sock''"

definition defaultGuestPath :: string where
  "defaultGuestPath = ''/usr/local/sbin:/usr/local/bin:/usr/sbin:/usr/bin:/sbin:/bin''"

definition driverOwnedEnv :: "string list" where
  "driverOwnedEnv =
     [''OPENSHELL_ENDPOINT'', ''OPENSHELL_SANDBOX_ID'', ''OPENSHELL_SANDBOX'',
      ''OPENSHELL_SSH_SOCKET_PATH'', ''OPENSHELL_MAIN_PROCESS_SPEC'', ''OPENSHELL_LOG_LEVEL'',
      ''OPENSHELL_TELEMETRY_ENABLED'', ''OPENSHELL_NETWORK_RUNTIME_CAPABILITIES'',
      ''OPENSHELL_USER_ENVIRONMENT'', ''OPENSHELL_TLS_CA'', ''OPENSHELL_TLS_CERT'',
      ''OPENSHELL_TLS_KEY'', ''OPENSHELL_GATEWAY_TLS_SERVER_NAME'', ''OPENSHELL_SANDBOX_TOKEN'',
      ''OPENSHELL_SANDBOX_TOKEN_FILE'', ''OPENSHELL_OCI_IMAGE_USER'', ''OPENSHELL_SANDBOX_UID'',
      ''OPENSHELL_SANDBOX_GID'', ''PATH'']"

subsection \<open>The main process\<close>

record mainProcessSpec =
  mpVersion :: nat
  mpCommand :: "string list"
  mpTTY :: bool

definition mainProcessSpecVersion :: nat where "mainProcessSpecVersion = 1"

definition defaultMainProcess :: mainProcessSpec where
  "defaultMainProcess =
     \<lparr>mpVersion = mainProcessSpecVersion, mpCommand = [''/bin/bash'', ''-l''], mpTTY = True\<rparr>"

definition mainProcessFromSpec :: "DriverSandboxSpec option \<Rightarrow> mainProcessSpec" where
  "mainProcessFromSpec spec =
     (let cmd = GetCommand spec
      in if cmd \<noteq> []
         then \<lparr>mpVersion = mainProcessSpecVersion, mpCommand = cmd, mpTTY = GetTty spec\<rparr>
         else defaultMainProcess)"

definition mainProcessJSON :: "mainProcessSpec \<Rightarrow> string" where
  "mainProcessJSON p =
     ''{'' @ jsonString ''version'' @ '':'' @ natString (mpVersion p) @ '',''
     @ jsonString ''command'' @ '':['' @ joinWith '','' (map jsonString (mpCommand p)) @ ''],''
     @ jsonString ''tty'' @ '':'' @ (if mpTTY p then ''true'' else ''false'') @ ''}''"

subsection \<open>The environment\<close>

definition baseEnv :: strmap where
  "baseEnv = [(''HOME'', ''/root''), (''PATH'', defaultGuestPath), (''TERM'', ''xterm'')]"

definition mergeEnv :: "strmap \<Rightarrow> strmap \<Rightarrow> strmap" where
  "mergeEnv m upd = fold (\<lambda>(k, v). AList.update k v) upd m"

text \<open>
  The loop over the user's variables: what remains of \<open>user\<close> and the environment. Which
  invalid name is reported is the only thing the iteration order decides.
\<close>

fun userEnv :: "strmap \<Rightarrow> strmap \<Rightarrow> strmap \<Rightarrow> err + strmap \<times> strmap" where
  "userEnv [] user env = Inr (user, env)"
| "userEnv ((k, v) # kvs) user env =
     (if TrimSpace k = [] then Inl (errorf ''environment variable with empty name'' [])
      else if ContainsAny k [CHR ''='', CHR 0x00] \<or> Contains v [CHR 0x00]
      then Inl (errorf ''environment variable %q has an invalid name or value'' [k])
      else if k \<in> set driverOwnedEnv then userEnv kvs (AList.delete k user) env
      else userEnv kvs user (AList.update k v env))"

definition ownedEnv :: "Config \<Rightarrow> DriverSandbox option \<Rightarrow> bool \<Rightarrow> strmap" where
  "ownedEnv cfg sb hasToken =
     (let spec = GetSpec sb;
          tpl = GetTemplate spec;
          logLevel = (if GetLogLevel spec = [] then cfgLogLevel cfg else GetLogLevel spec);
          sshSocket = (if GetAgentSocketPath tpl = [] then defaultSSHSocketPath
                       else GetAgentSocketPath tpl)
      in [(''OPENSHELL_ENDPOINT'', cfgGRPCEndpoint cfg),
          (''OPENSHELL_SANDBOX_ID'', GetId sb),
          (''OPENSHELL_SANDBOX'', GetName sb),
          (''OPENSHELL_SSH_SOCKET_PATH'', sshSocket),
          (''OPENSHELL_MAIN_PROCESS_SPEC'', mainProcessJSON (mainProcessFromSpec spec)),
          (''OPENSHELL_LOG_LEVEL'', logLevel),
          (''OPENSHELL_TELEMETRY_ENABLED'', ''false''),
          (''OPENSHELL_NETWORK_RUNTIME_CAPABILITIES'', []),
          (''OPENSHELL_SANDBOX_UID'', []),
          (''OPENSHELL_SANDBOX_GID'', [])]
         @ (if HasPrefix (cfgGRPCEndpoint cfg) ''https://''
            then [(''OPENSHELL_TLS_CA'', guestTLSCA), (''OPENSHELL_TLS_CERT'', guestTLSCert),
                  (''OPENSHELL_TLS_KEY'', guestTLSKey)]
            else [])
         @ (if hasToken then [(''OPENSHELL_SANDBOX_TOKEN_FILE'', guestTokenFile)] else []))"

definition sandboxEnv :: "Config \<Rightarrow> DriverSandbox option \<Rightarrow> bool \<Rightarrow> err + strmap" where
  "sandboxEnv cfg sb hasToken =
     (let spec = GetSpec sb;
          user = mergeEnv (mergeEnv [] (GetTplEnvironment (GetTemplate spec))) (GetSpecEnvironment spec)
      in case userEnv user user baseEnv of
           Inl e \<Rightarrow> Inl e
         | Inr (kept, env) \<Rightarrow>
             (let env1 = (if kept \<noteq> []
                          then AList.update ''OPENSHELL_USER_ENVIRONMENT'' (jsonStringMap kept) env
                          else env)
              in Inr (mergeEnv env1 (ownedEnv cfg sb hasToken))))"

subsection \<open>Lookups\<close>

lemma mergeEnv_lookup:
  "distinct (map fst upd) \<Longrightarrow>
     map_of (mergeEnv m upd) k = (case map_of upd k of Some v \<Rightarrow> Some v | None \<Rightarrow> map_of m k)"
proof (induction upd arbitrary: m)
  case (Cons p upd)
  obtain a b where p: "p = (a, b)" by (cases p)
  then have "map_of upd a = None" using Cons.prems by (auto simp: map_of_eq_None_iff)
  with Cons p show ?case by (auto simp: mergeEnv_def split: option.splits)
qed (simp add: mergeEnv_def)

lemma mergeEnv_distinct: "distinct (keysOf m) \<Longrightarrow> distinct (keysOf (mergeEnv m upd))"
  by (induction upd arbitrary: m) (auto simp: mergeEnv_def)

lemma userEnv_valid:
  "userEnv kvs user env = Inr r \<Longrightarrow> (n, v) \<in> set kvs \<Longrightarrow>
     TrimSpace n \<noteq> [] \<and> \<not> ContainsAny n [CHR ''='', CHR 0x00] \<and> \<not> Contains v [CHR 0x00]"
  by (induction kvs user env rule: userEnv.induct) (auto split: if_splits)

lemma userEnv_env:
  "userEnv kvs user env = Inr (kept, env') \<Longrightarrow> distinct (map fst kvs) \<Longrightarrow>
     map_of env' k = (if k \<in> set driverOwnedEnv \<or> map_of kvs k = None then map_of env k else map_of kvs k)"
proof (induction kvs user env rule: userEnv.induct)
  case (2 a b kvs user env)
  have n: "map_of kvs a = None" using "2.prems"(2) by (simp add: map_of_eq_None_iff)
  have d: "distinct (map fst kvs)" using "2.prems"(2) by simp
  have ok: "TrimSpace a \<noteq> []" "\<not> (ContainsAny a [CHR ''='', CHR 0x00] \<or> Contains b [CHR 0x00])"
    using "2.prems"(1) by (auto split: if_splits)
  show ?case
  proof (cases "a \<in> set driverOwnedEnv")
    case True
    then have "userEnv kvs (AList.delete a user) env = Inr (kept, env')" using "2.prems"(1) ok by simp
    from "2.IH"(1) [OF ok True this d] True n show ?thesis by (cases "k = a") simp_all
  next
    case False
    then have "userEnv kvs user (AList.update a b env) = Inr (kept, env')" using "2.prems"(1) ok by simp
    from "2.IH"(2) [OF ok False this d] False n show ?thesis by (cases "k = a") simp_all
  qed
qed simp

lemma ownedEnv_distinct: "distinct (map fst (ownedEnv cfg sb t))"
  by (cases t; cases "HasPrefix (cfgGRPCEndpoint cfg) ''https://''"; simp add: ownedEnv_def Let_def)

lemma ownedEnv_owned: "k \<in> fst ` set (ownedEnv cfg sb t) \<Longrightarrow> k \<in> set driverOwnedEnv"
  unfolding ownedEnv_def driverOwnedEnv_def Let_def by (auto split: if_splits)

text \<open>The user's variables: the template's, then the spec's over them.\<close>

definition userVars :: "DriverSandbox option \<Rightarrow> string \<Rightarrow> string option" where
  "userVars sb k =
     (case map_of (GetSpecEnvironment (GetSpec sb)) k of
        Some v \<Rightarrow> Some v
      | None \<Rightarrow> map_of (GetTplEnvironment (GetTemplate (GetSpec sb))) k)"

definition mapsDistinct :: "DriverSandbox option \<Rightarrow> bool" where
  "mapsDistinct sb \<longleftrightarrow>
     distinct (map fst (GetSpecEnvironment (GetSpec sb)))
     \<and> distinct (map fst (GetTplEnvironment (GetTemplate (GetSpec sb))))"

text \<open>What the loop and the two assignments after it leave behind.\<close>

lemma sandboxEnv_split:
  assumes e: "sandboxEnv cfg sb t = Inr env"
  obtains env0 where
    "\<And>k. map_of env0 k = (if k \<in> set driverOwnedEnv \<or>
        map_of (mergeEnv (mergeEnv [] (GetTplEnvironment (GetTemplate (GetSpec sb))))
          (GetSpecEnvironment (GetSpec sb))) k = None then map_of baseEnv k
        else map_of (mergeEnv (mergeEnv [] (GetTplEnvironment (GetTemplate (GetSpec sb))))
          (GetSpecEnvironment (GetSpec sb))) k)"
    and "\<And>k. k \<noteq> ''OPENSHELL_USER_ENVIRONMENT'' \<Longrightarrow>
        map_of env k = (case map_of (ownedEnv cfg sb t) k of Some v \<Rightarrow> Some v | None \<Rightarrow> map_of env0 k)"
proof -
  define user where "user = mergeEnv (mergeEnv [] (GetTplEnvironment (GetTemplate (GetSpec sb))))
                               (GetSpecEnvironment (GetSpec sb))"
  obtain kept env0 where u: "userEnv user user baseEnv = Inr (kept, env0)"
    and env: "env = mergeEnv (if kept \<noteq> []
                 then AList.update ''OPENSHELL_USER_ENVIRONMENT'' (jsonStringMap kept) env0 else env0)
               (ownedEnv cfg sb t)"
    using e by (auto simp: sandboxEnv_def Let_def user_def split: sum.splits prod.splits)
  have ud: "distinct (map fst user)"
    using mergeEnv_distinct [of "mergeEnv [] (GetTplEnvironment (GetTemplate (GetSpec sb)))"]
      mergeEnv_distinct [of "[]"] by (simp add: user_def keysOf_def)
  show thesis
  proof (rule that [of env0])
    show "map_of env0 k = (if k \<in> set driverOwnedEnv \<or>
        map_of (mergeEnv (mergeEnv [] (GetTplEnvironment (GetTemplate (GetSpec sb))))
          (GetSpecEnvironment (GetSpec sb))) k = None then map_of baseEnv k
        else map_of (mergeEnv (mergeEnv [] (GetTplEnvironment (GetTemplate (GetSpec sb))))
          (GetSpecEnvironment (GetSpec sb))) k)" for k
      using userEnv_env [OF u ud] unfolding user_def .
    show "map_of env k = (case map_of (ownedEnv cfg sb t) k of Some v \<Rightarrow> Some v | None \<Rightarrow> map_of env0 k)"
      if "k \<noteq> ''OPENSHELL_USER_ENVIRONMENT''" for k
      using that unfolding env mergeEnv_lookup [OF ownedEnv_distinct] by (simp split: option.splits)
  qed
qed


definition demoSandbox :: DriverSandbox where
  "demoSandbox =
     \<lparr>sbId = ''sb1'', sbName = ''one'', sbNamespace = [], sbSpec = Some
        \<lparr>spLogLevel = [], spEnvironment = [(''EDITOR'', ''vi''), (''OPENSHELL_SANDBOX_TOKEN'', ''stolen'')],
         spTemplate = None, spResourceRequirements = None, spSandboxToken = ''jwt'', spCommand = [],
         spTty = False\<rparr>,
      sbStatus = None, sbWorkspace = []\<rparr>"


text \<open>
  The raw token never enters the environment, and neither do the gateway's TLS server
  name or an image user: those names are unset whatever the request says; the token file is
  named exactly when there is a token.
\<close>

theorem sandboxEnv_no_token:
  assumes e: "sandboxEnv cfg sb t = Inr env"
  shows "map_of env ''OPENSHELL_SANDBOX_TOKEN'' = None
    \<and> map_of env ''OPENSHELL_GATEWAY_TLS_SERVER_NAME'' = None
    \<and> map_of env ''OPENSHELL_OCI_IMAGE_USER'' = None
    \<and> map_of env ''OPENSHELL_SANDBOX_TOKEN_FILE'' = (if t then Some guestTokenFile else None)"
proof -
  have l: "map_of env k = map_of (ownedEnv cfg sb t) k"
    if "k \<in> set driverOwnedEnv" "k \<noteq> ''OPENSHELL_USER_ENVIRONMENT''" "k \<notin> fst ` set baseEnv" for k
  proof -
    have "map_of baseEnv k = None" using that(3) by (simp add: map_of_eq_None_iff)
    then show ?thesis
      using sandboxEnv_split [OF e] that(1,2) by (smt (verit) option.case_eq_if option.collapse)
  qed
  show ?thesis
    by (cases t; cases "HasPrefix (cfgGRPCEndpoint cfg) ''https://''";
        simp add: l driverOwnedEnv_def baseEnv_def) (simp_all add: ownedEnv_def Let_def)
qed

theorem sandboxEnv_no_token_witness:
  "\<exists>env. sandboxEnv (flCfg (flagDefaults (\<lambda>_. None) (\<lambda>_. False))) (Some demoSandbox) True = Inr env
     \<and> map_of env ''OPENSHELL_SANDBOX_TOKEN'' = None
     \<and> map_of env ''OPENSHELL_SANDBOX_TOKEN_FILE'' = Some ''/openshell-seed/auth/sandbox.jwt''"
proof -
  let ?c = "flCfg (flagDefaults (\<lambda>_. None) (\<lambda>_. False))"
  have "case sandboxEnv ?c (Some demoSandbox) True of Inr _ \<Rightarrow> True | Inl _ \<Rightarrow> False"
    by code_simp
  then obtain env where e: "sandboxEnv ?c (Some demoSandbox) True = Inr env"
    by (auto split: sum.splits)
  with sandboxEnv_no_token [OF e] show ?thesis by (simp add: guestTokenFile_def GuestSeedDir_def)
qed

subsection \<open>What the guest reads\<close>

definition mainProcessTree :: "mainProcessSpec \<Rightarrow> JValue" where
  "mainProcessTree p = JObj
     [(''version'', JNum (natString (mpVersion p))), (''command'', JList (map JStr (mpCommand p))),
      (''tty'', JBool (mpTTY p))]"

lemma mainProcessJSON_encodes: "mainProcessJSON p = encodeJSON (mainProcessTree p)"
  by (simp add: mainProcessJSON_def mainProcessTree_def encodeJSON_def comp_def)

definition stringMapTree :: "strmap \<Rightarrow> JValue" where
  "stringMapTree m = JObj (map (\<lambda>k. (k, JStr (mapGet m k))) (sortedKeys m))"

lemma jsonStringMap_encodes: "jsonStringMap m = encodeJSON (stringMapTree m)"
  by (simp add: jsonStringMap_def stringMapTree_def encodeJSON_def comp_def)

text \<open>Both are read back; the guest's map has the entries of the driver's.\<close>

lemma mainProcess_read_back:
  assumes "list_all (\<lambda>s. validUTF8 s = s) (mpCommand p)"
  shows "parseJSON (mainProcessJSON p) = Some (mainProcessTree p)"
proof -
  have "encodable (mainProcessTree p)" "jsonDepth (mainProcessTree p) \<le> maxNestingDepth"
  proof -
    have "fold max (map (jsonDepth \<circ> JStr) ws) 0 = 0" for ws by (induction ws) simp_all
    then show "jsonDepth (mainProcessTree p) \<le> maxNestingDepth" by (simp add: mainProcessTree_def maxNestingDepth_def)
    show "encodable (mainProcessTree p)" by (simp add: mainProcessTree_def isNumber_natString list_all_iff)
  qed
  moreover have "validUTF8 ''version'' = ''version''" "validUTF8 ''command'' = ''command''" "validUTF8 ''tty'' = ''tty''"
    by (simp_all add: validUTF8_ascii)
  then have "asText (mainProcessTree p) = mainProcessTree p"
    using assms by (simp add: mainProcessTree_def list_all_iff)
  ultimately show ?thesis using parse_encodeJSON by (simp add: mainProcessJSON_encodes)
qed

lemma stringMap_read_back:
  assumes d: "distinct (keysOf m)" and x: "list_all (\<lambda>(k, v). validUTF8 k = k \<and> validUTF8 v = v) m"
  shows "\<exists>m'. Unmarshal GTStrMap (jsonStringMap m) = Some (VStrMap m') \<and> map_of m' = map_of m"
proof -
  let ?ps = "map (\<lambda>k. (k, mapGet m k)) (sortedKeys m)"
  have tree: "stringMapTree m = JObj (map (\<lambda>(k, v). (k, JStr v)) ?ps)" by (simp add: stringMapTree_def)
  have same: "validUTF8 k = k \<and> validUTF8 (mapGet m k) = mapGet m k" if k: "k \<in> set (sortedKeys m)" for k
  proof -
    obtain v where "map_of m k = Some v" using k by auto
    then show ?thesis using x by (auto simp: list_all_iff dest!: map_of_SomeD)
  qed
  have "fold max (map ((\<lambda>(k, v). jsonDepth v) \<circ> (\<lambda>k. (k, JStr (mapGet m k)))) ks) 0 = 0" for ks by (induction ks) simp_all
  then have "encodable (stringMapTree m)" "jsonDepth (stringMapTree m) \<le> maxNestingDepth"
    by (simp_all add: stringMapTree_def maxNestingDepth_def list_all_iff)
  moreover have "asText (stringMapTree m) = stringMapTree m"
    using same by (simp add: stringMapTree_def)
  ultimately have "parseJSON (jsonStringMap m) = Some (stringMapTree m)"
    using parse_encodeJSON by (simp add: jsonStringMap_encodes)
  moreover have ds: "distinct (map fst ?ps)"
    using d by (simp add: comp_def sortedKeys_def keysOf_def)
  ultimately have "Unmarshal GTStrMap (jsonStringMap m) = Some (VStrMap ?ps)"
    using decodeStrMap_pairs [of "[]" ?ps] by (simp add: Unmarshal_def tree)
  moreover have "map_of (map (\<lambda>k. (k, mapGet m k)) ks) k = (if k \<in> set ks then Some (mapGet m k) else None)" for ks k
    by (induction ks) auto
  then have "map_of ?ps k = map_of m k" for k
    by (cases "map_of m k") (simp_all add: domIff)
  ultimately show ?thesis by blast
qed

text \<open>The variables the loop leaves for the guest's map: the user's, less the driver's names.\<close>

lemma userEnv_kept:
  "userEnv kvs user env = Inr (kept, env') \<Longrightarrow>
     map_of kept k = (if k \<in> set driverOwnedEnv \<and> k \<in> fst ` set kvs then None else map_of user k)
     \<and> set kept \<subseteq> set user \<and> (distinct (keysOf user) \<longrightarrow> distinct (keysOf kept))"
proof (induction kvs user env rule: userEnv.induct)
  case (2 a b kvs user env)
  have ok: "TrimSpace a \<noteq> []" "\<not> (ContainsAny a [CHR ''='', CHR 0x00] \<or> Contains b [CHR 0x00])"
    using "2.prems" by (auto split: if_splits)
  show ?case
  proof (cases "a \<in> set driverOwnedEnv")
    case True
    then have "userEnv kvs (AList.delete a user) env = Inr (kept, env')" using "2.prems" ok by simp
    note IH = "2.IH"(1) [OF ok True this]
    have "set (AList.delete a user) \<subseteq> set user" by (auto simp: AList.delete_eq)
    moreover have "distinct (keysOf user) \<longrightarrow> distinct (keysOf (AList.delete a user))"
      by (simp add: keysOf_def distinct_delete)
    moreover have "map_of kept k = (if k \<in> set driverOwnedEnv \<and> k \<in> fst ` set ((a, b) # kvs) then None else map_of user k)"
      using IH True by (cases "k = a") (simp_all add: delete_conv')
    ultimately show ?thesis using IH by blast
  next
    case False
    then have "userEnv kvs user (AList.update a b env) = Inr (kept, env')" using "2.prems" ok by simp
    from "2.IH"(2) [OF ok False this] False show ?thesis by auto
  qed
qed simp

lemma sandboxEnv_user:
  assumes e: "sandboxEnv cfg sb t = Inr env" and d: "mapsDistinct sb"
  obtains kept where "\<forall>k. map_of kept k = (if k \<in> set driverOwnedEnv then None else userVars sb k)"
    and "distinct (keysOf kept)"
    and "map_of env ''OPENSHELL_USER_ENVIRONMENT'' = (if kept = [] then None else Some (jsonStringMap kept))"
proof -
  define user where "user = mergeEnv (mergeEnv [] (GetTplEnvironment (GetTemplate (GetSpec sb)))) (GetSpecEnvironment (GetSpec sb))"
  obtain kept env0 where u: "userEnv user user baseEnv = Inr (kept, env0)"
    and env: "env = mergeEnv (if kept \<noteq> []
                 then AList.update ''OPENSHELL_USER_ENVIRONMENT'' (jsonStringMap kept) env0 else env0)
               (ownedEnv cfg sb t)"
    using e by (auto simp: sandboxEnv_def Let_def user_def split: sum.splits prod.splits)
  have ud: "distinct (keysOf user)" unfolding user_def by (intro mergeEnv_distinct) (simp add: keysOf_def)
  have um: "map_of user k = userVars sb k" for k
    using d by (simp add: user_def mergeEnv_lookup mapsDistinct_def userVars_def split: option.splits)
  have o: "map_of (ownedEnv cfg sb t) ''OPENSHELL_USER_ENVIRONMENT'' = None"
    unfolding ownedEnv_def Let_def by (simp split: if_split)
  have "map_of env0 ''OPENSHELL_USER_ENVIRONMENT'' = map_of baseEnv ''OPENSHELL_USER_ENVIRONMENT''"
    using userEnv_env [OF u] ud by (simp add: keysOf_def driverOwnedEnv_def)
  also have "\<dots> = None" by (simp add: baseEnv_def)
  finally have env0: "map_of env0 ''OPENSHELL_USER_ENVIRONMENT'' = None" .
  show thesis
  proof
    show "\<forall>k. map_of kept k = (if k \<in> set driverOwnedEnv then None else userVars sb k)"
      using userEnv_kept [OF u] unfolding um [symmetric] by (auto simp: map_of_eq_None_iff)
    show "distinct (keysOf kept)" using userEnv_kept [OF u] ud by blast
    show "map_of env ''OPENSHELL_USER_ENVIRONMENT'' = (if kept = [] then None else Some (jsonStringMap kept))"
      unfolding env mergeEnv_lookup [OF ownedEnv_distinct] o using env0 by simp
  qed
qed

text \<open>Protobuf strings are UTF-8: the names and values of the user's variables and the command.\<close>

definition textSandbox :: "DriverSandbox option \<Rightarrow> bool" where
  "textSandbox sb \<longleftrightarrow>
     (\<forall>(k, v) \<in> set (GetSpecEnvironment (GetSpec sb)) \<union> set (GetTplEnvironment (GetTemplate (GetSpec sb))).
        validUTF8 k = k \<and> validUTF8 v = v)
     \<and> list_all (\<lambda>s. validUTF8 s = s) (GetCommand (GetSpec sb))"



end
