(* ===== verification/Quantity.thy ===== *)
theory Quantity
  imports GoStrings Complex_Main "HOL-Library.Log_Nat"
begin

section \<open>Resource quantities (\<open>internal/grpcsvc/quantity.go\<close>)\<close>

text \<open>
  The two parsers of Kubernetes-style quantities, over a model of
  \<open>strconv.ParseFloat(s, 64)\<close>: the full accepted syntax (decimal and hexadecimal
  mantissas, exponents, digit separators, infinities and NaN) and IEEE double rounding
  to nearest, ties to even, over exact rationals.
\<close>

subsection \<open>Doubles\<close>

datatype gofloat = Fin rat | PosInf | NegInf | NaN

definition pow2 :: "int \<Rightarrow> rat" where
  "pow2 e = (if 0 \<le> e then 2 ^ nat e else 1 / 2 ^ nat (- e))"

text \<open>The exponent of the last place of the double nearest to a positive rational.\<close>

definition ulpExp :: "rat \<Rightarrow> int" where
  "ulpExp q =
     (let (a, b) = quotient_of q;
          e = bitlen a - bitlen b - 53
      in max (- 1074) (if q < 2 ^ 53 * pow2 e then e else e + 1))"

definition roundEven :: "rat \<Rightarrow> int" where
  "roundEven x =
     (let n = \<lfloor>x\<rfloor>; d = x - of_int n
      in if d < 1 / 2 \<or> d = 1 / 2 \<and> even n then n else n + 1)"

text \<open>\<open>None\<close> is overflow.\<close>

definition roundF64 :: "rat \<Rightarrow> rat option" where
  "roundF64 q =
     (if q = 0 then Some 0
      else (let e = ulpExp \<bar>q\<bar>; r = of_int (roundEven (\<bar>q\<bar> / pow2 e)) * pow2 e
            in if 2 ^ 1024 \<le> r then None else Some (if q < 0 then - r else r)))"

definition toFloat :: "rat \<Rightarrow> gofloat" where
  "toFloat q =
     (case roundF64 q of Some r \<Rightarrow> Fin r | None \<Rightarrow> (if q < 0 then NegInf else PosInf))"

text \<open>Multiplication by, and division by, a positive constant.\<close>

definition fscale :: "gofloat \<Rightarrow> rat \<Rightarrow> gofloat" where
  "fscale x k = (case x of Fin q \<Rightarrow> toFloat (q * k) | y \<Rightarrow> y)"

text \<open>
  \<open>int64(math.Ceil(x))\<close>. The language leaves the result of a conversion out of range to
  the implementation, so it is the parameter \<open>impl\<close>.
\<close>

definition ceilInt64 :: "(gofloat \<Rightarrow> int) \<Rightarrow> gofloat \<Rightarrow> int" where
  "ceilInt64 impl x =
     (case x of
        Fin q \<Rightarrow> (if - (2 ^ 63) \<le> \<lceil>q\<rceil> \<and> \<lceil>q\<rceil> < 2 ^ 63 then \<lceil>q\<rceil> else impl x)
      | _ \<Rightarrow> impl x)"

subsection \<open>\<open>strconv.ParseFloat\<close>\<close>

text \<open>The mantissa: whether a digit was seen, its value, the digits after the point.\<close>

fun scanMant :: "bool \<Rightarrow> bool \<Rightarrow> bool \<Rightarrow> int \<Rightarrow> nat \<Rightarrow> string \<Rightarrow> bool \<times> int \<times> nat \<times> string" where
  "scanMant hex dot dg m f [] = (dg, m, f, [])"
| "scanMant hex dot dg m f (c # s) =
     (if c = CHR ''_'' then scanMant hex dot dg m f s
      else if c = CHR ''.'' then
        (if dot then (dg, m, f, c # s) else scanMant hex True dg m f s)
      else if isDigit c then
        scanMant hex dot True (m * (if hex then 16 else 10) + int (digitVal c))
          (if dot then Suc f else f) s
      else if hex \<and> isHexLetter c then
        scanMant hex dot True (m * 16 + int (hexVal c)) (if dot then Suc f else f) s
      else (dg, m, f, c # s))"

fun scanExp :: "nat \<Rightarrow> string \<Rightarrow> nat \<times> string" where
  "scanExp e [] = (e, [])"
| "scanExp e (c # s) =
     (if c = CHR ''_'' then scanExp e s
      else if isDigit c then scanExp (if e < 10000 then e * 10 + digitVal c else e) s
      else (e, c # s))"

text \<open>The exponent part after its letter, which must consume the rest of the input.\<close>

definition expPart :: "string \<Rightarrow> int option" where
  "expPart s =
     (let (neg, t) = (case s of
                        c # u \<Rightarrow> (if c = CHR ''-'' then (True, u)
                                 else if c = CHR ''+'' then (False, u) else (False, s))
                      | [] \<Rightarrow> (False, []))
      in case t of
           [] \<Rightarrow> None
         | d # v \<Rightarrow>
             (if \<not> isDigit d then None
              else (let (e, r) = scanExp 0 t
                    in if r \<noteq> [] then None else Some (if neg then - int e else int e))))"

definition pow10 :: "int \<Rightarrow> rat" where
  "pow10 e = (if 0 \<le> e then 10 ^ nat e else 1 / 10 ^ nat (- e))"

text \<open>The exact value of an unsigned numeral.\<close>

definition readUnsigned :: "string \<Rightarrow> rat option" where
  "readUnsigned s =
     (let hex = (case s of a # b # c # r \<Rightarrow> a = CHR ''0'' \<and> lowerChar b = CHR ''x'' | _ \<Rightarrow> False);
          (dg, m, f, r) = scanMant hex False False 0 0 (if hex then drop 2 s else s)
      in if \<not> dg \<or> CHR ''_'' \<in> set s \<and> \<not> underscoreOK s then None
         else (case r of
                 [] \<Rightarrow> (if hex then None else Some (of_int m * pow10 (- int f)))
               | c # t \<Rightarrow>
                   (if lowerChar c \<noteq> (if hex then CHR ''p'' else CHR ''e'') then None
                    else (case expPart t of
                            None \<Rightarrow> None
                          | Some e \<Rightarrow>
                              Some (if m = 0 then 0
                                    else if hex then of_int m * pow2 (e - 4 * int f)
                                    else of_int m * pow10 (e - int f))))))"

definition isInfName :: "string \<Rightarrow> bool" where
  "isInfName s \<longleftrightarrow> map lowerChar s \<in> {''inf'', ''infinity''}"

definition ParseFloat :: "string \<Rightarrow> gofloat option" where
  "ParseFloat s =
     (let (neg, t) = (case s of
                        c # u \<Rightarrow> (if c = CHR ''-'' then (True, u)
                                 else if c = CHR ''+'' then (False, u) else (False, s))
                      | [] \<Rightarrow> (False, []))
      in if isInfName t then Some (if neg then NegInf else PosInf)
         else if map lowerChar s = ''nan'' then Some NaN
         else (case readUnsigned t of
                 None \<Rightarrow> None
               | Some v \<Rightarrow> (case roundF64 v of
                             None \<Rightarrow> None
                           | Some r \<Rightarrow> Some (Fin (if neg then - r else r)))))"

subsection \<open>The parsers\<close>

definition badQuantity :: "gofloat \<Rightarrow> bool" where
  "badQuantity x = (case x of Fin q \<Rightarrow> q < 0 | _ \<Rightarrow> True)"

definition ParseCPUQuantity :: "(gofloat \<Rightarrow> int) \<Rightarrow> string \<Rightarrow> err + int" where
  "ParseCPUQuantity impl s0 =
     (let s = TrimSpace s0; bad = Inl (errorf ''invalid cpu quantity %q'' [s])
      in if s = [] then Inr 0
         else (case (if HasSuffix s ''m''
                     then map_option (\<lambda>x. fscale x (1 / 1000)) (ParseFloat (TrimSuffix s ''m''))
                     else ParseFloat s) of
                 None \<Rightarrow> bad
               | Some cores \<Rightarrow>
                   (if badQuantity cores then bad
                    else if cores = Fin 0 then Inr 0
                    else (let n = ceilInt64 impl cores in Inr (if n < 1 then 1 else n)))))"

definition memorySuffixes :: "(string \<times> rat) list" where
  "memorySuffixes =
     [(''Ki'', 2 ^ 10), (''Mi'', 2 ^ 20), (''Gi'', 2 ^ 30), (''Ti'', 2 ^ 40),
      (''K'', 10 ^ 3), (''M'', 10 ^ 6), (''G'', 10 ^ 9), (''T'', 10 ^ 12)]"

definition ParseMemoryQuantityMB :: "(gofloat \<Rightarrow> int) \<Rightarrow> string \<Rightarrow> err + int" where
  "ParseMemoryQuantityMB impl s0 =
     (let s = TrimSpace s0; bad = Inl (errorf ''invalid memory quantity %q'' [s])
      in if s = [] then Inr 0
         else (let (num, factor) = (case find (\<lambda>(suf, fac). HasSuffix s suf) memorySuffixes of
                                      Some (suf, fac) \<Rightarrow> (TrimSuffix s suf, fac)
                                    | None \<Rightarrow> (s, 1))
               in case ParseFloat num of
                    None \<Rightarrow> bad
                  | Some v \<Rightarrow>
                      (if badQuantity v then bad
                       else (let bs = fscale v factor
                             in if bs = Fin 0 then Inr 0
                                else (let mb = ceilInt64 impl (fscale bs (1 / 2 ^ 20))
                                      in Inr (if mb < 1 then 1 else mb))))))"

subsection \<open>Rounding\<close>

lemma pow2_pos [simp]: "0 < pow2 e"
  by (simp add: pow2_def)

lemma pow2_powi: "pow2 e = 2 powi e"
  by (simp add: pow2_def power_int_def inverse_eq_divide power_one_over)

lemma pow2_add: "pow2 (a + b) = pow2 a * pow2 b"
  by (simp add: pow2_powi power_int_add)

lemma pow2_nat: "pow2 (int n) = 2 ^ n"
  by (simp add: pow2_def)

lemma pow2_mono: "a \<le> b \<Longrightarrow> pow2 a \<le> pow2 b"
  unfolding pow2_powi by (rule power_int_increasing) simp_all

lemma pow2_nonzero [simp]: "pow2 e \<noteq> 0"
  using pow2_pos [of e] by linarith

lemma pow2_nonneg [simp]: "0 \<le> pow2 e"
  using pow2_pos [of e] by linarith

lemma bitlen_pow2_bounds:
  assumes "0 < a"
  shows "pow2 (bitlen a - 1) \<le> of_int a" "of_int a < pow2 (bitlen a)"
proof -
  have b: "1 \<le> bitlen a" using assms by (simp add: compute_bitlen [of a] bitlen_nonneg)
  then have "pow2 (bitlen a - 1) = of_int (2 ^ nat (bitlen a - 1))"
    "pow2 (bitlen a) = of_int (2 ^ nat (bitlen a))"
    by (simp_all add: pow2_def)
  then show "pow2 (bitlen a - 1) \<le> of_int a" "of_int a < pow2 (bitlen a)"
    using bitlen_bounds [OF assms] by (simp_all only: of_int_le_iff of_int_less_iff)
qed

lemma ulpExp_bounds:
  assumes "0 < q"
  shows "q < 2 ^ 53 * pow2 (ulpExp q)"
    and "- 1074 < ulpExp q \<Longrightarrow> 2 ^ 52 * pow2 (ulpExp q) \<le> q"
proof -
  obtain a b where ab: "quotient_of q = (a, b)" by fastforce
  have b: "0 < b" using quotient_of_denom_pos [OF ab] .
  have q: "q = of_int a / of_int b" using quotient_of_div [OF ab] .
  then have a: "0 < a" using assms b by (simp add: zero_less_divide_iff)
  define e where "e = bitlen a - bitlen b - 53"
  have split: "pow2 (bitlen a) = 2 ^ 53 * pow2 e * pow2 (bitlen b)"
  proof -
    have "pow2 53 = 2 ^ 53" by (simp add: pow2_def)
    moreover have "pow2 (bitlen a) = pow2 (53 + e + bitlen b)" by (simp add: e_def)
    ultimately show ?thesis by (simp only: pow2_add)
  qed
  have half: "pow2 (n - 1) * 2 = pow2 n" for n
    using pow2_add [of "n - 1" 1] by (simp add: pow2_def [of 1])
  have up: "q < 2 ^ 54 * pow2 e"
  proof -
    have "of_int a < 2 ^ 53 * pow2 e * pow2 (bitlen b)"
      using bitlen_pow2_bounds(2) [OF a] split by simp
    also have "\<dots> \<le> 2 ^ 53 * pow2 e * (2 * of_int b)"
      using bitlen_pow2_bounds(1) [OF b] half [of "bitlen b"] by (intro mult_left_mono) auto
    finally show ?thesis using b by (simp add: q divide_less_eq)
  qed
  have lo: "2 ^ 52 * pow2 e \<le> q"
  proof -
    have "2 ^ 52 * pow2 e * of_int b \<le> 2 ^ 52 * pow2 e * pow2 (bitlen b)"
      using bitlen_pow2_bounds(2) [OF b] by (intro mult_left_mono) auto
    also have "\<dots> = pow2 (bitlen a - 1)" using split half [of "bitlen a"] by simp
    also have "\<dots> \<le> of_int a" using bitlen_pow2_bounds(1) [OF a] .
    finally show ?thesis using b by (simp add: q le_divide_eq)
  qed
  have step: "pow2 (e + 1) = 2 * pow2 e" using half [of "e + 1"] by simp
  have u: "ulpExp q = max (- 1074) (if q < 2 ^ 53 * pow2 e then e else e + 1)"
    by (simp add: ulpExp_def ab e_def)
  have "q < 2 ^ 53 * pow2 (if q < 2 ^ 53 * pow2 e then e else e + 1)"
    using up step by simp
  also have "\<dots> \<le> 2 ^ 53 * pow2 (ulpExp q)"
    unfolding u by (intro mult_left_mono pow2_mono) auto
  finally show "q < 2 ^ 53 * pow2 (ulpExp q)" .
  show "2 ^ 52 * pow2 (ulpExp q) \<le> q" if "- 1074 < ulpExp q"
    using that lo step unfolding u by (auto simp: max_def split: if_splits)
qed

lemma roundEven_int [simp]: "roundEven (of_int n) = n"
  by (simp add: roundEven_def)

lemma roundEven_error: "\<bar>of_int (roundEven x) - x\<bar> \<le> 1 / 2"
proof -
  define d where "d = x - of_int \<lfloor>x\<rfloor>"
  have d: "0 \<le> d" "d < 1" unfolding d_def by linarith+
  have "of_int (roundEven x) - x = (if d < 1 / 2 \<or> d = 1 / 2 \<and> even \<lfloor>x\<rfloor> then - d else 1 - d)"
    by (simp add: roundEven_def Let_def d_def)
  with d show ?thesis by (auto simp: abs_if)
qed

text \<open>A number with at most 53 significant bits is its own double.\<close>

lemma roundF64_exact:
  assumes n: "0 \<le> n" "n < 2 ^ 53" and j: "- 1074 \<le> j" and small: "of_int n * pow2 j < 2 ^ 1024"
  shows "roundF64 (of_int n * pow2 j) = Some (of_int n * pow2 j)"
proof (cases "n = 0")
  case True
  then show ?thesis by (simp add: roundF64_def)
next
  case False
  define q where "q = of_int n * pow2 j"
  have q: "0 < q" using False n by (simp add: q_def)
  define e where "e = ulpExp q"
  have "e \<le> j"
  proof (rule ccontr)
    assume "\<not> e \<le> j"
    then have je: "j + 1 \<le> e" by simp
    then have "2 ^ 52 * pow2 e \<le> q" using ulpExp_bounds(2) [OF q] j by (simp add: e_def)
    moreover have "2 * pow2 j \<le> pow2 e"
      using pow2_mono [OF je] pow2_add [of j 1] by (simp add: pow2_def [of 1])
    ultimately have "2 ^ 52 * (2 * pow2 j) \<le> of_int n * pow2 j"
      unfolding q_def by (meson mult_left_mono order_trans zero_le_numeral zero_le_power)
    then have "2 ^ 53 * pow2 j \<le> of_int n * pow2 j" by simp
    then have "(2 ^ 53 :: rat) \<le> of_int n" by simp
    then show False using n(2) by (simp add: of_int_le_iff [of "2 ^ 53", symmetric] del: of_int_le_iff)
  qed
  then have "pow2 j = pow2 (j - e) * pow2 e" using pow2_add [of "j - e" e] by simp
  moreover have "pow2 (j - e) = of_int (2 ^ nat (j - e))" using \<open>e \<le> j\<close> by (simp add: pow2_def)
  ultimately have d: "q / pow2 e = of_int (n * 2 ^ nat (j - e))"
    using pow2_pos [of e] by (simp add: q_def)
  have "of_int (roundEven (q / pow2 e)) * pow2 e = q"
    unfolding d roundEven_int unfolding d [symmetric] using pow2_pos [of e] by simp
  then show ?thesis
    using q small unfolding q_def [symmetric] by (simp add: roundF64_def e_def Let_def)
qed

lemma roundF64_nat: "k < 2 ^ 53 \<Longrightarrow> roundF64 (of_nat k) = Some (of_nat k)"
proof -
  assume k: "k < 2 ^ 53"
  then have "(of_nat k :: rat) < 2 ^ 53" by (metis of_nat_less_iff of_nat_numeral of_nat_power)
  also have "\<dots> \<le> 2 ^ 1024" by (rule power_increasing) simp_all
  finally have "of_int (int k) * pow2 0 < 2 ^ 1024" by (simp add: pow2_def)
  moreover have "int k < 2 ^ 53" using k by simp
  ultimately show ?thesis using roundF64_exact [of "int k" 0] by (simp add: pow2_def)
qed

text \<open>Otherwise the relative error is at most half a unit in the last place.\<close>

lemma roundF64_error:
  assumes q: "0 < q" "q < 2 ^ 1000" and u: "- 1074 < ulpExp q"
  shows "\<exists>r. roundF64 q = Some r \<and> \<bar>r - q\<bar> \<le> q / 2 ^ 53"
proof -
  define e where "e = ulpExp q"
  define r where "r = of_int (roundEven (q / pow2 e)) * pow2 e"
  have "r - q = (of_int (roundEven (q / pow2 e)) - q / pow2 e) * pow2 e"
    unfolding r_def by (simp add: left_diff_distrib)
  then have "\<bar>r - q\<bar> = \<bar>of_int (roundEven (q / pow2 e)) - q / pow2 e\<bar> * pow2 e"
    by (simp only: abs_mult) simp
  also have "\<dots> \<le> 1 / 2 * pow2 e"
    using roundEven_error [of "q / pow2 e"] by (intro mult_right_mono) simp_all
  also have "\<dots> \<le> q / 2 ^ 53"
    using ulpExp_bounds(2) [OF q(1) u] by (simp add: e_def)
  finally have err: "\<bar>r - q\<bar> \<le> q / 2 ^ 53" .
  also have "\<dots> \<le> q" using q(1) by simp
  finally have "r \<le> 2 * q" by simp
  also have "\<dots> < 2 * 2 ^ 1000" using q(2) by simp
  also have "(2 * 2 ^ 1000 :: rat) \<le> 2 ^ 1024"
    by (subst power_Suc [symmetric]) (rule power_increasing, simp_all)
  finally have "roundF64 q = Some r"
    using q(1) by (simp add: roundF64_def Let_def e_def [symmetric] r_def [symmetric])
  with err show ?thesis by blast
qed

lemma ulpExp_normal: "1 / 1000 \<le> q \<Longrightarrow> - 1074 < ulpExp q"
proof (rule ccontr)
  assume q: "1 / 1000 \<le> q" and "\<not> - 1074 < ulpExp q"
  then have "pow2 (ulpExp q) \<le> pow2 (- 1000)" by (intro pow2_mono) simp
  moreover have "pow2 (- 1000) = 1 / 2 ^ 1000" by (simp add: pow2_def)
  moreover have "q < 2 ^ 53 * pow2 (ulpExp q)" using q by (intro ulpExp_bounds(1)) simp
  moreover have "(1 / 2 ^ 1000 :: rat) \<le> 1 / 2 ^ 64"
    by (intro divide_left_mono power_increasing) simp_all
  ultimately have p: "pow2 (ulpExp q) \<le> 1 / 2 ^ 64" "q < 2 ^ 53 * pow2 (ulpExp q)"
    by (metis order_trans)+
  have "2 ^ 53 * pow2 (ulpExp q) \<le> 2 ^ 53 * (1 / 2 ^ 64)"
    using p(1) by (intro mult_left_mono) simp_all
  then have "q < 2 ^ 53 * (1 / 2 ^ 64)" using p(2) by (rule less_le_trans [rotated])
  with q show False by simp
qed

text \<open>Thousandths round up like the exact quotient.\<close>

lemma ceil_milli:
  assumes k: "0 < k" "k < 10 ^ 12"
  shows "\<exists>r. roundF64 (of_nat k / 1000) = Some r \<and> 0 < r \<and> \<lceil>r\<rceil> = int ((k + 999) div 1000)"
proof -
  define m where "m = (k + 999) div 1000"
  define q where "q = (of_nat k / 1000 :: rat)"
  have m: "1000 * m < k + 1000" "k \<le> 1000 * m" "0 < m"
    using k(1) unfolding m_def by (simp_all add: div_greater_zero_iff)
  have km: "k < 1000000000000" using k(2) by simp
  have qb: "1 / 1000 \<le> q" "q \<le> 10 ^ 9"
    using k(1) km by (simp_all add: q_def divide_le_eq)
  show ?thesis
  proof (cases "k = 1000 * m")
    case True
    then have "q = of_nat m" by (simp add: q_def)
    moreover have "m < 2 ^ 53" using True km by simp
    ultimately show ?thesis
      using roundF64_nat [of m] m(3) unfolding q_def [symmetric] m_def [symmetric] by simp
  next
    case False
    have "q < 2 ^ 1000"
    proof -
      have "q < 2 ^ 64" using qb by simp
      also have "\<dots> \<le> (2 ^ 1000 :: rat)" by (rule power_increasing) simp_all
      finally show ?thesis .
    qed
    then obtain r where r: "roundF64 q = Some r" "\<bar>r - q\<bar> \<le> q / 2 ^ 53"
      using roundF64_error [of q] ulpExp_normal [OF qb(1)] qb(1) by fastforce
    have "q / 2 ^ 53 < 1 / 1000000" using qb by simp
    with r(2) have rq: "r < q + 1 / 1000000" "q - 1 / 1000000 < r" by linarith+
    have "k + 1 \<le> 1000 * m" using False m(2) by simp
    then have "(of_nat (k + 1) :: rat) \<le> of_nat (1000 * m)" by (simp only: of_nat_le_iff)
    then have up: "q + 1 / 1000 \<le> of_nat m" by (simp add: q_def)
    have "1000 * m + 1 \<le> k + 1000" using m(1) by simp
    then have "(of_nat (1000 * m + 1) :: rat) \<le> of_nat (k + 1000)" by (simp only: of_nat_le_iff)
    then have lo: "of_nat m - 1 + 1 / 1000 \<le> q" by (simp add: q_def)
    have "\<lceil>r\<rceil> = int m"
    proof (rule ceiling_unique)
      show "of_int (int m) - 1 < r" using lo rq(2) by simp
      show "r \<le> of_int (int m)" using up rq(1) by simp
    qed
    moreover have "0 < r" using qb(1) rq(2) by simp
    ultimately show ?thesis using r(1) by (simp add: m_def q_def)
  qed
qed

subsection \<open>Decimal numerals\<close>

lemma lowerChar_digit: "isDigit c \<Longrightarrow> lowerChar c = c"
  by (simp add: isDigit_def lowerChar_def Let_def)

lemma isDigit_not:
  "isDigit c \<Longrightarrow> c \<noteq> CHR ''_'' \<and> c \<noteq> CHR ''.'' \<and> c \<noteq> CHR ''-'' \<and> c \<noteq> CHR ''+''
     \<and> c \<noteq> CHR ''x'' \<and> c \<noteq> CHR ''i'' \<and> c \<noteq> CHR ''n'' \<and> c \<noteq> CHR ''m'' \<and> c \<noteq> CHR ''K''
     \<and> c \<noteq> CHR ''M'' \<and> c \<noteq> CHR ''G'' \<and> c \<noteq> CHR ''T''"
  by (auto simp: isDigit_def)

lemma visible_digit: "isDigit c \<Longrightarrow> visible c"
  by (simp add: isDigit_def visible_def)

lemma scanMant_digits:
  "list_all isDigit s \<Longrightarrow>
     scanMant False False dg (int m) 0 s = (dg \<or> s \<noteq> [], int (digitsVal m s), 0, [])"
proof (induction s arbitrary: dg m)
  case (Cons c s)
  then show ?case
    using isDigit_not [of c] Cons.IH [of True "m * 10 + digitVal c"] by simp
qed simp

lemma digits_no_underscore: "list_all isDigit s \<Longrightarrow> CHR ''_'' \<notin> set s"
  using isDigit_not by (auto simp: list_all_iff)

lemma readUnsigned_digits:
  assumes "list_all isDigit s" and "s \<noteq> []"
  shows "readUnsigned s = Some (of_nat (digitsVal 0 s))"
proof -
  have "(case s of a # b # c # r \<Rightarrow> a = CHR ''0'' \<and> lowerChar b = CHR ''x'' | _ \<Rightarrow> False) = False"
    using assms(1) isDigit_not lowerChar_digit by (auto split: list.splits)
  then show ?thesis
    using scanMant_digits [OF assms(1), of False 0] assms digits_no_underscore
    by (simp add: readUnsigned_def pow10_def)
qed

lemma isInfName_digits: "list_all isDigit s \<Longrightarrow> \<not> isInfName s \<and> map lowerChar s \<noteq> ''nan''"
  using isDigit_not lowerChar_digit by (cases s) (auto simp: isInfName_def)

lemma ParseFloat_natString:
  assumes "k < 2 ^ 53"
  shows "ParseFloat (natString k) = Some (Fin (of_nat k))"
proof -
  obtain c t where s: "natString k = c # t" by (cases "natString k") auto
  have d: "list_all isDigit (c # t)" using isDigit_natString [of k] by (simp add: s)
  then have "c \<noteq> CHR ''-''" "c \<noteq> CHR ''+''" using isDigit_not by auto
  moreover have "readUnsigned (c # t) = Some (of_nat k)"
    using readUnsigned_digits [OF d] digitsVal_natString [of k] by (simp add: s)
  ultimately show ?thesis
    using isInfName_digits [OF d] roundF64_nat [OF assms] by (simp add: ParseFloat_def s)
qed

lemma natString_ends: "isDigit (hd (natString k))" "isDigit (last (natString k))"
  using isDigit_natString [of k] by (auto simp: list_all_iff)

lemma TrimSpace_natString:
  "TrimSpace (natString k) = natString k"
  "visible (last u) \<Longrightarrow> u \<noteq> [] \<Longrightarrow> TrimSpace (natString k @ u) = natString k @ u"
  using natString_ends [of k] by (simp_all add: TrimSpace_visible visible_digit)

lemma HasSuffix_last: "s \<noteq> [] \<Longrightarrow> u \<noteq> [] \<Longrightarrow> last s \<noteq> last u \<Longrightarrow> \<not> HasSuffix s u"
  by (auto simp: HasSuffix_def suffix_def)

lemma TrimSuffix_append [simp]: "TrimSuffix (s @ u) u = s" "HasSuffix (s @ u) u"
  by (simp_all add: TrimSuffix_def HasSuffix_def suffixI)

lemma ceilInt64_small:
  "of_int (- (2 ^ 63)) \<le> q \<Longrightarrow> \<lceil>q\<rceil> < 2 ^ 63 \<Longrightarrow> ceilInt64 impl (Fin q) = \<lceil>q\<rceil>"
proof -
  assume "of_int (- (2 ^ 63)) \<le> q" "\<lceil>q\<rceil> < 2 ^ 63"
  moreover from this have "- (2 ^ 63) \<le> \<lceil>q\<rceil>" by (meson le_ceiling_iff less_le_trans of_int_less_iff diff_less_eq less_add_one)
  ultimately show ?thesis by (simp add: ceilInt64_def)
qed

lemma cpu_whole:
  assumes "k < 2 ^ 53"
  shows "ParseCPUQuantity impl (natString k) = Inr (int k)"
proof -
  have "\<not> HasSuffix (natString k) ''m''"
    using natString_ends(2) [of k] isDigit_not by (intro HasSuffix_last) auto
  then show ?thesis
    using ParseFloat_natString [OF assms] assms ceilInt64_small [of "of_nat k" impl]
    by (simp add: ParseCPUQuantity_def TrimSpace_natString badQuantity_def Let_def)
qed

lemma cpu_milli:
  assumes "0 < k" "k < 10 ^ 12"
  shows "ParseCPUQuantity impl (natString k @ ''m'') = Inr (int ((k + 999) div 1000))"
proof -
  obtain r where r: "roundF64 (of_nat k / 1000) = Some r" "0 < r" "\<lceil>r\<rceil> = int ((k + 999) div 1000)"
    using ceil_milli [OF assms] by blast
  have "k < 2 ^ 53" using assms(2) by simp
  moreover have "ceilInt64 impl (Fin r) = int ((k + 999) div 1000)"
    using r assms(2) ceilInt64_small [of r impl] by simp
  moreover have "0 < (k + 999) div 1000" using assms(1) by (simp add: div_greater_zero_iff)
  ultimately show ?thesis
    using ParseFloat_natString [of k] r
    by (simp add: ParseCPUQuantity_def TrimSpace_natString visible_def badQuantity_def Let_def
        fscale_def toFloat_def)
qed

subsection \<open>Memory sizes\<close>

lemma toFloat_dyadic:
  assumes "k < 2 ^ 43" and "- 20 \<le> j" and "j \<le> 40"
  shows "toFloat (of_nat k * pow2 j) = Fin (of_nat k * pow2 j)"
proof -
  have k: "int k < 2 ^ 53" using assms(1) by simp
  have "of_nat k * pow2 j \<le> 2 ^ 53 * pow2 j"
  proof (rule mult_right_mono)
    have "of_int (int k) \<le> (of_int (2 ^ 53) :: rat)" using k by (subst of_int_le_iff) simp
    then show "(of_nat k :: rat) \<le> 2 ^ 53" by simp
  qed simp
  also have "\<dots> \<le> 2 ^ 53 * pow2 40" using assms(3) by (intro mult_left_mono pow2_mono) simp_all
  also have "\<dots> = 2 ^ 93" by (simp add: pow2_def)
  also have "(2 ^ 93 :: rat) < 2 ^ 1024" by (rule power_strict_increasing) simp_all
  finally have "of_int (int k) * pow2 j < 2 ^ 1024" by simp
  then show ?thesis
    using roundF64_exact [of "int k" j] k assms(2) by (simp add: toFloat_def)
qed

lemma memory_dyadic:
  assumes k: "k < 2 ^ 43" and j: "j \<le> 40"
    and f: "find (\<lambda>(suf, fac). HasSuffix s suf) memorySuffixes = fnd"
    and fnd: "fnd = Some (u, 2 ^ j) \<and> s = natString k @ u \<or> fnd = None \<and> s = natString k \<and> j = 0"
    and t: "TrimSpace s = s"
  shows "ParseMemoryQuantityMB impl s = Inr \<lceil>of_nat k * pow2 (int j - 20)\<rceil>"
proof -
  define b where "b = of_nat k * pow2 (int j - 20)"
  have 1: "fscale (Fin (of_nat k)) (2 ^ j) = Fin (of_nat k * 2 ^ j)"
    using toFloat_dyadic [OF k, of "int j"] j by (simp add: fscale_def pow2_nat)
  have e: "of_nat k * 2 ^ j * (1 / 2 ^ 20) = b"
    using pow2_add [of "int j" "- 20"] by (simp add: b_def pow2_nat pow2_def [of "- 20"])
  then have 2: "fscale (Fin (of_nat k * 2 ^ j)) (1 / 2 ^ 20) = Fin b"
    using toFloat_dyadic [OF k, of "int j - 20"] j unfolding fscale_def gofloat.case e b_def by simp
  have s: "s \<noteq> []" using fnd natString_nonempty [of k] by (metis append_is_Nil_conv)
  have m: "ParseMemoryQuantityMB impl s =
     (if (of_nat k * 2 ^ j :: rat) = 0 then Inr 0
      else (let mb = ceilInt64 impl (Fin b) in Inr (if mb < 1 then 1 else mb)))"
    using fnd f s t ParseFloat_natString [of k] k 1 2
    by (auto simp: ParseMemoryQuantityMB_def badQuantity_def Let_def)
  show ?thesis
  proof (cases "k = 0")
    case True
    then show ?thesis using m by (simp add: b_def)
  next
    case False
    then have b0: "0 < b" by (simp add: b_def)
    have "b \<le> of_nat k * pow2 20" unfolding b_def
      using j by (intro mult_left_mono pow2_mono) simp_all
    also have "\<dots> = of_int (int k * 2 ^ 20)" by (simp add: pow2_def)
    finally have "\<lceil>b\<rceil> \<le> int k * 2 ^ 20" by (simp add: ceiling_le_iff)
    also have "\<dots> < 2 ^ 63" using k by simp
    finally have "ceilInt64 impl (Fin b) = \<lceil>b\<rceil>" using b0 by (intro ceilInt64_small) simp_all
    moreover have "1 \<le> \<lceil>b\<rceil>" using b0 by simp
    ultimately show ?thesis
      using m False b0 unfolding b_def [symmetric] by (simp add: Let_def not_less)
  qed
qed

lemma find_binary:
  "find (\<lambda>(suf, fac). HasSuffix (s @ ''Ki'') suf) memorySuffixes = Some (''Ki'', 2 ^ 10)"
  "find (\<lambda>(suf, fac). HasSuffix (s @ ''Mi'') suf) memorySuffixes = Some (''Mi'', 2 ^ 20)"
  "find (\<lambda>(suf, fac). HasSuffix (s @ ''Gi'') suf) memorySuffixes = Some (''Gi'', 2 ^ 30)"
  "find (\<lambda>(suf, fac). HasSuffix (s @ ''Ti'') suf) memorySuffixes = Some (''Ti'', 2 ^ 40)"
  by (simp_all add: memorySuffixes_def HasSuffix_def suffix_append) (simp_all add: suffix_def append_eq_Cons_conv)

lemma find_plain: "find (\<lambda>(suf, fac). HasSuffix (natString k) suf) memorySuffixes = None"
proof -
  have "\<not> HasSuffix (natString k) u" if "u \<noteq> []" "last u \<in> set ''iKMGT''" for u
    using isDigit_not [OF natString_ends(2) [of k]] that by (intro HasSuffix_last) auto
  then show ?thesis by (simp add: memorySuffixes_def)
qed

lemma ceiling_pow2_div:
  "\<lceil>of_nat k * pow2 (- int n)\<rceil> = int ((k + (2 ^ n - 1)) div 2 ^ n)"
proof -
  have "(of_nat k * pow2 (- int n) :: rat) = of_int (int k) / of_int (2 ^ n)"
    by (simp add: pow2_def)
  then have "\<lceil>of_nat k * pow2 (- int n)\<rceil> = - (- int k div 2 ^ n)"
    by (simp only: ceiling_divide_eq_div)
  also have "- int k div 2 ^ n = - ((int k + (2 ^ n - 1)) div 2 ^ n)"
  proof (rule int_div_pos_eq)
    have "int k + (2 ^ n - 1) = 2 ^ n * ((int k + (2 ^ n - 1)) div 2 ^ n) + (int k + (2 ^ n - 1)) mod 2 ^ n"
      by simp
    then show "- int k = 2 ^ n * - ((int k + (2 ^ n - 1)) div 2 ^ n)
                           + (2 ^ n - 1 - (int k + (2 ^ n - 1)) mod 2 ^ n)"
      by linarith
    have "(int k + (2 ^ n - 1)) mod 2 ^ n < 2 ^ n" by simp
    then show "0 \<le> 2 ^ n - 1 - (int k + (2 ^ n - 1)) mod 2 ^ n" by linarith
    have "0 \<le> (int k + (2 ^ n - 1)) mod 2 ^ n" by simp
    then show "2 ^ n - 1 - (int k + (2 ^ n - 1)) mod 2 ^ n < 2 ^ n" by linarith
  qed
  finally have "\<lceil>of_nat k * pow2 (- int n)\<rceil> = (int k + (2 ^ n - 1)) div 2 ^ n" by simp
  moreover have "int (2 ^ n - 1) = 2 ^ n - 1" by (simp add: of_nat_diff)
  ultimately show ?thesis by (simp only: zdiv_int of_nat_add of_nat_power of_nat_numeral)
qed

lemma visible_suffix_chars: "visible CHR ''i''" "visible CHR ''m''" "visible CHR ''G''"
  by (simp_all add: visible_def)

lemma memory_whole:
  assumes k: "k < 2 ^ 43"
  shows "ParseMemoryQuantityMB impl (natString k) = Inr (int ((k + (2 ^ 20 - 1)) div 2 ^ 20))"
    "ParseMemoryQuantityMB impl (natString k @ ''Ki'') = Inr (int ((k + (2 ^ 10 - 1)) div 2 ^ 10))"
    "ParseMemoryQuantityMB impl (natString k @ ''Mi'') = Inr (int k)"
    "ParseMemoryQuantityMB impl (natString k @ ''Gi'') = Inr (int k * 2 ^ 10)"
    "ParseMemoryQuantityMB impl (natString k @ ''Ti'') = Inr (int k * 2 ^ 20)"
proof -
  have sp: "TrimSpace (natString k @ u) = natString k @ u" if "u \<in> {''Ki'', ''Mi'', ''Gi'', ''Ti''}" for u
    using that by (intro TrimSpace_natString(2)) (auto simp: visible_suffix_chars)
  have c: "\<lceil>of_nat k * pow2 (int n)\<rceil> = int k * 2 ^ n" for n
  proof -
    have "(of_nat k * pow2 (int n) :: rat) = of_int (int k * 2 ^ n)" by (simp add: pow2_nat)
    then show ?thesis by (simp only: ceiling_of_int)
  qed
  show "ParseMemoryQuantityMB impl (natString k) = Inr (int ((k + (2 ^ 20 - 1)) div 2 ^ 20))"
    using memory_dyadic [OF k _ find_plain, of 0 "[]" k] ceiling_pow2_div [of k 20]
    by (simp add: TrimSpace_natString)
  show "ParseMemoryQuantityMB impl (natString k @ ''Ki'') = Inr (int ((k + (2 ^ 10 - 1)) div 2 ^ 10))"
    using memory_dyadic [OF k _ find_binary(1), of 10 "''Ki''"] ceiling_pow2_div [of k 10] sp
    by simp
  show "ParseMemoryQuantityMB impl (natString k @ ''Mi'') = Inr (int k)"
    using memory_dyadic [OF k _ find_binary(2), of 20 "''Mi''"] c [of 0] sp by simp
  show "ParseMemoryQuantityMB impl (natString k @ ''Gi'') = Inr (int k * 2 ^ 10)"
    using memory_dyadic [OF k _ find_binary(3), of 30 "''Gi''"] c [of 10] sp by simp
  show "ParseMemoryQuantityMB impl (natString k @ ''Ti'') = Inr (int k * 2 ^ 20)"
    using memory_dyadic [OF k _ find_binary(4), of 40 "''Ti''"] c [of 20] sp by simp
qed

end
