(* ===== verification/Hub.thy ===== *)
theory Hub
  imports ComputeApi
begin

section \<open>Conditions and the watch hub (\<open>conditions.go\<close>, \<open>hub.go\<close>)\<close>

text \<open>
  The condition a sandbox carries, with the constructors the handlers use, and the hub that
  fans events out to watch streams. A channel is the list of the events waiting in it,
  oldest first. Times are milliseconds since the epoch.
\<close>

subsection \<open>Conditions\<close>

definition conditionReady :: string where "conditionReady = ''Ready''"
definition reasonStarting :: string where "reasonStarting = ''Starting''"
definition reasonBackendReady :: string where "reasonBackendReady = ''BackendReady''"
definition reasonContainerExited :: string where "reasonContainerExited = ''ContainerExited''"
definition reasonContainerStopped :: string where "reasonContainerStopped = ''ContainerStopped''"
definition reasonProvisioningFailed :: string where
  "reasonProvisioningFailed = ''ProvisioningFailed''"
definition reasonDeleting :: string where "reasonDeleting = ''Deleting''"

record condition =
  cdStatus :: string
  cdReason :: string
  cdMessage :: message
  cdAt :: "int option"

definition conditionProto :: "condition \<Rightarrow> DriverCondition" where
  "conditionProto c =
     \<lparr>dcType = conditionReady, dcStatus = cdStatus c, dcReason = cdReason c,
      dcMessage = cdMessage c, dcLastTransitionTime = map_option (\<lambda>t. t div 1000) (cdAt c)\<rparr>"

definition startingCondition :: "int \<Rightarrow> condition" where
  "startingCondition now = \<lparr>cdStatus = ''False'', cdReason = reasonStarting,
     cdMessage = Msg ''Sandbox VM is starting'', cdAt = Some now\<rparr>"

definition readyTrueCondition :: "int \<Rightarrow> condition" where
  "readyTrueCondition now = \<lparr>cdStatus = ''True'', cdReason = reasonBackendReady,
     cdMessage = Msg ''Sandbox VM is running'', cdAt = Some now\<rparr>"

definition exitedCondition :: "int \<Rightarrow> condition" where
  "exitedCondition now = \<lparr>cdStatus = ''False'', cdReason = reasonContainerExited,
     cdMessage = Msg ''Sandbox VM is not running'', cdAt = Some now\<rparr>"

definition stoppedCondition :: "int \<Rightarrow> condition" where
  "stoppedCondition now = \<lparr>cdStatus = ''False'', cdReason = reasonContainerStopped,
     cdMessage = Msg ''Sandbox VM is stopped'', cdAt = Some now\<rparr>"

definition failedCondition :: "message \<Rightarrow> int \<Rightarrow> condition" where
  "failedCondition m now = \<lparr>cdStatus = ''False'', cdReason = reasonProvisioningFailed,
     cdMessage = m, cdAt = Some now\<rparr>"

definition deletingCondition :: "int \<Rightarrow> condition" where
  "deletingCondition now = \<lparr>cdStatus = ''False'', cdReason = reasonDeleting,
     cdMessage = Msg ''Sandbox is being deleted'', cdAt = Some now\<rparr>"

lemmas condition_defs = startingCondition_def readyTrueCondition_def exitedCondition_def
  stoppedCondition_def failedCondition_def deletingCondition_def

lemmas reason_defs = reasonStarting_def reasonBackendReady_def reasonContainerExited_def
  reasonContainerStopped_def reasonProvisioningFailed_def reasonDeleting_def

subsection \<open>The hub\<close>

definition watchBuffer :: nat where "watchBuffer = 128"

record hub =
  hubSubs :: "(nat \<times> WatchSandboxesEvent list) list"
  hubNext :: nat

definition newHub :: hub where
  "newHub = \<lparr>hubSubs = [], hubNext = 0\<rparr>"

definition subscribe :: "hub \<Rightarrow> nat \<times> hub" where
  "subscribe h =
     (hubNext h, h\<lparr>hubSubs := AList.update (hubNext h) [] (hubSubs h), hubNext := Suc (hubNext h)\<rparr>)"

definition unsubscribe :: "nat \<Rightarrow> hub \<Rightarrow> hub" where
  "unsubscribe i h = h\<lparr>hubSubs := AList.delete i (hubSubs h)\<rparr>"

text \<open>A full channel drops the event.\<close>

definition offer :: "WatchSandboxesEvent \<Rightarrow> WatchSandboxesEvent list \<Rightarrow> WatchSandboxesEvent list" where
  "offer ev q = (if length q < watchBuffer then q @ [ev] else q)"

definition hubPublish :: "WatchSandboxesEvent \<Rightarrow> hub \<Rightarrow> hub" where
  "hubPublish ev h = h\<lparr>hubSubs := map (\<lambda>(i, q). (i, offer ev q)) (hubSubs h)\<rparr>"

text \<open>A stream takes the oldest waiting event; \<open>None\<close> when its channel is closed or empty.\<close>

definition hubReceive :: "nat \<Rightarrow> hub \<Rightarrow> WatchSandboxesEvent option \<times> hub" where
  "hubReceive i h =
     (case map_of (hubSubs h) i of
        Some (ev # q) \<Rightarrow> (Some ev, h\<lparr>hubSubs := AList.update i q (hubSubs h)\<rparr>)
      | _ \<Rightarrow> (None, h))"

definition queueOf :: "hub \<Rightarrow> nat \<Rightarrow> WatchSandboxesEvent list option" where
  "queueOf h i = map_of (hubSubs h) i"

definition hubOk :: "hub \<Rightarrow> bool" where
  "hubOk h \<longleftrightarrow> distinct (keysOf (hubSubs h))
     \<and> (\<forall>i q. map_of (hubSubs h) i = Some q \<longrightarrow> i < hubNext h \<and> length q \<le> watchBuffer)"

lemma queue_publish: "queueOf (hubPublish ev h) i = map_option (offer ev) (queueOf h i)"
  by (simp add: queueOf_def hubPublish_def map_of_map_snd [of "\<lambda>_. offer ev"])

lemma queue_subscribe:
  "subscribe h = (i, h') \<Longrightarrow> queueOf h' = (queueOf h)(i \<mapsto> [])"
  by (auto simp: subscribe_def queueOf_def)

lemma queue_unsubscribe: "queueOf (unsubscribe i h) = (queueOf h)(i := None)"
  by (simp add: unsubscribe_def queueOf_def fun_eq_iff)

lemma hubOk_new [simp]: "hubOk newHub"
  by (simp add: hubOk_def newHub_def)

lemma offer_bound: "length q \<le> watchBuffer \<Longrightarrow> length (offer ev q) \<le> watchBuffer"
  by (auto simp: offer_def watchBuffer_def)

lemma hubOk_publish [inv_intros]: "hubOk h \<Longrightarrow> hubOk (hubPublish ev h)"
  using offer_bound
  by (auto simp: hubOk_def hubPublish_def map_of_map_snd [of "\<lambda>_. offer ev"])

lemma hubOk_subscribe [inv_intros]: "hubOk h \<Longrightarrow> hubOk (snd (subscribe h))"
  by (auto simp: hubOk_def subscribe_def less_Suc_eq split: if_splits)

lemma hubOk_unsubscribe [inv_intros]: "hubOk h \<Longrightarrow> hubOk (unsubscribe i h)"
  by (auto simp: hubOk_def unsubscribe_def split: if_splits)

lemma hubOk_receive [inv_intros]: "hubOk h \<Longrightarrow> hubOk (snd (hubReceive i h))"
  by (fastforce simp: hubOk_def hubReceive_def split: option.splits list.splits if_splits)

text \<open>What a subscriber reads: everything published while its channel had room, in order.\<close>

fun published :: "WatchSandboxesEvent list \<Rightarrow> hub \<Rightarrow> hub" where
  "published [] h = h"
| "published (ev # evs) h = published evs (hubPublish ev h)"

lemma published_queue:
  assumes "queueOf h i = Some q" and "length q + length evs \<le> watchBuffer"
  shows "queueOf (published evs h) i = Some (q @ evs)"
  using assms by (induction evs arbitrary: h q) (simp_all add: queue_publish offer_def)

lemma published_overflow:
  assumes "queueOf h i = Some q" and "length q \<le> watchBuffer"
  shows "queueOf (published evs h) i = Some (q @ take (watchBuffer - length q) evs)"
  using assms
proof (induction evs arbitrary: h q)
  case (Cons ev evs)
  have "queueOf (hubPublish ev h) i = Some (offer ev q)" using Cons.prems by (simp add: queue_publish)
  note IH = Cons.IH [OF this offer_bound [OF Cons.prems(2)]]
  show ?case
  proof (cases "length q < watchBuffer")
    case True
    then have "watchBuffer - length q = Suc (watchBuffer - Suc (length q))" by simp
    with IH True show ?thesis by (simp add: offer_def)
  next
    case False
    with IH Cons.prems(2) show ?thesis by (simp add: offer_def)
  qed
qed simp

text \<open>
  C40. A watch stream's channel is bounded and in order: from any reachable hub, after any
  number of publications a subscriber's channel holds what it held, followed by the first of
  the new events in publication order, as many as fit in 128; publishing never blocks and
  never touches what is already waiting.
\<close>

theorem hub_fifo_bounded:
  assumes "hubOk h" and "queueOf h i = Some q"
  shows "queueOf (published evs h) i = Some (q @ take (watchBuffer - length q) evs)
    \<and> length (q @ take (watchBuffer - length q) evs) \<le> watchBuffer"
proof -
  have l: "length q \<le> watchBuffer" using assms by (auto simp: hubOk_def queueOf_def)
  show ?thesis using published_overflow [OF assms(2) l] l by simp
qed

theorem hub_fifo_bounded_witness:
  "queueOf (published [WDeleted ''a'', WDeleted ''b''] (snd (subscribe newHub))) 0
     = Some [WDeleted ''a'', WDeleted ''b'']"
proof -
  have h: "hubOk (snd (subscribe newHub))" by (rule hubOk_subscribe) simp
  have q: "queueOf (snd (subscribe newHub)) 0 = Some []"
    by (simp add: subscribe_def newHub_def queueOf_def)
  from hub_fifo_bounded [OF h q, of "[WDeleted ''a'', WDeleted ''b'']"]
  show ?thesis by (simp add: watchBuffer_def)
qed

end
