(* ===== verification/Server.thy ===== *)
theory Server
  imports DriverConfig SandboxEnv Quantity Hub
begin

section \<open>The compute-driver service: registry, create and delete (\<open>service.go\<close>, \<open>create.go\<close>)\<close>

text \<open>
  The state of \<open>Server\<close> and its handlers, one definition per stretch of code between two
  lock boundaries or blocking calls, so that the same definitions serve the sequential
  handlers and the interleaved machine. An \<open>*entry\<close> pointer is an index into the heap
  \<open>svHeap\<close>, which only grows; the registry map goes from identifiers to such references,
  in iteration order.

  The parts of the environment that are fixed for a process are the record \<open>Deps\<close>
  (configuration, runtime, store root, process id, and the functions of other packages);
  what the operating system answers in one handler call is the record \<open>Oracle\<close>.
\<close>

subsection \<open>State\<close>

datatype chanState = NoChan | OpenChan | ClosedChan

record entry =
  enRec :: Record
  enCond :: condition
  enDeleting :: bool
  enBusy :: bool
  enCanceled :: bool
  enDone :: chanState

record 'w Server =
  svWorld :: 'w
  svDisk :: hostfs
  svHub :: hub
  svHeap :: "entry list"
  svSandboxes :: "(string \<times> nat) list"
  svExtractSeq :: nat
  svClosed :: bool

text \<open>
  \<open>dpEvalSymlinks\<close> is \<open>filepath.EvalSymlinks\<close>; \<open>dpMarshal\<close> is \<open>protojson.Marshal\<close> of a sandbox;
  \<open>dpConv\<close> is the conversion of an out-of-range float to \<open>int64\<close>.
\<close>

record 'w Deps =
  dpCfg :: Config
  dpRt :: "'w Runtime"
  dpRoot :: string
  dpPid :: nat
  dpVersion :: string
  dpEvalSymlinks :: "string \<Rightarrow> string option"
  dpMarshal :: "DriverSandbox \<Rightarrow> string option"
  dpConv :: "gofloat \<Rightarrow> int"

record Oracle =
  orNow :: int
  orSave :: "string \<Rightarrow> saveop \<Rightarrow> bool"
  orRnd :: nat
  orDel :: bool
  orHost :: hostio

datatype code = InvalidArgument | FailedPrecondition | AlreadyExists | NotFound | Internal | Aborted

type_synonym status = "code \<times> err"

definition DriverName :: string where "DriverName = ''applecontainer''"

definition labelManagedBy :: string where "labelManagedBy = ''openshell.ai/managed-by''"
definition managedByValue :: string where "managedByValue = ''openshell-driver-applecontainer''"
definition labelSandboxID :: string where "labelSandboxID = ''openshell.ai/sandbox-id''"
definition labelName :: string where "labelName = ''openshell.ai/sandbox-name''"
definition labelNamespace :: string where "labelNamespace = ''openshell.ai/sandbox-namespace''"
definition labelWorkspace :: string where "labelWorkspace = ''openshell.ai/sandbox-workspace''"

definition containerNamePrefix :: string where "containerNamePrefix = ''oshl-''"

definition containerName :: "string \<Rightarrow> string" where
  "containerName i = containerNamePrefix @ i"

definition newServer :: "'w \<Rightarrow> hostfs \<Rightarrow> 'w Server" where
  "newServer w fs = \<lparr>svWorld = w, svDisk = fs, svHub = newHub, svHeap = [], svSandboxes = [],
     svExtractSeq = 0, svClosed = False\<rparr>"

definition theExtractor :: "'w Deps \<Rightarrow> Extractor" where
  "theExtractor d =
     \<lparr>exCacheDir = pathJoin [cfgStateDir (dpCfg d), ''cache'', ''supervisor''],
      exLabels = [(labelManagedBy, managedByValue)], exPid = dpPid d\<rparr>"

definition getE :: "'w Server \<Rightarrow> nat \<Rightarrow> entry" where
  "getE s r = svHeap s ! r"

definition setE :: "nat \<Rightarrow> (entry \<Rightarrow> entry) \<Rightarrow> 'w Server \<Rightarrow> 'w Server" where
  "setE r f s = s\<lparr>svHeap := (svHeap s)[r := f (svHeap s ! r)]\<rparr>"

definition provisionDone :: "entry \<Rightarrow> bool" where
  "provisionDone e \<longleftrightarrow> enDone e \<noteq> OpenChan"

text \<open>The context of a provisioning task: cancelled by a delete or by \<open>Close\<close>.\<close>

definition taskCtx :: "'w Server \<Rightarrow> nat \<Rightarrow> bool" where
  "taskCtx s r \<longleftrightarrow> enCanceled (getE s r) \<or> svClosed s"

subsection \<open>Lookups, snapshots and events\<close>

definition lookupLocked :: "string \<Rightarrow> string \<Rightarrow> 'w Server \<Rightarrow> nat option" where
  "lookupLocked i name s =
     (case map_of (svSandboxes s) i of
        Some r \<Rightarrow> Some r
      | None \<Rightarrow>
          (if name = [] then None
           else map_option snd
                  (find (\<lambda>(k, r). rName (enRec (getE s r)) = name) (svSandboxes s))))"

definition snapshotLocked :: "'w Deps \<Rightarrow> entry \<Rightarrow> DriverSandbox" where
  "snapshotLocked d e =
     \<lparr>sbId = rID (enRec e), sbName = rName (enRec e), sbNamespace = cfgNamespace (dpCfg d),
      sbSpec = None,
      sbStatus = Some \<lparr>stSandboxName = rContainerName (enRec e),
        stInstanceId = rContainerName (enRec e),
        stConditions = [conditionProto (enCond e)], stDeleting = enDeleting e\<rparr>,
      sbWorkspace = rWorkspace (enRec e)\<rparr>"

definition publish :: "WatchSandboxesEvent \<Rightarrow> 'w Server \<Rightarrow> 'w Server" where
  "publish ev s = s\<lparr>svHub := hubPublish ev (svHub s)\<rparr>"

definition publishSandbox :: "'w Deps \<Rightarrow> nat \<Rightarrow> 'w Server \<Rightarrow> 'w Server" where
  "publishSandbox d r s = publish (WSandbox (snapshotLocked d (getE s r))) s"

definition publishDeleted :: "string \<Rightarrow> 'w Server \<Rightarrow> 'w Server" where
  "publishDeleted i s = publish (WDeleted i) s"

definition publishPlatformEvent ::
  "int \<Rightarrow> string \<Rightarrow> string \<Rightarrow> string \<Rightarrow> message \<Rightarrow> 'w Server \<Rightarrow> 'w Server" where
  "publishPlatformEvent now i typ reason msg s =
     publish (WPlatformEvent i \<lparr>peTimestampMs = now, peSource = DriverName, peType = typ,
       peReason = reason, peMessage = msg\<rparr>) s"

definition setCondition :: "nat \<Rightarrow> condition \<Rightarrow> 'w Server \<Rightarrow> 'w Server" where
  "setCondition r c s = setE r (enCond_update (\<lambda>_. c)) s"

definition saveRecord :: "'w Deps \<Rightarrow> Oracle \<Rightarrow> Record \<Rightarrow> 'w Server \<Rightarrow> err option \<times> 'w Server" where
  "saveRecord d orc rc s =
     (let (e, fs) = Save (orSave orc (rID rc)) (orRnd orc) (dpRoot d) rc (svDisk s)
      in (e, s\<lparr>svDisk := fs\<rparr>))"

definition deleteRecord :: "'w Deps \<Rightarrow> Oracle \<Rightarrow> string \<Rightarrow> 'w Server \<Rightarrow> err option \<times> 'w Server" where
  "deleteRecord d orc i s =
     (let (e, fs) = DeleteRecord (orDel orc) (dpRoot d) i (svDisk s) in (e, s\<lparr>svDisk := fs\<rparr>))"

text \<open>A call into the runtime, which changes only the world.\<close>

definition rtCall :: "('w \<Rightarrow> 'a \<times> 'w) \<Rightarrow> 'w Server \<Rightarrow> 'a \<times> 'w Server" where
  "rtCall f s = (let (a, w) = f (svWorld s) in (a, s\<lparr>svWorld := w\<rparr>))"

subsection \<open>Validation and queries\<close>

text \<open>\<open>GetCapabilities\<close>: name, version, default image, and whether the gateway manages lifecycle.\<close>

definition GetCapabilities :: "'w Deps \<Rightarrow> string \<times> string \<times> string \<times> bool" where
  "GetCapabilities d = (DriverName, dpVersion d, cfgDefaultImage (dpCfg d), False)"

fun firstQuantityError :: "(string \<Rightarrow> err + int) \<Rightarrow> string list \<Rightarrow> err option" where
  "firstQuantityError p [] = None"
| "firstQuantityError p (q # qs) = (case p q of Inl e \<Rightarrow> Some e | Inr _ \<Rightarrow> firstQuantityError p qs)"

definition invalid :: "err \<Rightarrow> status option" where
  "invalid e = Some (InvalidArgument, e)"

definition validateSandbox :: "'w Deps \<Rightarrow> DriverSandbox option \<Rightarrow> status option" where
  "validateSandbox d sb =
     (if sb = None then invalid (errorf ''sandbox is required'' [])
      else if \<not> ValidID (GetId sb) then invalid (errorf ''invalid sandbox id %q'' [GetId sb])
      else if GetGpu (GetResourceRequirements (GetSpec sb)) \<noteq> None
      then invalid (errorf ''gpu sandboxes are not supported by the applecontainer driver'' [])
      else
        (case parseDriverConfig (GetDriverConfig (GetTemplate (GetSpec sb))) of
           Inl e \<Rightarrow> invalid e
         | Inr dcfg \<Rightarrow>
             (case checkDriverConfigPolicy (dpEvalSymlinks d) (dpCfg d) dcfg of
                Some e \<Rightarrow> invalid e
              | None \<Rightarrow>
                  (let img = GetImage (GetTemplate (GetSpec sb));
                       cmd = GetCommand (GetSpec sb);
                       res = GetResources (GetTemplate (GetSpec sb))
                   in if HasPrefix img ''-'' then invalid (errorf ''invalid image reference %q'' [img])
                      else if cmd \<noteq> [] \<and> hd cmd = []
                      then invalid (errorf ''sandbox command must not start with an empty argument'' [])
                      else
                        (case firstQuantityError (ParseCPUQuantity (dpConv d))
                                [GetCpuRequest res, GetCpuLimit res] of
                           Some e \<Rightarrow> invalid e
                         | None \<Rightarrow>
                             (case firstQuantityError (ParseMemoryQuantityMB (dpConv d))
                                     [GetMemoryRequest res, GetMemoryLimit res] of
                                Some e \<Rightarrow> invalid e
                              | None \<Rightarrow> None))))))"

definition ValidateSandboxCreate :: "'w Deps \<Rightarrow> DriverSandbox option \<Rightarrow> status option" where
  "ValidateSandboxCreate d sb = validateSandbox d sb"

definition GetSandbox :: "'w Deps \<Rightarrow> string \<Rightarrow> string \<Rightarrow> 'w Server \<Rightarrow> status + DriverSandbox" where
  "GetSandbox d i name s =
     (case lookupLocked i name s of
        None \<Rightarrow> Inl (NotFound, errorf ''sandbox %q not found'' [i])
      | Some r \<Rightarrow> Inr (snapshotLocked d (getE s r)))"

definition ListSandboxes :: "'w Deps \<Rightarrow> 'w Server \<Rightarrow> DriverSandbox list" where
  "ListSandboxes d s = map (\<lambda>(i, r). snapshotLocked d (getE s r)) (svSandboxes s)"

text \<open>
  \<open>WatchSandboxes\<close>: subscribe, then the snapshots to send first; each later step sends the
  oldest event of the channel; the stream's end unsubscribes.
\<close>

definition watchBegin :: "'w Deps \<Rightarrow> 'w Server \<Rightarrow> nat \<times> WatchSandboxesEvent list \<times> 'w Server" where
  "watchBegin d s =
     (let (i, h) = subscribe (svHub s);
          s1 = s\<lparr>svHub := h\<rparr>
      in (i, map WSandbox (ListSandboxes d s1), s1))"

definition watchNext :: "nat \<Rightarrow> 'w Server \<Rightarrow> WatchSandboxesEvent option \<times> 'w Server" where
  "watchNext i s = (let (ev, h) = hubReceive i (svHub s) in (ev, s\<lparr>svHub := h\<rparr>))"

definition watchEnd :: "nat \<Rightarrow> 'w Server \<Rightarrow> 'w Server" where
  "watchEnd i s = s\<lparr>svHub := unsubscribe i (svHub s)\<rparr>"

text \<open>\<open>Close\<close> cancels every provisioning task's context.\<close>

definition closeServer :: "'w Server \<Rightarrow> 'w Server" where
  "closeServer s = s\<lparr>svClosed := True\<rparr>"

subsection \<open>Create: accepting a request\<close>

definition redact :: "DriverSandbox \<Rightarrow> DriverSandbox" where
  "redact sb = sb\<lparr>sbSpec := map_option (\<lambda>sp. sp\<lparr>spSandboxToken := []\<rparr>) (sbSpec sb)\<rparr>"

definition imageRefOf :: "Config \<Rightarrow> DriverSandbox \<Rightarrow> string" where
  "imageRefOf cfg sb =
     (let ref = GetImage (GetTemplate (GetSpec (Some sb)))
      in if ref = [] then cfgDefaultImage cfg else ref)"

definition createRecord :: "Config \<Rightarrow> int \<Rightarrow> DriverSandbox \<Rightarrow> string \<Rightarrow> Record" where
  "createRecord cfg now sb blob =
     \<lparr>rID = sbId sb, rName = sbName sb, rNamespace = cfgNamespace cfg, rWorkspace = sbWorkspace sb,
      rContainerName = containerName (sbId sb), rImageRef = imageRefOf cfg sb, rImageDigest = [],
      rCreatedAt = now, rStopped = False, rSandbox = blob\<rparr>"

text \<open>Everything before the lock: the record to accept, or the status of the refusal.\<close>

definition createCheck :: "'w Deps \<Rightarrow> int \<Rightarrow> DriverSandbox option \<Rightarrow> status + Record" where
  "createCheck d now sb =
     (case validateSandbox d sb of
        Some st \<Rightarrow> Inl st
      | None \<Rightarrow>
          (if cfgGRPCEndpoint (dpCfg d) = []
           then Inl (FailedPrecondition, errorf
             ''driver has no --grpc-endpoint configured; set it to the gateway address reachable from guest VMs'' [])
           else (case sb of
                   None \<Rightarrow> Inl (InvalidArgument, errorf ''sandbox is required'' [])
                 | Some x \<Rightarrow>
                     (case dpMarshal d (redact x) of
                        None \<Rightarrow> Inl (Internal, errorf ''encode sandbox record: %v'' [])
                      | Some blob \<Rightarrow> Inr (createRecord (dpCfg d) now x blob)))))"

definition newEntry :: "Record \<Rightarrow> int \<Rightarrow> entry" where
  "newEntry rc now =
     \<lparr>enRec = rc, enCond = startingCondition now, enDeleting = False, enBusy = False,
      enCanceled = False, enDone = OpenChan\<rparr>"

text \<open>The locked section: refuse a duplicate, persist, register. The new reference on success.\<close>

definition createRegister :: "'w Deps \<Rightarrow> Oracle \<Rightarrow> Record \<Rightarrow> 'w Server \<Rightarrow> (status + nat) \<times> 'w Server" where
  "createRegister d orc rc s =
     (if map_of (svSandboxes s) (rID rc) \<noteq> None
      then (Inl (AlreadyExists, errorf ''sandbox %q already exists'' [rID rc]), s)
      else (case saveRecord d orc rc s of
              (Some e, s1) \<Rightarrow> (Inl (Internal, Wrap ''persist sandbox record: %v'' [] e), s1)
            | (None, s1) \<Rightarrow>
                (Inr (length (svHeap s1)),
                 s1\<lparr>svHeap := svHeap s1 @ [newEntry rc (orNow orc)],
                    svSandboxes := AList.update (rID rc) (length (svHeap s1)) (svSandboxes s1)\<rparr>)))"

definition createAnnounce :: "'w Deps \<Rightarrow> Oracle \<Rightarrow> nat \<Rightarrow> 'w Server \<Rightarrow> 'w Server" where
  "createAnnounce d orc r s =
     (let s1 = publishSandbox d r s
      in publishPlatformEvent (orNow orc) (rID (enRec (getE s1 r))) ''Normal'' ''Scheduled''
           (Msg ''Sandbox accepted by the applecontainer driver'') s1)"

text \<open>\<open>CreateSandbox\<close> up to its answer; the provisioning task runs afterwards.\<close>

definition CreateSandbox ::
  "'w Deps \<Rightarrow> Oracle \<Rightarrow> DriverSandbox option \<Rightarrow> 'w Server \<Rightarrow> (status + nat) \<times> 'w Server" where
  "CreateSandbox d orc sb s =
     (case createCheck d (orNow orc) sb of
        Inl st \<Rightarrow> (Inl st, s)
      | Inr rc \<Rightarrow>
          (case createRegister d orc rc s of
             (Inl st, s1) \<Rightarrow> (Inl st, s1)
           | (Inr r, s1) \<Rightarrow> (Inr r, createAnnounce d orc r s1)))"

subsection \<open>What each step leaves alone\<close>

lemma publish_frame [frame_simps]:
  "svWorld (publish ev s) = svWorld s" "svDisk (publish ev s) = svDisk s"
  "svHeap (publish ev s) = svHeap s" "svSandboxes (publish ev s) = svSandboxes s"
  "svExtractSeq (publish ev s) = svExtractSeq s" "svClosed (publish ev s) = svClosed s"
  "svHub (publish ev s) = hubPublish ev (svHub s)" "getE (publish ev s) r = getE s r"
  by (simp_all add: publish_def getE_def)

lemma publishSandbox_frame [frame_simps]:
  "svWorld (publishSandbox d r s) = svWorld s" "svDisk (publishSandbox d r s) = svDisk s"
  "svHeap (publishSandbox d r s) = svHeap s" "svSandboxes (publishSandbox d r s) = svSandboxes s"
  "svClosed (publishSandbox d r s) = svClosed s" "getE (publishSandbox d r s) r' = getE s r'"
  "svExtractSeq (publishSandbox d r s) = svExtractSeq s"
  "svHub (publishSandbox d r s) = hubPublish (WSandbox (snapshotLocked d (getE s r))) (svHub s)"
  by (simp_all add: publishSandbox_def frame_simps)

lemma publishDeleted_frame [frame_simps]:
  "svWorld (publishDeleted i s) = svWorld s" "svDisk (publishDeleted i s) = svDisk s"
  "svHeap (publishDeleted i s) = svHeap s" "svSandboxes (publishDeleted i s) = svSandboxes s"
  "svClosed (publishDeleted i s) = svClosed s" "getE (publishDeleted i s) r' = getE s r'"
  "svExtractSeq (publishDeleted i s) = svExtractSeq s"
  "svHub (publishDeleted i s) = hubPublish (WDeleted i) (svHub s)"
  by (simp_all add: publishDeleted_def frame_simps)

lemma publishPlatform_frame [frame_simps]:
  "svWorld (publishPlatformEvent t i ty re m s) = svWorld s"
  "svDisk (publishPlatformEvent t i ty re m s) = svDisk s"
  "svHeap (publishPlatformEvent t i ty re m s) = svHeap s"
  "svSandboxes (publishPlatformEvent t i ty re m s) = svSandboxes s"
  "svClosed (publishPlatformEvent t i ty re m s) = svClosed s"
  "svExtractSeq (publishPlatformEvent t i ty re m s) = svExtractSeq s"
  "getE (publishPlatformEvent t i ty re m s) r' = getE s r'"
  by (simp_all add: publishPlatformEvent_def frame_simps)

lemma setE_frame [frame_simps]:
  "svWorld (setE r f s) = svWorld s" "svDisk (setE r f s) = svDisk s"
  "svHub (setE r f s) = svHub s" "svSandboxes (setE r f s) = svSandboxes s"
  "svClosed (setE r f s) = svClosed s" "length (svHeap (setE r f s)) = length (svHeap s)"
  "svExtractSeq (setE r f s) = svExtractSeq s"
  "r' \<noteq> r \<Longrightarrow> getE (setE r f s) r' = getE s r'"
  "r < length (svHeap s) \<Longrightarrow> getE (setE r f s) r = f (getE s r)"
  by (simp_all add: setE_def getE_def)

lemma saveRecord_frame:
  "saveRecord d orc rc s = (e, s') \<Longrightarrow>
     svWorld s' = svWorld s \<and> svHub s' = svHub s \<and> svHeap s' = svHeap s
     \<and> svSandboxes s' = svSandboxes s \<and> svClosed s' = svClosed s \<and> svExtractSeq s' = svExtractSeq s"
  by (auto simp: saveRecord_def split: prod.splits)

lemma deleteRecord_frame:
  "deleteRecord d orc i s = (e, s') \<Longrightarrow>
     svWorld s' = svWorld s \<and> svHub s' = svHub s \<and> svHeap s' = svHeap s
     \<and> svSandboxes s' = svSandboxes s \<and> svClosed s' = svClosed s \<and> svExtractSeq s' = svExtractSeq s"
  by (auto simp: deleteRecord_def split: prod.splits)

lemma rtCall_frame:
  "rtCall f s = (a, s') \<Longrightarrow>
     svDisk s' = svDisk s \<and> svHub s' = svHub s \<and> svHeap s' = svHeap s
     \<and> svSandboxes s' = svSandboxes s \<and> svClosed s' = svClosed s \<and> svExtractSeq s' = svExtractSeq s
     \<and> f (svWorld s) = (a, svWorld s')"
  by (auto simp: rtCall_def split: prod.splits)

text \<open>The records on the server's disk.\<close>

abbreviation recs :: "'w Deps \<Rightarrow> 'w Server \<Rightarrow> string \<Rightarrow> Record option" where
  "recs d s \<equiv> recordsOf (dpRoot d) (svDisk s)"

lemma saveRecord_recs:
  "saveRecord d orc rc s = (None, s') \<Longrightarrow> recs d s' = (recs d s)(rID rc \<mapsto> rc)"
  "saveRecord d orc rc s = (Some e, s') \<Longrightarrow> recs d s' = recs d s"
  by (auto simp: saveRecord_def st.save_ok st.save_err split: prod.splits)

lemma deleteRecord_recs:
  "deleteRecord d orc i s = (None, s') \<Longrightarrow> recs d s' = (recs d s)(i := None)"
  "deleteRecord d orc i s = (Some e, s') \<Longrightarrow> recs d s' = recs d s"
  by (auto simp: deleteRecord_def st.delete_ok st.delete_err split: prod.splits)

lemma saveRecord_good:
  "saveRecord d orc rc s = (e, s') \<Longrightarrow> storeOk (dpRoot d) (svDisk s) \<Longrightarrow> storeOk (dpRoot d) (svDisk s')"
  by (auto simp: saveRecord_def dest: st.save_good split: prod.splits)

lemma deleteRecord_good:
  "deleteRecord d orc i s = (e, s') \<Longrightarrow> storeOk (dpRoot d) (svDisk s) \<Longrightarrow> storeOk (dpRoot d) (svDisk s')"
  by (auto simp: deleteRecord_def dest: st.delete_good split: prod.splits)

subsection \<open>The well-formed server\<close>

text \<open>
  The registry maps distinct identifiers to live references whose records carry that
  identifier, the store and the hub are well formed, and every registered sandbox has a
  record on disk.
\<close>

definition registryOk :: "'w Server \<Rightarrow> bool" where
  "registryOk s \<longleftrightarrow> distinct (keysOf (svSandboxes s))
     \<and> (\<forall>i r. map_of (svSandboxes s) i = Some r \<longrightarrow>
          r < length (svHeap s) \<and> rID (enRec (getE s r)) = i)"

definition serverOk :: "'w Deps \<Rightarrow> 'w Server \<Rightarrow> bool" where
  "serverOk d s \<longleftrightarrow> registryOk s \<and> hubOk (svHub s) \<and> storeOk (dpRoot d) (svDisk s)
     \<and> (\<forall>i. map_of (svSandboxes s) i \<noteq> None \<longrightarrow> recs d s i \<noteq> None)"

lemma registryOk_lookup:
  "registryOk s \<Longrightarrow> map_of (svSandboxes s) i = Some r \<Longrightarrow>
     r < length (svHeap s) \<and> rID (enRec (getE s r)) = i"
  by (simp add: registryOk_def)

lemma registryOk_cong:
  "svSandboxes s' = svSandboxes s \<Longrightarrow> length (svHeap s') = length (svHeap s) \<Longrightarrow>
     (\<And>r. r < length (svHeap s) \<Longrightarrow> rID (enRec (getE s' r)) = rID (enRec (getE s r))) \<Longrightarrow>
     registryOk s \<Longrightarrow> registryOk s'"
  by (auto simp: registryOk_def)

lemma registryOk_setE [inv_intros]:
  assumes "registryOk s" and "\<And>e. rID (enRec (f e)) = rID (enRec e)"
  shows "registryOk (setE r f s)"
proof (rule registryOk_cong [OF _ _ _ assms(1)])
  show "rID (enRec (getE (setE r f s) r')) = rID (enRec (getE s r'))"
    if "r' < length (svHeap s)" for r'
    using assms(2) that by (cases "r' = r") (simp_all add: frame_simps)
qed (simp_all add: frame_simps)

lemma lookupLocked_known:
  "registryOk s \<Longrightarrow> lookupLocked i name s = Some r \<Longrightarrow>
     map_of (svSandboxes s) (rID (enRec (getE s r))) = Some r \<and> r < length (svHeap s)"
proof -
  assume ok: "registryOk s" and l: "lookupLocked i name s = Some r"
  have "\<exists>k. map_of (svSandboxes s) k = Some r"
  proof (cases "map_of (svSandboxes s) i")
    case (Some r')
    with l show ?thesis by (auto simp: lookupLocked_def)
  next
    case None
    with l obtain k where "find (\<lambda>(k, r). rName (enRec (getE s r)) = name) (svSandboxes s) = Some (k, r)"
      by (auto simp: lookupLocked_def split: if_splits)
    then have "(k, r) \<in> set (svSandboxes s)" by (metis (mono_tags, lifting) find_Some_iff nth_mem)
    then show ?thesis using ok by (auto simp: registryOk_def set_pair_map_of)
  qed
  then show ?thesis using ok by (auto simp: registryOk_def)
qed

subsection \<open>Creating\<close>

definition withToken :: "string \<Rightarrow> DriverSandbox \<Rightarrow> DriverSandbox" where
  "withToken t sb = sb\<lparr>sbSpec := map_option (\<lambda>sp. sp\<lparr>spSandboxToken := t\<rparr>) (sbSpec sb)\<rparr>"

lemma withToken_getters [simp]:
  "GetId (Some (withToken t x)) = GetId (Some x)"
  "GetResourceRequirements (GetSpec (Some (withToken t x))) = GetResourceRequirements (GetSpec (Some x))"
  "GetTemplate (GetSpec (Some (withToken t x))) = GetTemplate (GetSpec (Some x))"
  "GetCommand (GetSpec (Some (withToken t x))) = GetCommand (GetSpec (Some x))"
  "sbId (withToken t x) = sbId x" "sbName (withToken t x) = sbName x"
  "sbWorkspace (withToken t x) = sbWorkspace x"
  by (simp_all add: api_getters withToken_def split: option.splits)

lemma redact_withToken [simp]: "redact (withToken t x) = redact x"
  by (cases "sbSpec x") (simp_all add: redact_def withToken_def)

lemma validateSandbox_token: "validateSandbox d (Some (withToken t x)) = validateSandbox d (Some x)"
  unfolding validateSandbox_def withToken_getters by simp

lemma createCheck_token: "createCheck d now (Some (withToken t x)) = createCheck d now (Some x)"
  unfolding createCheck_def validateSandbox_token option.case redact_withToken
    createRecord_def imageRefOf_def withToken_getters by simp

text \<open>
  C23. The secret token does not influence what a create accepts, stores or announces: with
  two requests that differ only in the token, the answer and the whole resulting state
  (disk, registry, events) are the same.
\<close>

theorem create_token_noninterference:
  "CreateSandbox d orc (Some (withToken t1 x)) s = CreateSandbox d orc (Some (withToken t2 x)) s"
  by (simp add: CreateSandbox_def createCheck_token)

lemma createCheck_ok:
  "createCheck d now sb = Inr rc \<Longrightarrow>
     \<exists>x blob. sb = Some x \<and> validateSandbox d sb = None \<and> dpMarshal d (redact x) = Some blob
       \<and> rc = createRecord (dpCfg d) now x blob \<and> ValidID (rID rc)"
  by (auto simp: createCheck_def createRecord_def validateSandbox_def invalid_def GetId_def
      split: option.splits if_splits)

lemma createRegister_ok:
  assumes "createRegister d orc rc s = (Inr r, s')"
  shows "map_of (svSandboxes s) (rID rc) = None \<and> r = length (svHeap s)
    \<and> recs d s' = (recs d s)(rID rc \<mapsto> rc) \<and> svWorld s' = svWorld s \<and> svHub s' = svHub s
    \<and> svHeap s' = svHeap s @ [newEntry rc (orNow orc)]
    \<and> map_of (svSandboxes s') = (map_of (svSandboxes s))(rID rc \<mapsto> r)
    \<and> svSandboxes s' = AList.update (rID rc) r (svSandboxes s)
    \<and> svClosed s' = svClosed s \<and> (storeOk (dpRoot d) (svDisk s) \<longrightarrow> storeOk (dpRoot d) (svDisk s'))"
proof -
  have new: "map_of (svSandboxes s) (rID rc) = None"
    using assms by (cases "map_of (svSandboxes s) (rID rc)") (simp_all add: createRegister_def)
  obtain e s1 where s1': "saveRecord d orc rc s = (e, s1)" by (cases "saveRecord d orc rc s")
  then have e: "e = None" using assms new by (cases e) (simp_all add: createRegister_def)
  note s1 = s1' [unfolded e]
  have s': "s' = s1\<lparr>svHeap := svHeap s1 @ [newEntry rc (orNow orc)],
        svSandboxes := AList.update (rID rc) (length (svHeap s1)) (svSandboxes s1)\<rparr>"
    and r: "r = length (svHeap s1)"
    using assms new s1 by (auto simp: createRegister_def)
  show ?thesis
    using saveRecord_frame [OF s1] saveRecord_recs(1) [OF s1] saveRecord_good [OF s1] new
    by (simp add: s' r)
qed

lemma createRegister_err:
  assumes "createRegister d orc rc s = (Inl st, s')"
  shows "svWorld s' = svWorld s \<and> svHub s' = svHub s \<and> svHeap s' = svHeap s
     \<and> svSandboxes s' = svSandboxes s \<and> recs d s' = recs d s
     \<and> (storeOk (dpRoot d) (svDisk s) \<longrightarrow> storeOk (dpRoot d) (svDisk s'))"
proof -
  have "s' = s \<or> (\<exists>e. saveRecord d orc rc s = (Some e, s'))"
    using assms by (auto simp: createRegister_def split: if_splits prod.splits option.splits)
  then show ?thesis using saveRecord_frame saveRecord_recs(2) saveRecord_good by blast
qed

text \<open>
  A refused create changes nothing: no container, no registry entry, no event and no
  record; in particular the second of two creates for the same identifier answers
  AlreadyExists and leaves the first sandbox as it is.
\<close>

theorem create_refused:
  assumes "CreateSandbox d orc sb s = (Inl st, s')"
  shows "svWorld s' = svWorld s \<and> svHub s' = svHub s \<and> svHeap s' = svHeap s
    \<and> svSandboxes s' = svSandboxes s \<and> recs d s' = recs d s"
proof -
  have "s' = s \<or> (\<exists>rc. createRegister d orc rc s = (Inl st, s'))"
    using assms by (auto simp: CreateSandbox_def split: sum.splits prod.splits)
  then show ?thesis using createRegister_err by blast
qed

text \<open>
  C24. An accepted create has, before any container exists for it, put the record of the
  request on disk (rendered from the request without its token), registered a Starting
  entry under the new identifier, and left every other record and entry alone.
\<close>

theorem create_accepted:
  assumes "CreateSandbox d orc sb s = (Inr r, s')"
  shows "\<exists>x blob rc. sb = Some x \<and> dpMarshal d (redact x) = Some blob
    \<and> rc = createRecord (dpCfg d) (orNow orc) x blob
    \<and> svWorld s' = svWorld s
    \<and> recs d s' = (recs d s)(sbId x \<mapsto> rc)
    \<and> map_of (svSandboxes s) (sbId x) = None
    \<and> map_of (svSandboxes s') = (map_of (svSandboxes s))(sbId x \<mapsto> r)
    \<and> r = length (svHeap s) \<and> svHeap s' = svHeap s @ [newEntry rc (orNow orc)]"
proof -
  obtain rc s1 where c: "createCheck d (orNow orc) sb = Inr rc"
    and g: "createRegister d orc rc s = (Inr r, s1)" and s': "s' = createAnnounce d orc r s1"
    using assms by (auto simp: CreateSandbox_def split: sum.splits prod.splits)
  have a: "svWorld s' = svWorld s1" "svDisk s' = svDisk s1" "svHeap s' = svHeap s1"
    "svSandboxes s' = svSandboxes s1"
    by (simp_all add: s' createAnnounce_def Let_def frame_simps)
  from createCheck_ok [OF c] obtain x blob where x: "sb = Some x" "dpMarshal d (redact x) = Some blob"
    "rc = createRecord (dpCfg d) (orNow orc) x blob"
    by blast
  then have "rID rc = sbId x" by (simp add: createRecord_def)
  then show ?thesis using x a createRegister_ok [OF g] by auto
qed

lemma createRegister_registryOk:
  assumes ok: "registryOk s" and g: "createRegister d orc rc s = (Inr r, s')"
  shows "registryOk s'"
proof -
  note f = createRegister_ok [OF g]
  have "distinct (keysOf (svSandboxes s'))" using ok f by (auto simp: registryOk_def)
  moreover have "r' < length (svHeap s') \<and> rID (enRec (getE s' r')) = i"
    if m: "map_of (svSandboxes s') i = Some r'" for i r'
  proof (cases "i = rID rc")
    case True
    then have "r' = length (svHeap s)" using m f by simp
    then show ?thesis using True f by (simp add: getE_def newEntry_def)
  next
    case False
    then have "map_of (svSandboxes s) i = Some r'" using m f by simp
    from registryOk_lookup [OF ok this] f show ?thesis by (simp add: getE_def nth_append)
  qed
  ultimately show ?thesis by (simp add: registryOk_def)
qed

lemma create_serverOk:
  assumes ok: "serverOk d s" and c: "CreateSandbox d orc sb s = (res, s')"
  shows "serverOk d s'"
proof (cases res)
  case (Inl st)
  then have "s' = s \<or> (\<exists>rc. createRegister d orc rc s = (Inl st, s'))"
    using c by (auto simp: CreateSandbox_def split: sum.splits prod.splits)
  then show ?thesis
  proof
    assume "s' = s"
    then show ?thesis using ok by simp
  next
    assume "\<exists>rc. createRegister d orc rc s = (Inl st, s')"
    then obtain rc where g: "createRegister d orc rc s = (Inl st, s')" by blast
    show ?thesis
      using ok createRegister_err [OF g] by (simp add: serverOk_def registryOk_def getE_def)
  qed
next
  case (Inr r)
  then obtain rc s1 where g: "createRegister d orc rc s = (Inr r, s1)" and s': "s' = createAnnounce d orc r s1"
    using c by (auto simp: CreateSandbox_def split: sum.splits prod.splits)
  have r1: "registryOk s1" using createRegister_registryOk [OF _ g] ok by (simp add: serverOk_def)
  have h: "hubOk (svHub s')"
    using ok createRegister_ok [OF g]
    by (simp add: s' createAnnounce_def Let_def publishPlatformEvent_def frame_simps serverOk_def inv_intros)
  have a: "svDisk s' = svDisk s1" "svHeap s' = svHeap s1" "svSandboxes s' = svSandboxes s1"
    by (simp_all add: s' createAnnounce_def Let_def frame_simps)
  show ?thesis
    using r1 h a ok createRegister_ok [OF g] by (auto simp: serverOk_def registryOk_def getE_def)
qed

subsection \<open>A concrete server\<close>

definition demoCfg :: Config where
  "demoCfg = (flCfg (flagDefaults (\<lambda>_. None) (\<lambda>_. False)))
     \<lparr>cfgGRPCEndpoint := ''https://g:1'', cfgStateDir := ''/st'', cfgDefaultImage := ''img:1'',
      cfgSupervisorImage := ''sup:1'', cfgSupervisorImageExplicit := True, cfgGuestTLSCA := ''/ca'',
      cfgGuestTLSCert := ''/crt'', cfgGuestTLSKey := ''/key''\<rparr>"

definition demoDeps :: "Fake Deps" where
  "demoDeps = \<lparr>dpCfg = demoCfg, dpRt = fakeRuntime, dpRoot = ''/st'', dpPid = 7, dpVersion = ''dev'',
     dpEvalSymlinks = Some, dpMarshal = (\<lambda>x. Some (sbId x)), dpConv = (\<lambda>_. 1)\<rparr>"

definition demoOrc :: Oracle where
  "demoOrc = \<lparr>orNow = 1000, orSave = (\<lambda>_ _. True), orRnd = 5, orDel = True, orHost = (\<lambda>_ _. True)\<rparr>"

definition demoWorld :: Fake where
  "demoWorld = AddImageWithUser ''img:1'' ''sha256:cd'' ''app'' (AddImage ''sup:1'' ''sha256:ab'' emptyFake)"

definition demoDisk :: hostfs where
  "demoDisk = [(''/st'', DirN mode700), (''/st/sandboxes'', DirN mode700),
     (''/ca'', FileN 420 (Bytes ''ca'')), (''/crt'', FileN 420 (Bytes ''crt'')),
     (''/key'', FileN 384 (Bytes ''key''))]"

definition demoServer :: "Fake Server" where
  "demoServer = newServer demoWorld demoDisk"

definition demoRequest :: DriverSandbox where
  "demoRequest = demoSandbox\<lparr>sbName := ''two''\<rparr>"

definition demoCreated :: "Fake Server" where
  "demoCreated = snd (CreateSandbox demoDeps demoOrc (Some demoRequest) demoServer)"

lemma demo_create: "fst (CreateSandbox demoDeps demoOrc (Some demoRequest) demoServer) = Inr 0"
  by code_simp

lemma demo_create_eq:
  "CreateSandbox demoDeps demoOrc (Some demoRequest) demoServer = (Inr 0, demoCreated)"
  using demo_create by (simp add: demoCreated_def prod_eq_iff)

theorem create_accepted_witness:
  "\<exists>rc. recs demoDeps demoCreated = (recs demoDeps demoServer)(''sb1'' \<mapsto> rc) \<and> rSandbox rc = ''sb1''
     \<and> map_of (svSandboxes demoCreated) ''sb1'' = Some 0 \<and> svWorld demoCreated = demoWorld"
proof -
  have i: "sbId demoRequest = ''sb1''" by (simp add: demoRequest_def demoSandbox_def)
  have m: "dpMarshal demoDeps (redact demoRequest) = Some ''sb1''"
    by (simp add: demoDeps_def redact_def i)
  have w: "svWorld demoServer = demoWorld" by (simp add: demoServer_def newServer_def)
  from create_accepted [OF demo_create_eq] i m w show ?thesis
    by (auto simp: createRecord_def)
qed

theorem create_refused_witness:
  "\<exists>e s'. CreateSandbox demoDeps demoOrc (Some demoRequest) demoCreated = (Inl (AlreadyExists, e), s')
     \<and> svHeap s' = svHeap demoCreated \<and> recs demoDeps s' = recs demoDeps demoCreated"
proof -
  have "case CreateSandbox demoDeps demoOrc (Some demoRequest) demoCreated of
          (Inl (c, _), _) \<Rightarrow> c = AlreadyExists | _ \<Rightarrow> False"
    by code_simp
  then obtain e s' where e: "CreateSandbox demoDeps demoOrc (Some demoRequest) demoCreated
      = (Inl (AlreadyExists, e), s')"
    by (auto split: prod.splits sum.splits)
  with create_refused [OF e] show ?thesis by blast
qed

end
