(* ===== verification/HostStatus.thy ===== *)
theory HostStatus
  imports HostSetup Server
begin

section \<open>The health report (\<open>status.go\<close>)\<close>

text \<open>
  \<open>status\<close> looks at everything setup wires together and reports one line per component. Each
  section of the report is a definition that threads the host through the commands and
  runtime calls it makes. A line's detail keeps its structure, as errors do: the format (its
  leading words), the arguments, and the error a \<open>%v\<close> renders.
\<close>

subsection \<open>Lines\<close>

record Check =
  ckName :: string
  ckLevel :: string
  ckDetail :: err

definition check :: "string \<Rightarrow> string \<Rightarrow> string \<Rightarrow> string list \<Rightarrow> Check" where
  "check name level f as = \<lparr>ckName = name, ckLevel = level, ckDetail = errorf f as\<rparr>"

definition mapLevel :: "string \<Rightarrow> string" where
  "mapLevel l = (if l = ''error'' then ''fail'' else l)"

text \<open>The loop returns at the first failure; \<open>w\<close> is the worst level so far.\<close>

fun worstFrom :: "string \<Rightarrow> Check list \<Rightarrow> string" where
  "worstFrom w [] = w"
| "worstFrom w (c # cs) =
     (if ckLevel c = ''fail'' then ''fail''
      else if ckLevel c = ''warn'' then worstFrom ''warn'' cs
      else worstFrom w cs)"

definition Worst :: "Check list \<Rightarrow> string" where
  "Worst cs = worstFrom ''ok'' cs"

text \<open>The findings on a version that are worth a line.\<close>

definition findingChecks :: "string \<Rightarrow> Finding list \<Rightarrow> Check list" where
  "findingChecks name fs =
     map (\<lambda>f. check name (mapLevel (fLevel f)) (fst (fMessage f)) (snd (fMessage f)))
       (filter (\<lambda>f. fLevel f \<noteq> ''ok'') fs)"

text \<open>\<open>PrintChecks\<close>; \<open>render\<close> is the text of a detail.\<close>

definition markOf :: "string \<Rightarrow> string" where
  "markOf l = (case map_of [(''ok'', ''OK  ''), (''warn'', ''WARN''), (''fail'', ''FAIL'')] l of Some m \<Rightarrow> m | None \<Rightarrow> [])"

definition nameWidth :: "Check list \<Rightarrow> nat" where
  "nameWidth cs = fold (\<lambda>c w. max (length (ckName c)) w) cs 0"

definition checkLine :: "(err \<Rightarrow> string) \<Rightarrow> nat \<Rightarrow> Check \<Rightarrow> string" where
  "checkLine render width c =
     ''  '' @ markOf (ckLevel c) @ ''  '' @ ckName c @ replicate (width - length (ckName c)) (CHR '' '')
       @ ''  '' @ render (ckDetail c) @ HostWiring.nl"

definition PrintChecks :: "(err \<Rightarrow> string) \<Rightarrow> Check list \<Rightarrow> string" where
  "PrintChecks render cs =
     concat (map (checkLine render (nameWidth cs)) cs)
     @ (if Worst cs = ''ok'' then HostWiring.nl @ ''All checks passed.''
        else if Worst cs = ''warn'' then HostWiring.nl @ ''Working, with warnings above.''
        else HostWiring.nl @ ''Problems found. `openshell-driver-applecontainer setup` repairs the wiring; the lines above say what else to do.'')
     @ HostWiring.nl"

subsection \<open>What is asked of others\<close>

text \<open>The pid in what \<open>launchctl print\<close> says, empty when there is none.\<close>

fun firstPID :: "string list \<Rightarrow> string" where
  "firstPID [] = []"
| "firstPID (l # ls) =
     (let t = TrimSpace l
      in if HasPrefix t ''pid = '' then TrimSpace (TrimPrefix t ''pid = '') else firstPID ls)"

definition launchctlPID :: "string \<Rightarrow> string" where
  "launchctlPID out = firstPID (splitOn (CHR 0x0A) out)"

text \<open>
  The driver behind a socket: what its two calls answer. The answer to the first is the
  version it reports.
\<close>

record 'w driverClient =
  dcGetCapabilities :: "string \<Rightarrow> 'w \<Rightarrow> err + string"
  dcListSandboxes :: "string \<Rightarrow> 'w \<Rightarrow> err + DriverSandbox list"

definition probeDriver :: "'w driverClient \<Rightarrow> string \<Rightarrow> 'w Host \<Rightarrow> err + (string \<times> DriverSandbox list)" where
  "probeDriver cl sock st =
     (case dcGetCapabilities cl sock (hoWorld st) of
        Inl e \<Rightarrow> Inl e
      | Inr caps \<Rightarrow>
          (case dcListSandboxes cl sock (hoWorld st) of
             Inl e \<Rightarrow> Inr (caps, [])
           | Inr sbs \<Rightarrow> Inr (caps, sbs)))"

definition sandboxClass :: "DriverSandbox \<Rightarrow> string" where
  "sandboxClass sb =
     (if GetDeleting (GetStatus (Some sb)) then ''deleting''
      else (case GetConditions (GetStatus (Some sb)) of
              [] \<Rightarrow> ''provisioning''
            | c # _ \<Rightarrow>
                (if dcStatus c = ''True'' then ''running''
                 else if dcReason c = ''ContainerStopped'' then ''stopped''
                 else if dcReason c = ''Starting'' then ''provisioning''
                 else ''failed'')))"

definition sandboxClasses :: "string list" where
  "sandboxClasses = [''running'', ''stopped'', ''provisioning'', ''failed'', ''deleting'']"

definition classCount :: "DriverSandbox list \<Rightarrow> string \<Rightarrow> nat" where
  "classCount sbs k = count_list (map sandboxClass sbs) k"

definition summarizeSandboxes :: "DriverSandbox list \<Rightarrow> string" where
  "summarizeSandboxes sbs =
     (if sbs = [] then ''none''
      else joinWith '', ''
        (map (\<lambda>k. natString (classCount sbs k) @ '' '' @ k) (filter (\<lambda>k. classCount sbs k > 0) sandboxClasses)))"

subsection \<open>The sections\<close>

record StatusOptions =
  soNetwork :: string
  soSocket :: string
  soTLSDir :: string
  soSupervisorImage :: string
  soDriverVersion :: string

text \<open>A comparison of versions that panics ends the report; \<open>None\<close> stands for it.\<close>

definition checkRuntime :: "'w hostenv \<Rightarrow> Setup \<Rightarrow> int \<Rightarrow> 'w Host \<Rightarrow> Check list option \<times> 'w Host" where
  "checkRuntime ev s dl st =
     (let (acVer, st1) = probeVersion ev ''container'' st
      in if acVer = [] then (Some [check ''apple/container'' ''fail'' ''the `container` CLI is not installed or not on PATH'' []], st1)
         else
           (let (r, st2) = rtStep ev dl rtNetworks st1;
                up = (case r of
                        Inl _ \<Rightarrow> check ''apple/container'' ''fail'' ''%s installed but the runtime is not running'' [acVer]
                      | Inr _ \<Rightarrow> check ''apple/container'' ''ok'' ''%s, runtime running'' [acVer]);
                kernel = (if fileExists (defaultKernelPath ev s) st2
                          then check ''guest kernel'' ''ok'' ''default kernel configured'' []
                          else check ''guest kernel'' ''fail'' ''no default guest kernel is configured'' [])
            in (map_option (\<lambda>fs. up # findingChecks ''apple/container'' fs @ [kernel]) (CheckAppleContainer acVer), st2)))"

text \<open>The address of the last network of that name, and the line, if the runtime answers.\<close>

definition checkNetwork :: "'w hostenv \<Rightarrow> int \<Rightarrow> string \<Rightarrow> 'w Host \<Rightarrow> string \<times> Check list \<times> 'w Host" where
  "checkNetwork ev dl name st =
     (case rtStep ev dl rtNetworks st of
        (Inl e, st1) \<Rightarrow> ([], [], st1)
      | (Inr ns, st1) \<Rightarrow>
          (let a = fold (\<lambda>n a. if nwName n = name then nwIPv4Gateway n else a) ns []
           in (a, [if a = [] then check ''vmnet network'' ''fail'' ''network %q does not exist; run setup to create it'' [name]
                   else check ''vmnet network'' ''ok'' ''%s, host address %s'' [name, a]], st1)))"

definition checkGateway :: "'w hostenv \<Rightarrow> Setup \<Rightarrow> 'w Host \<Rightarrow> string \<times> Check list option \<times> 'w Host" where
  "checkGateway ev s st =
     (let (gwVer, st1) = probeVersion ev ''openshell-gateway'' st
      in if gwVer = [] then ([], Some [check ''OpenShell gateway'' ''fail'' ''openshell-gateway is not installed or not on PATH'' []], st1)
         else
           (let listens =
              (if heListens ev gatewayAddr (hoWorld st1)
               then check ''OpenShell gateway'' ''ok'' ''%s, listening on %s'' [gwVer, gatewayAddr]
               else if openShellInstalled ev s st1
               then check ''OpenShell gateway'' ''fail'' ''%s installed but nothing listens on %s'' [gwVer, gatewayAddr]
               else check ''OpenShell gateway'' ''warn'' ''%s present but not installed through Homebrew; nothing listens on %s''
                      [gwVer, gatewayAddr])
            in (gwVer, map_option (\<lambda>fs. findingChecks ''OpenShell gateway'' fs @ [listens]) (CheckOpenShell gwVer), st1)))"

definition checkWiring :: "'w hostenv \<Rightarrow> Setup \<Rightarrow> string \<Rightarrow> 'w Host \<Rightarrow> Check" where
  "checkWiring ev s sock st =
     (let p = gatewayEnvPath (heEnv ev) s
      in case readFile ev p st of
           None \<Rightarrow> check ''gateway wiring'' ''fail'' ''%s is missing'' [p]
         | Some data \<Rightarrow>
             (if \<not> Contains data blockBegin \<or> \<not> Contains data ''OPENSHELL_DRIVERS=applecontainer''
              then check ''gateway wiring'' ''fail'' ''%s has no managed block selecting the applecontainer driver'' [p]
              else if \<not> Contains data (''OPENSHELL_COMPUTE_DRIVER_SOCKET='' @ shellQuote sock)
              then check ''gateway wiring'' ''warn'' ''%s points the gateway at a different driver socket than %s'' [p, sock]
              else check ''gateway wiring'' ''ok'' ''%s selects the applecontainer driver at %s'' [p, sock]))"

definition checkCertificate :: "'w hostenv \<Rightarrow> string \<Rightarrow> string \<Rightarrow> 'w Host \<Rightarrow> Check" where
  "checkCertificate ev tlsDir a st =
     (let p = certPathOf tlsDir
      in case readFile ev p st of
           None \<Rightarrow> check ''gateway certificate'' ''fail'' ''%s is not readable'' [p]
         | Some data \<Rightarrow>
             (if a = [] then check ''gateway certificate'' ''warn'' ''%s present; cannot verify its SAN without the vmnet address'' [p]
              else (case CertHasIPSAN ev data a of
                      Inl e \<Rightarrow> \<lparr>ckName = ''gateway certificate'', ckLevel = ''fail'', ckDetail = Wrap ''%s does not parse: %v'' [p] e\<rparr>
                    | Inr False \<Rightarrow> check ''gateway certificate'' ''fail'' ''%s has no SAN for %s, so guests cannot verify the gateway'' [p, a]
                    | Inr True \<Rightarrow> check ''gateway certificate'' ''ok'' ''SAN covers %s (%s)'' [a, tlsDir])))"

definition checkService :: "'w hostenv \<Rightarrow> Setup \<Rightarrow> 'w Host \<Rightarrow> Check \<times> 'w Host" where
  "checkService ev s st =
     (if \<not> fileExists (agentPlistPath s) st
      then (check ''driver service'' ''fail'' ''%s is not installed as a launchd agent'' [AgentLabel], st)
      else (case runCmd ev ''launchctl'' [''print'', agentTarget s] st of
              ((False, out), st1) \<Rightarrow> (check ''driver service'' ''fail'' ''%s is installed but not loaded'' [AgentLabel], st1)
            | ((True, out), st1) \<Rightarrow>
                (if launchctlPID out = []
                 then (check ''driver service'' ''fail'' ''%s is loaded but not running; see %s'' [AgentLabel, agentLogPath s], st1)
                 else (check ''driver service'' ''ok'' ''%s running (pid %s), log %s''
                         [AgentLabel, launchctlPID out, agentLogPath s], st1))))"

definition checkSocket :: "'w driverClient \<Rightarrow> Setup \<Rightarrow> StatusOptions \<Rightarrow> 'w Host \<Rightarrow> Check list" where
  "checkSocket cl s opts st =
     (case probeDriver cl (soSocket opts) st of
        Inl e \<Rightarrow> [\<lparr>ckName = ''driver socket'', ckLevel = ''fail'',
                   ckDetail = Wrap ''%s is not answering (%v)'' [soSocket opts, agentLogPath s] e\<rparr>]
      | Inr (ver, sbs) \<Rightarrow>
          [if soDriverVersion opts \<noteq> [] \<and> ver \<noteq> soDriverVersion opts
           then check ''driver socket'' ''warn'' ''%s answering, driver %s -- but this binary is %s''
                  [soSocket opts, ver, soDriverVersion opts]
           else check ''driver socket'' ''ok'' ''%s answering, driver %s'' [soSocket opts, ver],
           check ''sandboxes'' ''ok'' ''%s'' [summarizeSandboxes sbs]])"

definition checkSupervisor :: "string \<Rightarrow> string \<Rightarrow> Check list" where
  "checkSupervisor gwVer img =
     (if gwVer \<noteq> [] \<and> img \<noteq> []
      then [if imageTag img \<noteq> gwVer
            then check ''supervisor image'' ''warn'' ''%s does not match gateway %s'' [img, gwVer]
            else check ''supervisor image'' ''ok'' ''%s matches the gateway'' [img]]
      else [])"

definition Status ::
  "'w hostenv \<Rightarrow> 'w driverClient \<Rightarrow> Setup \<Rightarrow> int \<Rightarrow> StatusOptions \<Rightarrow> 'w Host \<Rightarrow> Check list option \<times> 'w Host" where
  "Status ev cl s dl opts st =
     (case checkRuntime ev s dl st of
        (None, st1) \<Rightarrow> (None, st1)
      | (Some rtLines, st1) \<Rightarrow>
          (case checkNetwork ev dl (soNetwork opts) st1 of
             (a, netLines, st2) \<Rightarrow>
               (case checkGateway ev s st2 of
                  (gwVer, None, st3) \<Rightarrow> (None, st3)
                | (gwVer, Some gwLines, st3) \<Rightarrow>
                    (case checkService ev s st3 of
                       (svc, st4) \<Rightarrow>
                         (Some (rtLines @ netLines @ gwLines
                            @ [checkWiring ev s (soSocket opts) st3,
                               checkCertificate ev (tlsDirOf ev (soTLSDir opts) st3) a st3, svc]
                            @ checkSocket cl s opts st4
                            @ checkSupervisor gwVer (soSupervisorImage opts)), st4)))))"

subsection \<open>The worst level\<close>

lemma worstFrom_eq:
  "worstFrom w cs = (if \<exists>c \<in> set cs. ckLevel c = ''fail'' then ''fail''
     else if \<exists>c \<in> set cs. ckLevel c = ''warn'' then ''warn'' else w)"
  by (induction w cs rule: worstFrom.induct) auto

lemma Worst_eq:
  "Worst cs = (if \<exists>c \<in> set cs. ckLevel c = ''fail'' then ''fail''
     else if \<exists>c \<in> set cs. ckLevel c = ''warn'' then ''warn'' else ''ok'')"
  by (simp add: Worst_def worstFrom_eq)

lemma nameWidth_max: "c \<in> set cs \<Longrightarrow> length (ckName c) \<le> nameWidth cs"
proof -
  have "w \<le> fold (\<lambda>c w. max (length (ckName c)) w) cs w \<and>
    (c \<in> set cs \<longrightarrow> length (ckName c) \<le> fold (\<lambda>c w. max (length (ckName c)) w) cs w)" for w
  proof (induction cs arbitrary: w)
    case (Cons a cs)
    have "max (length (ckName a)) w \<le> fold (\<lambda>c w. max (length (ckName c)) w) cs (max (length (ckName a)) w)"
      using Cons.IH by blast
    then show ?case using Cons.IH [of "max (length (ckName a)) w"] by auto
  qed simp
  then show "c \<in> set cs \<Longrightarrow> length (ckName c) \<le> nameWidth cs" by (simp add: nameWidth_def)
qed

text \<open>The details of a report start in the same column.\<close>

lemma checkLine_aligned:
  assumes "c \<in> set cs" and "ckLevel c \<in> {''ok'', ''warn'', ''fail''}"
  shows "drop (nameWidth cs + 10) (checkLine render (nameWidth cs) c) = render (ckDetail c) @ HostWiring.nl"
proof -
  define pre where "pre = ''  '' @ markOf (ckLevel c) @ ''  '' @ ckName c
    @ replicate (nameWidth cs - length (ckName c)) (CHR '' '') @ ''  ''"
  have "length (markOf (ckLevel c)) = 4" using assms(2) by (auto simp: markOf_def)
  then have "length pre = nameWidth cs + 10" using nameWidth_max [OF assms(1)] by (simp add: pre_def)
  moreover have "checkLine render (nameWidth cs) c = pre @ render (ckDetail c) @ HostWiring.nl"
    by (simp add: checkLine_def pre_def)
  ultimately show ?thesis by simp
qed

subsection \<open>The report changes nothing\<close>

definition readCommands :: "Setup \<Rightarrow> (string \<times> string list) set" where
  "readCommands s = {(''container'', [''--version'']), (''openshell-gateway'', [''--version'']),
     (''launchctl'', [''print'', agentTarget s])}"

definition onlyReads :: "'w hostenv \<Rightarrow> Setup \<Rightarrow> 'w Host \<Rightarrow> 'w Host \<Rightarrow> bool" where
  "onlyReads ev s st st' \<longleftrightarrow>
     (\<forall>p. keepsFile ev p \<longrightarrow> nodeAt p st' = nodeAt p st)
     \<and> (\<exists>cs. hoTrace st' = hoTrace st @ cs \<and> set cs \<subseteq> readCommands s)"

lemma onlyReads_refl [simp]: "onlyReads ev s st st"
  by (simp add: onlyReads_def)

lemma onlyReads_trans: "onlyReads ev s a b \<Longrightarrow> onlyReads ev s b c \<Longrightarrow> onlyReads ev s a c"
  unfolding onlyReads_def by (metis (no_types, lifting) Un_least append.assoc set_append)

lemma onlyReads_cmd:
  "runCmd ev name args st = (r, st') \<Longrightarrow> (name, args) \<in> readCommands s \<Longrightarrow> onlyReads ev s st st'"
  using nodeAt_runCmd [of ev _ name args st] trace_runCmd [of ev name args st] by (simp add: onlyReads_def)

lemma onlyReads_rt: "rtStep ev dl f st = (r, st') \<Longrightarrow> onlyReads ev s st st'"
  using nodeAt_rtStep [of _ ev dl f st] by (auto simp: onlyReads_def rtStep_def split: prod.splits)

lemma onlyReads_probe:
  "probeVersion ev bin st = (v, st') \<Longrightarrow> bin = ''container'' \<or> bin = ''openshell-gateway'' \<Longrightarrow> onlyReads ev s st st'"
proof -
  assume p: "probeVersion ev bin st = (v, st')" and b: "bin = ''container'' \<or> bin = ''openshell-gateway''"
  obtain r st1 where c: "runCmd ev bin [''--version''] st = (r, st1)" by fastforce
  have "(bin, [''--version'']) \<in> readCommands s" using b by (auto simp: readCommands_def)
  from onlyReads_cmd [OF c this] show ?thesis using p by (auto simp: probeVersion_def c split: prod.splits)
qed

lemma onlyReads_sections:
  "checkRuntime ev s dl st = (r, st') \<Longrightarrow> onlyReads ev s st st'"
  "checkNetwork ev dl name st = (a, ls, st') \<Longrightarrow> onlyReads ev s st st'"
  "checkGateway ev s st = (g, l, st') \<Longrightarrow> onlyReads ev s st st'"
  "checkService ev s st = (c, st') \<Longrightarrow> onlyReads ev s st st'"
proof -
  obtain v st1 where v: "probeVersion ev ''container'' st = (v, st1)" by fastforce
  obtain x st2 where x: "rtStep ev dl rtNetworks st1 = (x, st2)" by fastforce
  have "onlyReads ev s st st1" "onlyReads ev s st st2"
    using onlyReads_probe [OF v] onlyReads_rt [OF x] by (blast intro: onlyReads_trans)+
  then show "checkRuntime ev s dl st = (r, st') \<Longrightarrow> onlyReads ev s st st'"
    by (auto simp: checkRuntime_def v x Let_def split: if_splits)
  show "checkNetwork ev dl name st = (a, ls, st') \<Longrightarrow> onlyReads ev s st st'"
    by (auto simp: checkNetwork_def Let_def split: prod.splits sum.splits intro: onlyReads_rt)
  show "checkGateway ev s st = (g, l, st') \<Longrightarrow> onlyReads ev s st st'"
    by (auto simp: checkGateway_def Let_def split: prod.splits if_splits intro: onlyReads_probe)
  show "checkService ev s st = (c, st') \<Longrightarrow> onlyReads ev s st st'"
  proof -
    obtain x st1 where c: "runCmd ev ''launchctl'' [''print'', agentTarget s] st = (x, st1)" by fastforce
    have "onlyReads ev s st st1" by (rule onlyReads_cmd [OF c]) (simp add: readCommands_def)
    then show "checkService ev s st = (c, st') \<Longrightarrow> onlyReads ev s st st'"
      by (auto simp: checkService_def c split: prod.splits if_splits bool.splits)
  qed
qed

lemma Status_split:
  assumes "Status ev cl s dl opts st = (Some cs, st')"
  obtains rl a ntl gv gl svc st1 st2 st3 where
    "checkRuntime ev s dl st = (Some rl, st1)" "checkNetwork ev dl (soNetwork opts) st1 = (a, ntl, st2)"
    "checkGateway ev s st2 = (gv, Some gl, st3)" "checkService ev s st3 = (svc, st')"
    "cs = rl @ ntl @ gl @ [checkWiring ev s (soSocket opts) st3,
        checkCertificate ev (tlsDirOf ev (soTLSDir opts) st3) a st3, svc]
      @ checkSocket cl s opts st' @ checkSupervisor gv (soSupervisorImage opts)"
  using assms by (auto simp: Status_def split: prod.splits option.splits)

text \<open>
  The report reads: it leaves every file as it was, and the commands it issues print
  versions and the state of the service.
\<close>

theorem status_only_reads:
  assumes "Status ev cl s dl opts st = (r, st')"
  shows "onlyReads ev s st st'"
proof -
  obtain r1 st1 where 1: "checkRuntime ev s dl st = (r1, st1)" by fastforce
  obtain a ntl st2 where 2: "checkNetwork ev dl (soNetwork opts) st1 = (a, ntl, st2)" by (metis prod.exhaust_sel)
  obtain gv gl st3 where 3: "checkGateway ev s st2 = (gv, gl, st3)" by (metis prod.exhaust_sel)
  obtain svc st4 where 4: "checkService ev s st3 = (svc, st4)" by fastforce
  have "st' = st1 \<or> st' = st3 \<or> st' = st4" using assms by (auto simp: Status_def 1 2 3 4 split: option.splits)
  moreover have s1: "onlyReads ev s st st1" by (rule onlyReads_sections(1) [OF 1])
  moreover have s3: "onlyReads ev s st st3"
    by (rule onlyReads_trans [OF onlyReads_trans [OF s1 onlyReads_sections(2) [OF 2]] onlyReads_sections(3) [OF 3]])
  moreover have "onlyReads ev s st st4" by (rule onlyReads_trans [OF s3 onlyReads_sections(4) [OF 4]])
  ultimately show ?thesis by blast
qed

subsection \<open>The report tells a wired host from an unwired one\<close>

lemma Contains_mid: "Contains (us @ p @ vs) p"
  by (auto simp: Contains_iff)

lemma joinWith_member: "l \<in> set ls \<Longrightarrow> \<exists>xs ys. joinWith sep ls = xs @ l @ ys"
proof (induction ls)
  case (Cons a ls)
  show ?case
  proof (cases "l = a")
    case True
    have "\<exists>ys. joinWith sep (a # ls) = [] @ a @ ys" by (cases ls) simp_all
    then show ?thesis using True by blast
  next
    case False
    then obtain xs ys where "joinWith sep ls = xs @ l @ ys" "ls \<noteq> []" using Cons by (cases ls) auto
    then have "joinWith sep (a # ls) = (a @ sep @ xs) @ l @ ys" by (simp add: joinWith_Cons)
    then show ?thesis by blast
  qed
qed simp

lemma Contains_block: "us @ p \<in> set ls \<Longrightarrow> Contains (UpsertManagedBlock e ls) p"
proof -
  assume "us @ p \<in> set ls"
  then obtain xs ys where "joinWith HostWiring.nl ls = xs @ (us @ p) @ ys" using joinWith_member by blast
  then have "UpsertManagedBlock e ls =
      (userPart (RemoveManagedBlock e) @ blockBegin @ HostWiring.nl @ xs @ us) @ p @ (ys @ HostWiring.nl @ blockEnd @ HostWiring.nl)"
    by (simp add: Upsert_eq blockBody_def)
  then show ?thesis by (metis Contains_mid)
qed

lemma wiring_ok:
  assumes "readFile ev (gatewayEnvPath (heEnv ev) s) st = Some (UpsertManagedBlock e (GatewayEnvLines sock tlsDir))"
  shows "ckLevel (checkWiring ev s sock st) = ''ok''"
proof -
  let ?d = "UpsertManagedBlock e (GatewayEnvLines sock tlsDir)"
  have "Contains ?d blockBegin" unfolding Upsert_eq blockBody_def by (rule Contains_mid)
  moreover have "Contains ?d ''OPENSHELL_DRIVERS=applecontainer''"
    by (rule Contains_block [of "[]"]) (simp add: GatewayEnvLines_def)
  moreover have "Contains ?d (''OPENSHELL_COMPUTE_DRIVER_SOCKET='' @ shellQuote sock)"
    by (rule Contains_block [of "[]"]) (simp add: GatewayEnvLines_def)
  ultimately show ?thesis by (simp add: checkWiring_def assms Let_def check_def)
qed

lemma wiring_gone:
  assumes "\<forall>d. readFile ev (gatewayEnvPath (heEnv ev) s) st = Some d \<longrightarrow> \<not> Contains d blockBegin"
  shows "ckLevel (checkWiring ev s sock st) = ''fail''"
  using assms by (auto simp: checkWiring_def Let_def check_def split: option.split)

abbreviation wiringLines :: "Check list \<Rightarrow> Check list" where
  "wiringLines cs \<equiv> filter (\<lambda>c. ckName c = ''gateway wiring'') cs"

lemma wiring_names:
  "checkRuntime ev s dl st = (Some rl, st1) \<Longrightarrow> wiringLines rl = []"
  "checkNetwork ev dl name st = (a, ntl, st1) \<Longrightarrow> wiringLines ntl = []"
  "checkGateway ev s st = (gv, Some gl, st1) \<Longrightarrow> wiringLines gl = []"
  "checkService ev s st = (svc, st1) \<Longrightarrow> ckName svc = ''driver service''"
  "wiringLines (checkSocket cl s opts st) = []" "wiringLines (checkSupervisor gv img) = []"
  "ckName (checkCertificate ev tlsDir a' st) = ''gateway certificate''"
  "ckName (checkWiring ev s sock st) = ''gateway wiring''"
proof -
  show "checkRuntime ev s dl st = (Some rl, st1) \<Longrightarrow> wiringLines rl = []"
    by (auto simp: checkRuntime_def findingChecks_def check_def filter_empty_conv Let_def
        split: prod.splits if_splits sum.splits)
  show "checkNetwork ev dl name st = (a, ntl, st1) \<Longrightarrow> wiringLines ntl = []"
    by (auto simp: checkNetwork_def check_def Let_def split: prod.splits sum.splits)
  show "checkGateway ev s st = (gv, Some gl, st1) \<Longrightarrow> wiringLines gl = []"
    by (auto simp: checkGateway_def findingChecks_def check_def filter_empty_conv Let_def split: prod.splits if_splits)
  show "checkService ev s st = (svc, st1) \<Longrightarrow> ckName svc = ''driver service''"
    by (auto simp: checkService_def check_def split: prod.splits bool.splits if_splits)
  show "wiringLines (checkSocket cl s opts st) = []"
    by (auto simp: checkSocket_def check_def split: sum.split prod.split)
  show "wiringLines (checkSupervisor gv img) = []" by (simp add: checkSupervisor_def check_def)
  show "ckName (checkCertificate ev tlsDir a' st) = ''gateway certificate''"
    by (auto simp: checkCertificate_def check_def Let_def split: option.split sum.split bool.split)
  show "ckName (checkWiring ev s sock st) = ''gateway wiring''"
    by (auto simp: checkWiring_def check_def Let_def split: option.split)
qed

lemma readFile_cong: "nodeAt p st = nodeAt p st' \<Longrightarrow> readFile ev p st = readFile ev p st'"
  by (simp add: readFile_def nodeAt_def)

text \<open>There is one line on the wiring, and it is about the file as it was.\<close>

lemma Status_wiring:
  assumes "Status ev cl s dl opts st = (Some cs, st')" and "keepsFile ev (gatewayEnvPath (heEnv ev) s)"
  shows "wiringLines cs = [checkWiring ev s (soSocket opts) st]"
proof -
  obtain rl a ntl gv gl svc st1 st2 st3 where 1: "checkRuntime ev s dl st = (Some rl, st1)"
    and 2: "checkNetwork ev dl (soNetwork opts) st1 = (a, ntl, st2)" and 3: "checkGateway ev s st2 = (gv, Some gl, st3)"
    and 4: "checkService ev s st3 = (svc, st')"
    and cs: "cs = rl @ ntl @ gl @ [checkWiring ev s (soSocket opts) st3,
        checkCertificate ev (tlsDirOf ev (soTLSDir opts) st3) a st3, svc]
      @ checkSocket cl s opts st' @ checkSupervisor gv (soSupervisorImage opts)"
    by (rule Status_split [OF assms(1)]) blast
  have "onlyReads ev s st st3"
    by (rule onlyReads_trans [OF onlyReads_trans [OF onlyReads_sections(1) [OF 1] onlyReads_sections(2) [OF 2]]
          onlyReads_sections(3) [OF 3]])
  then have "readFile ev (gatewayEnvPath (heEnv ev) s) st3 = readFile ev (gatewayEnvPath (heEnv ev) s) st"
    using assms(2) by (intro readFile_cong) (simp add: onlyReads_def)
  then have "checkWiring ev s (soSocket opts) st3 = checkWiring ev s (soSocket opts) st" by (simp add: checkWiring_def)
  then show ?thesis
    by (simp add: cs wiring_names(1) [OF 1] wiring_names(2) [OF 2] wiring_names(3) [OF 3] wiring_names(4) [OF 4] wiring_names(5-8))
qed

text \<open>
  C19. The health report recognises what setup did: after a successful setup the one line on the
  gateway's wiring is good, for the socket that setup was given.
\<close>

theorem status_sees_setup:
  assumes "setupRun ev s dl opts st = (None, st1)" and "Status ev cl s dl' sopts st1 = (Some cs, st2)"
    and "keepsFile ev (gatewayEnvPath (heEnv ev) s)" and "keepsFile ev (agentPlistPath s)"
    and "heIo ev IoRead (gatewayEnvPath (heEnv ev) s)" and "soSocket sopts = opSocket opts"
  shows "map ckLevel (wiringLines cs) = [''ok'']"
proof -
  let ?E = "gatewayEnvPath (heEnv ev) s"
  obtain tlsDir where "fileText ?E st1 = Some (UpsertManagedBlock (textOr ev ?E st) (GatewayEnvLines (opSocket opts) tlsDir))"
    using setup_wired [OF assms(1,3,4)] by blast
  then have "readFile ev ?E st1 = Some (UpsertManagedBlock (textOr ev ?E st) (GatewayEnvLines (opSocket opts) tlsDir))"
    using assms(5) by (auto simp: readFile_def fileText_def nodeAt_def split: option.splits node.splits content.splits)
  from wiring_ok [OF this] show ?thesis using Status_wiring [OF assms(2,3)] assms(6) by simp
qed

text \<open>
  It recognises a cleanup too. (When the file held nothing else, the cleanup removes it, and
  does not notice when it cannot.)
\<close>

theorem status_sees_cleanup:
  assumes "Cleanup ev s copts st = (None, st1)" and "\<not> coDeleteData copts" and "\<not> coAll copts"
    and "Status ev cl s dl sopts st1 = (Some cs, st2)"
    and "keepsFile ev (gatewayEnvPath (heEnv ev) s)" and "heIo ev IoRemove (gatewayEnvPath (heEnv ev) s)"
  shows "map ckLevel (wiringLines cs) = [''fail'']"
proof -
  let ?E = "gatewayEnvPath (heEnv ev) s"
  obtain sa sb e sc where 3: "unwireGateway ev s sb = (None, sc)" and st1: "st1 = stopGateway ev s sc"
    by (rule Cleanup_split [OF assms(1-3)]) blast
  have "\<not> Contains d blockBegin" if "readFile ev ?E sc = Some d" for d
  proof (cases "readFile ev ?E sb")
    case None
    then show ?thesis using 3 that by (simp add: unwireGateway_def)
  next
    case (Some data)
    show ?thesis
    proof (cases "RemoveManagedBlock data = [] \<or> RemoveManagedBlock data = HostWiring.nl")
      case True
      then have "sc = snd (osRemove ev ?E sb)" using 3 Some by (simp add: unwireGateway_def)
      then have "nodeAt ?E sc = None" using assms(6) by (simp add: osRemove_def nodeAt_def fileExists_def)
      then show ?thesis using that by (simp add: readFile_def nodeAt_def split: if_splits)
    next
      case False
      then have "osWriteFile ev ?E (RemoveManagedBlock data) sb = (None, sc)" using 3 Some by (simp add: unwireGateway_def)
      from osWriteFile_ok [OF this] have "d = RemoveManagedBlock data" using that
        by (auto simp: readFile_def fileText_def nodeAt_def split: if_splits option.splits node.splits content.splits)
      then show ?thesis using RemoveManagedBlock_none by (simp add: Contains_def)
    qed
  qed
  moreover have "readFile ev ?E st1 = readFile ev ?E sc"
    using nodeAt_stopGateway [OF assms(5), of s sc] by (intro readFile_cong) (simp add: st1)
  ultimately show ?thesis using Status_wiring [OF assms(4,5)] wiring_gone [of ev s st1] by simp
qed

subsection \<open>The summary of sandboxes\<close>

lemma sandboxClass_in: "sandboxClass sb \<in> set sandboxClasses"
  by (simp add: sandboxClass_def sandboxClasses_def split: list.split)

lemma classCount_total: "sum_list (map (classCount sbs) sandboxClasses) = length sbs"
proof (induction sbs)
  case (Cons sb sbs)
  have "sum_list (map (classCount (sb # sbs)) sandboxClasses) = Suc (sum_list (map (classCount sbs) sandboxClasses))"
    using sandboxClass_in [of sb] by (auto simp: sandboxClasses_def classCount_def)
  then show ?case using Cons by simp
qed (simp add: classCount_def sandboxClasses_def)

text \<open>
  The summary counts every sandbox of a driver once, under the name of the state the driver
  gave it: one that is being deleted, one that runs, one stopped on purpose, one that still
  boots, and one that failed or exited.
\<close>

theorem summary_truthful:
  "sum_list (map (classCount (ListSandboxes d s)) sandboxClasses) = length (svSandboxes s)
   \<and> sandboxClass (snapshotLocked d (e\<lparr>enDeleting := True\<rparr>)) = ''deleting''
   \<and> sandboxClass (snapshotLocked d (e\<lparr>enDeleting := False, enCond := readyTrueCondition t\<rparr>)) = ''running''
   \<and> sandboxClass (snapshotLocked d (e\<lparr>enDeleting := False, enCond := stoppedCondition t\<rparr>)) = ''stopped''
   \<and> sandboxClass (snapshotLocked d (e\<lparr>enDeleting := False, enCond := startingCondition t\<rparr>)) = ''provisioning''
   \<and> sandboxClass (snapshotLocked d (e\<lparr>enDeleting := False, enCond := exitedCondition t\<rparr>)) = ''failed''
   \<and> sandboxClass (snapshotLocked d (e\<lparr>enDeleting := False, enCond := failedCondition m t\<rparr>)) = ''failed''"
  using classCount_total [of "ListSandboxes d s"]
  by (auto simp: ListSandboxes_def sandboxClass_def snapshotLocked_def conditionProto_def GetStatus_def GetDeleting_def
      GetConditions_def condition_defs reason_defs)

subsection \<open>A report\<close>

definition demoClient :: "'w driverClient" where
  "demoClient = \<lparr>dcGetCapabilities = (\<lambda>_ _. Inr ''1''), dcListSandboxes = (\<lambda>_ _. Inr [])\<rparr>"

definition demoStatus :: StatusOptions where
  "demoStatus = \<lparr>soNetwork = ''n'', soSocket = ''/t/s'', soTLSDir = ''/c'', soSupervisorImage = ''v:1'', soDriverVersion = ''1''\<rparr>"

lemma demo_version: "\<exists>st1. probeVersion demoHostEnv bin st = ([], st1)" if "bin \<noteq> ''launchctl''"
proof -
  have "ParseVersionOutput [] = []" by code_simp
  then show ?thesis using that by (simp add: probeVersion_def runCmd_def demoHostEnv_def demoExec_def)
qed

lemma demo_report: "\<exists>cs st'. Status demoHostEnv demoClient demoHome 0 demoStatus st = (Some cs, st')"
proof -
  obtain st1 where 1: "probeVersion demoHostEnv ''container'' st = ([], st1)" using demo_version by fastforce
  obtain a ls st2 where 2: "checkNetwork demoHostEnv 0 ''n'' st1 = (a, ls, st2)" by (metis prod.exhaust_sel)
  obtain st3 where 3: "probeVersion demoHostEnv ''openshell-gateway'' st2 = ([], st3)" using demo_version by fastforce
  show ?thesis by (simp add: Status_def checkRuntime_def checkGateway_def 1 2 3 demoStatus_def split: prod.split)
qed

theorem status_only_reads_witness:
  "\<exists>cs st'. Status demoHostEnv demoClient demoHome 0 demoStatus demoHost = (Some cs, st') \<and> onlyReads demoHostEnv demoHome demoHost st'"
  using demo_report [of demoHost] status_only_reads by blast

theorem status_sees_setup_witness:
  "\<exists>st1 cs st2. setupRun demoHostEnv demoHome 1000000 demoOptions demoHost = (None, st1)
     \<and> Status demoHostEnv demoClient demoHome 0 demoStatus st1 = (Some cs, st2)
     \<and> map ckLevel (wiringLines cs) = [''ok'']"
proof -
  obtain st1 where r: "setupRun demoHostEnv demoHome 1000000 demoOptions demoHost = (None, st1)" using demo_setup by blast
  obtain cs st2 where c: "Status demoHostEnv demoClient demoHome 0 demoStatus st1 = (Some cs, st2)" using demo_report by blast
  have k: "keepsFile demoHostEnv (gatewayEnvPath (heEnv demoHostEnv) demoHome)" "keepsFile demoHostEnv (agentPlistPath demoHome)"
    by (simp_all add: demo_paths demo_keeps)
  have o: "soSocket demoStatus = opSocket demoOptions" by (simp add: demoStatus_def demoOptions_def)
  from status_sees_setup [OF r c k demo_cleanup_env(1) o] r c show ?thesis by (intro exI conjI)
qed

theorem status_sees_cleanup_witness:
  "\<exists>st1 cs st2. Cleanup demoHostEnv demoHome demoCleanup demoHost = (None, st1)
     \<and> Status demoHostEnv demoClient demoHome 0 demoStatus st1 = (Some cs, st2)
     \<and> map ckLevel (wiringLines cs) = [''fail'']"
proof -
  obtain st1 where r: "Cleanup demoHostEnv demoHome demoCleanup demoHost = (None, st1)" using demo_cleanup_run by blast
  obtain cs st2 where c: "Status demoHostEnv demoClient demoHome 0 demoStatus st1 = (Some cs, st2)" using demo_report by blast
  have k: "keepsFile demoHostEnv (gatewayEnvPath (heEnv demoHostEnv) demoHome)" by (simp add: demo_paths demo_keeps)
  have z: "\<not> coDeleteData demoCleanup" "\<not> coAll demoCleanup" by (simp_all add: demoCleanup_def)
  from status_sees_cleanup [OF r z c k demo_cleanup_env(1)] r c show ?thesis by (intro exI conjI)
qed

end
