(* ===== verification/Update.thy ===== *)
theory Update
  imports HostSetup
begin

section \<open>Updating the driver (\<open>update.go\<close>)\<close>

text \<open>
  \<open>update\<close> replaces the running binary by a released one whose checksum it has verified, or
  lets Homebrew do it, and re-runs setup. The host is that of setup. What comes over the
  network, the hash function, the decoder of archives, and the
  names of temporary files are parameters.
\<close>

subsection \<open>The outside\<close>

text \<open>What \<open>tar\<close> reads: a member (regular or not, name, data, whether all of it could be read), or an error.\<close>

datatype tarItem = TarMember bool string string bool | TarBad

text \<open>
  A response: status, body, and whether the body arrived in full. \<open>neArchive\<close> is \<open>None\<close> when
  the data is not gzip.
\<close>

record 'w netenv =
  neGet :: "string \<Rightarrow> 'w \<Rightarrow> (nat \<times> string \<times> bool) option"
  neSha256 :: "string \<Rightarrow> string"
  neArchive :: "string \<Rightarrow> tarItem list option"
  neTempDir :: "string \<Rightarrow> string"
  neTempFile :: "string \<Rightarrow> string"

definition updateRepo :: string where "updateRepo = ''vyncint/openshell-driver-applecontainer''"
definition updateBinaryName :: string where "updateBinaryName = ''openshell-driver-applecontainer''"

definition maxArchiveBytes :: nat where "maxArchiveBytes = 200 * 2 ^ 20"

definition limitReader :: "string \<Rightarrow> string" where
  "limitReader b = take maxArchiveBytes b"

subsection \<open>Downloads\<close>

definition httpGet :: "'w netenv \<Rightarrow> string \<Rightarrow> 'w Host \<Rightarrow> err + (string \<times> bool)" where
  "httpGet ne url st =
     (case neGet ne url (hoWorld st) of
        None \<Rightarrow> Inl (errorf ''Get %q'' [url])
      | Some (code, body, complete) \<Rightarrow>
          (if code \<noteq> 200 then Inl (errorf ''GET %s: HTTP %d'' [url, natString code]) else Inr (body, complete)))"

text \<open>A body that breaks off is an error unless the limit comes first.\<close>

definition readBody :: "string \<times> bool \<Rightarrow> string \<times> bool" where
  "readBody r = (limitReader (fst r), snd r \<or> maxArchiveBytes \<le> length (fst r))"

definition httpGetBytes :: "'w netenv \<Rightarrow> string \<Rightarrow> 'w Host \<Rightarrow> err + string" where
  "httpGetBytes ne url st =
     (case httpGet ne url st of
        Inl e \<Rightarrow> Inl e
      | Inr r \<Rightarrow> (case readBody r of (b, True) \<Rightarrow> Inr b | (b, False) \<Rightarrow> Inl (errorf ''unexpected EOF'' [])))"

definition downloadTo :: "'w hostenv \<Rightarrow> 'w netenv \<Rightarrow> string \<Rightarrow> string \<Rightarrow> 'w Host \<Rightarrow> err option \<times> 'w Host" where
  "downloadTo ev ne url dest st =
     (case httpGet ne url st of
        Inl e \<Rightarrow> (Some e, st)
      | Inr r \<Rightarrow>
          (if \<not> heIo ev IoOpen dest \<or> isDirNode (map_of (hoFs st) dest) then (Some (errorf ''create'' [dest]), st)
           else
             (let st1 = st\<lparr>hoFs := fsExec (WriteOp dest (Bytes (fst (readBody r)))) (openTrunc 420 dest (hoFs st))\<rparr>
              in if \<not> snd (readBody r) \<or> \<not> heIo ev IoCopy dest then (Some (errorf ''copy'' [dest]), st1)
                 else if \<not> heIo ev IoClose dest then (Some (errorf ''close'' [dest]), st1)
                 else (None, st1))))"

definition releaseType :: gotype where
  "releaseType = GTStruct [(''tag_name'', GTString)]"

definition latestReleaseTag :: "'w netenv \<Rightarrow> string \<Rightarrow> 'w Host \<Rightarrow> err + string" where
  "latestReleaseTag ne repo st =
     (case httpGetBytes ne (''https://api.github.com/repos/'' @ repo @ ''/releases/latest'') st of
        Inl e \<Rightarrow> Inl e
      | Inr body \<Rightarrow>
          (case Unmarshal releaseType body of
             None \<Rightarrow> Inl (errorf ''parse release metadata: %w'' [])
           | Some rel \<Rightarrow>
               (let tag = goString (goField [''tag_name''] rel)
                in if tag = [] then Inl (errorf ''no tag_name in latest release'' []) else Inr tag)))"

subsection \<open>Verification\<close>

definition releaseArchiveName :: "string \<Rightarrow> string" where
  "releaseArchiveName v = updateBinaryName @ ''_'' @ TrimPrefix v ''v'' @ ''_darwin_arm64.tar.gz''"

text \<open>The checksum listed for a name: the first line of two fields whose second is the name.\<close>

fun listedSum :: "string \<Rightarrow> string list \<Rightarrow> string option" where
  "listedSum name [] = None"
| "listedSum name (l # ls) =
     (case Fields l of
        [h, n] \<Rightarrow> (if n = name then Some (toLowerASCII h) else listedSum name ls)
      | _ \<Rightarrow> listedSum name ls)"

definition wantedSum :: "string \<Rightarrow> string \<Rightarrow> string" where
  "wantedSum sums name = (case listedSum name (splitOn (CHR 0x0A) sums) of None \<Rightarrow> [] | Some h \<Rightarrow> h)"

definition verifyChecksum :: "'w hostenv \<Rightarrow> 'w netenv \<Rightarrow> string \<Rightarrow> string \<Rightarrow> string \<Rightarrow> 'w Host \<Rightarrow> err option" where
  "verifyChecksum ev ne archivePath sums name st =
     (let want = wantedSum sums name
      in if want = [] then Some (errorf ''no checksum listed for %s'' [name])
         else (case readFile ev archivePath st of
                 None \<Rightarrow> Some (errorf ''open'' [archivePath])
               | Some b \<Rightarrow>
                   (let got = neSha256 ne (limitReader b)
                    in if got \<noteq> want then Some (errorf ''checksum mismatch for %s: got %s, want %s'' [name, got, want])
                       else None)))"

text \<open>The first regular member of that base name: its data, and whether it can be read.\<close>

fun findMember :: "string \<Rightarrow> tarItem list \<Rightarrow> err + (string \<times> bool)" where
  "findMember name [] = Inl (errorf ''%s not found in archive'' [name])"
| "findMember name (TarBad # is) = Inl (errorf ''tar'' [])"
| "findMember name (TarMember reg n d complete # is) =
     (if \<not> reg \<or> pathBase n \<noteq> name then findMember name is else Inr (d, complete))"

definition extractBinaryFromTarGz ::
  "'w hostenv \<Rightarrow> 'w netenv \<Rightarrow> string \<Rightarrow> string \<Rightarrow> string \<Rightarrow> 'w Host \<Rightarrow> err option \<times> 'w Host" where
  "extractBinaryFromTarGz ev ne archivePath name dest st =
     (case readFile ev archivePath st of
        None \<Rightarrow> (Some (errorf ''open'' [archivePath]), st)
      | Some b \<Rightarrow>
          (case neArchive ne b of
             None \<Rightarrow> (Some (errorf ''gunzip: %w'' []), st)
           | Some is \<Rightarrow>
               (case findMember name is of
                  Inl e \<Rightarrow> (Some e, st)
                | Inr m \<Rightarrow>
                    (if \<not> heIo ev IoOpen dest \<or> isDirNode (map_of (hoFs st) dest)
                     then (Some (errorf ''open'' [dest]), st)
                     else
                       (let st1 = st\<lparr>hoFs := fsExec (WriteOp dest (Bytes (fst (readBody m)))) (openTrunc 493 dest (hoFs st))\<rparr>
                        in if \<not> snd (readBody m) \<or> \<not> heIo ev IoCopy dest then (Some (errorf ''copy'' [dest]), st1)
                           else if \<not> heIo ev IoClose dest then (Some (errorf ''close'' [dest]), st1)
                           else (None, st1))))))"

subsection \<open>Replacement\<close>

text \<open>
  \<open>copyFile\<close> onto an existing file: what it does to the file system, as a list of effects,
  and whether it got through. The mode is forced at the end.
\<close>

definition copyTrace :: "'w hostenv \<Rightarrow> string \<Rightarrow> string \<Rightarrow> nat \<Rightarrow> 'w Host \<Rightarrow> bool \<times> fsop list" where
  "copyTrace ev src dst mode st =
     (case readFile ev src st of
        None \<Rightarrow> (False, [])
      | Some b \<Rightarrow>
          (if \<not> heIo ev IoOpen dst then (False, [])
           else if \<not> heIo ev IoCopy dst then (False, [WriteOp dst (Bytes [])])
           else if \<not> heIo ev IoChmod dst then (False, [WriteOp dst (Bytes []), WriteOp dst (Bytes b)])
           else (heIo ev IoClose dst, [WriteOp dst (Bytes []), WriteOp dst (Bytes b), ChmodOp dst mode])))"

text \<open>The replacement beside the target, then the rename over it.\<close>

definition replaceTrace :: "'w hostenv \<Rightarrow> 'w netenv \<Rightarrow> string \<Rightarrow> string \<Rightarrow> 'w Host \<Rightarrow> bool \<times> fsop list" where
  "replaceTrace ev ne target newBin st =
     (let tmp = neTempFile ne (pathDir target)
      in if \<not> heIo ev IoTemp (pathDir target) then (False, [])
         else
           (let (copied, ops) = copyTrace ev newBin tmp 493 st
            in if copied \<and> heIo ev IoRename target \<and> \<not> isDirNode (map_of (hoFs st) target)
               then (True, CreateOp tmp mode600 # ops @ [RenameOp tmp target])
               else (False, CreateOp tmp mode600 # ops @ [RemoveOp tmp])))"

definition replaceBinary ::
  "'w hostenv \<Rightarrow> 'w netenv \<Rightarrow> string \<Rightarrow> string \<Rightarrow> 'w Host \<Rightarrow> err option \<times> 'w Host" where
  "replaceBinary ev ne target newBin st =
     (let (ok, ops) = replaceTrace ev ne target newBin st;
          st1 = st\<lparr>hoFs := fsRun ops (hoFs st)\<rparr>
      in if ok then (None, st1)
         else (case runCmd ev ''sudo'' [''install'', ''-m'', ''0755'', newBin, target] st1 of
                 ((True, out), st2) \<Rightarrow> (None, st2)
               | ((False, out), st2) \<Rightarrow> (Some (errorf ''sudo install'' []), st2)))"

text \<open>With the archive's directory made: fetch, verify, extract, replace.\<close>

definition fetchRelease ::
  "'w hostenv \<Rightarrow> 'w netenv \<Rightarrow> string \<Rightarrow> string \<Rightarrow> string \<Rightarrow> 'w Host \<Rightarrow> err option \<times> 'w Host" where
  "fetchRelease ev ne tmp bin v st =
     (let archive = releaseArchiveName v;
          base = ''https://github.com/'' @ updateRepo @ ''/releases/download/'' @ v;
          archivePath = pathJoin [tmp, archive];
          extracted = pathJoin [tmp, updateBinaryName]
      in case downloadTo ev ne (base @ ''/'' @ archive) archivePath st of
           (Some e, st1) \<Rightarrow> (Some (Wrap ''download %s: %w'' [archive] e), st1)
         | (None, st1) \<Rightarrow>
             (case httpGetBytes ne (base @ ''/checksums.txt'') st1 of
                Inl e \<Rightarrow> (Some (Wrap ''download checksums: %w'' [] e), st1)
              | Inr sums \<Rightarrow>
                  (case verifyChecksum ev ne archivePath sums archive st1 of
                     Some e \<Rightarrow> (Some e, st1)
                   | None \<Rightarrow>
                       (case extractBinaryFromTarGz ev ne archivePath updateBinaryName extracted st1 of
                          (Some e, st2) \<Rightarrow> (Some e, st2)
                        | (None, st2) \<Rightarrow>
                            (case replaceBinary ev ne bin extracted st2 of
                               (Some e, st3) \<Rightarrow> (Some (Wrap ''replace %s: %w'' [bin] e), st3)
                             | (None, st3) \<Rightarrow>
                                 (None, snd (runCmd ev ''xattr'' [''-d'', ''com.apple.quarantine'', bin] st3)))))))"

definition selfUpdate :: "'w hostenv \<Rightarrow> 'w netenv \<Rightarrow> string \<Rightarrow> string \<Rightarrow> 'w Host \<Rightarrow> err option \<times> 'w Host" where
  "selfUpdate ev ne bin v st =
     (let tmp = neTempDir ne ''oshl-ac-update-''
      in if \<not> heIo ev IoTemp ''oshl-ac-update-'' then (Some (errorf ''mkdir'' []), st)
         else
           (let (e, st1) = fetchRelease ev ne tmp bin v (st\<lparr>hoFs := AList.update tmp (DirN mode700) (hoFs st)\<rparr>)
            in (e, osRemoveAll ev tmp st1)))"

subsection \<open>Prerequisites\<close>

definition openShellReleaseTag :: "string \<Rightarrow> string" where
  "openShellReleaseTag v = (if v = [] \<or> v = ''dev'' \<or> HasPrefix v ''v'' then v else ''v'' @ v)"

definition openShellInstallURL :: string where
  "openShellInstallURL = ''https://raw.githubusercontent.com/NVIDIA/OpenShell/main/install.sh''"

text \<open>A command with an addition to its environment is issued under both.\<close>

definition runOpenShellInstaller ::
  "'w hostenv \<Rightarrow> 'w netenv \<Rightarrow> string \<Rightarrow> 'w Host \<Rightarrow> err option \<times> 'w Host" where
  "runOpenShellInstaller ev ne v st =
     (let tmp = neTempDir ne ''oshl-installer-''; script = pathJoin [tmp, ''install.sh'']
      in if \<not> heIo ev IoTemp ''oshl-installer-'' then (Some (errorf ''mkdir'' []), st)
         else
           (case downloadTo ev ne openShellInstallURL script (st\<lparr>hoFs := AList.update tmp (DirN mode700) (hoFs st)\<rparr>) of
              (Some e, st1) \<Rightarrow> (Some (Wrap ''download the OpenShell installer: %w'' [] e), osRemoveAll ev tmp st1)
            | (None, st1) \<Rightarrow>
                (let st2 = snd (runCmd ev (''OPENSHELL_VERSION='' @ openShellReleaseTag v @ '' /bin/sh'') [script] st1)
                 in (if heLookPath ev ''openshell'' then None
                     else Some (errorf ''openshell binary not present after install: %w'' []),
                     osRemoveAll ev tmp st2))))"

definition acUpdater :: string where "acUpdater = ''/usr/local/bin/update-container.sh''"

definition updateContainer :: "'w hostenv \<Rightarrow> string \<Rightarrow> 'w Host \<Rightarrow> 'w Host" where
  "updateContainer ev containerVersion st =
     (if \<not> fileExists acUpdater st then st
      else
        (let st1 = snd (runCmd ev ''container'' [''system'', ''stop''] st);
             st2 = snd (runCmd ev acUpdater (if containerVersion \<noteq> [] then [''-v'', containerVersion] else []) st1)
         in snd (runCmd ev ''container'' [''system'', ''start''] st2)))"

definition updatePrerequisites ::
  "'w hostenv \<Rightarrow> 'w netenv \<Rightarrow> string \<Rightarrow> string \<Rightarrow> 'w Host \<Rightarrow> 'w Host" where
  "updatePrerequisites ev ne openshellVersion containerVersion st =
     updateContainer ev containerVersion
       (if openshellVersion \<noteq> [] then snd (runOpenShellInstaller ev ne openshellVersion st)
        else if heLookPath ev ''brew'' then snd (runCmd ev ''brew'' [''upgrade'', ''openshell''] st)
        else st)"

subsection \<open>The command\<close>

record UpdateOptions =
  upVersion :: string
  upNoSetup :: bool
  upAll :: bool
  upOpenShell :: string
  upContainer :: string

text \<open>\<open>exe\<close> is \<open>os.Executable\<close>, \<open>links\<close> \<open>filepath.EvalSymlinks\<close>.\<close>

definition currentBinaryPath :: "string option \<Rightarrow> (string \<Rightarrow> string option) \<Rightarrow> string option" where
  "currentBinaryPath exe links =
     (case exe of
        None \<Rightarrow> None
      | Some self \<Rightarrow> (case links self of Some resolved \<Rightarrow> Some resolved | None \<Rightarrow> Some self))"

text \<open>
  The binary: the exit code that ends the update, or the path setup is re-run through.
  \<open>current\<close> is the version built in.
\<close>

definition updateDriver ::
  "'w hostenv \<Rightarrow> 'w netenv \<Rightarrow> string option \<Rightarrow> string \<Rightarrow> string \<Rightarrow> UpdateOptions \<Rightarrow> 'w Host
     \<Rightarrow> (nat + string) \<times> 'w Host" where
  "updateDriver ev ne exe current self opts st =
     (case HomebrewCask self of
        Some cask \<Rightarrow>
          (if upVersion opts \<noteq> [] then (Inl 2, st)
           else (Inr (case exe of Some p \<Rightarrow> p | None \<Rightarrow> self),
                 snd (runCmd ev ''brew'' [''upgrade'', ''--cask'', cask] st)))
      | None \<Rightarrow>
          (case (if upVersion opts \<noteq> [] then Inr (upVersion opts) else latestReleaseTag ne updateRepo st) of
             Inl e \<Rightarrow> (Inl 1, st)
           | Inr want \<Rightarrow>
               (if want = current then (Inr self, st)
                else (case selfUpdate ev ne self want st of
                        (Some e, st1) \<Rightarrow> (Inl 1, st1)
                      | (None, st1) \<Rightarrow> (Inr self, st1)))))"

definition runUpdate ::
  "'w hostenv \<Rightarrow> 'w netenv \<Rightarrow> string option \<Rightarrow> (string \<Rightarrow> string option) \<Rightarrow> string \<Rightarrow> UpdateOptions
     \<Rightarrow> 'w Host \<Rightarrow> nat \<times> 'w Host" where
  "runUpdate ev ne exe links current opts st =
     (if \<not> upAll opts \<and> (upOpenShell opts \<noteq> [] \<or> upContainer opts \<noteq> []) then (2, st)
      else (case currentBinaryPath exe links of
              None \<Rightarrow> (1, st)
            | Some self \<Rightarrow>
                (case updateDriver ev ne exe current self opts st of
                   (Inl c, st1) \<Rightarrow> (c, st1)
                 | (Inr setupPath, st1) \<Rightarrow>
                     (let st2 = (if upAll opts then updatePrerequisites ev ne (upOpenShell opts) (upContainer opts) st1 else st1)
                      in if upNoSetup opts then (0, st2)
                         else (case runCmd ev setupPath [''setup''] st2 of
                                 ((True, out), st3) \<Rightarrow> (0, st3)
                               | ((False, out), st3) \<Rightarrow> (1, st3))))))"

subsection \<open>The replacement is atomic\<close>

lemma copyTrace_cases:
  "copyTrace ev src dst mode st = (ok, ops) \<Longrightarrow>
     set ops \<subseteq> {WriteOp dst (Bytes []), ChmodOp dst mode} \<union> {WriteOp dst (Bytes b) |b. readFile ev src st = Some b}
     \<and> (ok \<longrightarrow> (\<exists>b. readFile ev src st = Some b \<and> ops = [WriteOp dst (Bytes []), WriteOp dst (Bytes b), ChmodOp dst mode]))"
  by (auto simp: copyTrace_def split: option.splits if_splits)

definition onPath :: "string \<Rightarrow> fsop \<Rightarrow> bool" where
  "onPath p op = (case op of WriteOp q _ \<Rightarrow> q = p | ChmodOp q _ \<Rightarrow> q = p | CreateOp q _ \<Rightarrow> q = p | RemoveOp q \<Rightarrow> q = p | _ \<Rightarrow> False)"

lemma fsRun_other: "list_all (onPath p) ops \<Longrightarrow> q \<noteq> p \<Longrightarrow> map_of (fsRun ops fs) q = map_of fs q"
proof (induction ops arbitrary: fs)
  case (Cons op ops)
  then show ?case
    by (cases op) (auto simp: fsRun_def onPath_def split: option.splits node.splits)
qed (simp add: fsRun_def)

text \<open>A successful replacement writes a copy beside the target and renames it.\<close>

lemma replaceTrace_ok:
  assumes "replaceTrace ev ne target newBin st = (True, ops)"
  obtains b where "readFile ev newBin st = Some b"
    "ops = [CreateOp (neTempFile ne (pathDir target)) mode600, WriteOp (neTempFile ne (pathDir target)) (Bytes []),
        WriteOp (neTempFile ne (pathDir target)) (Bytes b), ChmodOp (neTempFile ne (pathDir target)) 493]
      @ [RenameOp (neTempFile ne (pathDir target)) target]"
proof -
  let ?tmp = "neTempFile ne (pathDir target)"
  obtain copied cops where c: "copyTrace ev newBin ?tmp 493 st = (copied, cops)" by fastforce
  have o: "ops = CreateOp ?tmp mode600 # cops @ [RenameOp ?tmp target]" and copied
    using assms by (auto simp: replaceTrace_def c Let_def split: if_splits)
  then show ?thesis using copyTrace_cases [OF c] that by auto
qed

lemma replaceTrace_failed:
  assumes "replaceTrace ev ne target newBin st = (False, ops)"
  shows "list_all (onPath (neTempFile ne (pathDir target))) ops"
proof -
  let ?tmp = "neTempFile ne (pathDir target)"
  obtain copied cops where c: "copyTrace ev newBin ?tmp 493 st = (copied, cops)" by fastforce
  have "list_all (onPath ?tmp) cops" using copyTrace_cases [OF c] by (force simp: list_all_iff onPath_def)
  moreover have "ops = [] \<or> ops = CreateOp ?tmp mode600 # cops @ [RemoveOp ?tmp]"
    using assms by (auto simp: replaceTrace_def c Let_def split: if_splits)
  ultimately show ?thesis by (auto simp: onPath_def)
qed

lemma replaced:
  assumes "replaceTrace ev ne target newBin st = (True, ops)" and "neTempFile ne (pathDir target) \<noteq> target"
  shows "\<exists>b. readFile ev newBin st = Some b \<and> map_of (fsRun ops fs) target = Some (FileN 493 (Bytes b))"
proof -
  obtain b where "readFile ev newBin st = Some b"
    "ops = [CreateOp (neTempFile ne (pathDir target)) mode600, WriteOp (neTempFile ne (pathDir target)) (Bytes []),
        WriteOp (neTempFile ne (pathDir target)) (Bytes b), ChmodOp (neTempFile ne (pathDir target)) 493]
      @ [RenameOp (neTempFile ne (pathDir target)) target]"
    by (rule replaceTrace_ok [OF assms(1)])
  then show ?thesis using assms(2) by (simp add: fsRun_def)
qed


subsection \<open>Only verified releases are installed\<close>

definition verifiedBinary :: "'w netenv \<Rightarrow> string \<Rightarrow> string \<Rightarrow> string \<Rightarrow> bool" where
  "verifiedBinary ne sums name d \<longleftrightarrow>
     (\<exists>archive items m complete. length archive \<le> maxArchiveBytes \<and> wantedSum sums name \<noteq> []
        \<and> neSha256 ne archive = wantedSum sums name
        \<and> neArchive ne archive = Some items \<and> findMember updateBinaryName items = Inr (m, complete)
        \<and> d = limitReader m \<and> (complete \<or> length d = maxArchiveBytes))"

definition freshNames :: "'w netenv \<Rightarrow> string \<Rightarrow> string \<Rightarrow> bool" where
  "freshNames ne bin v \<longleftrightarrow>
     (let tmp = neTempDir ne ''oshl-ac-update-''
      in distinct [bin, pathJoin [tmp, releaseArchiveName v], pathJoin [tmp, updateBinaryName], neTempFile ne (pathDir bin)]
         \<and> \<not> underPath tmp bin)"

text \<open>
  Of the commands only \<open>sudo install\<close> changes the binary, and it installs a copy of the file
  it is given.
\<close>

definition installs :: "'w hostenv \<Rightarrow> string \<Rightarrow> bool" where
  "installs ev p \<longleftrightarrow>
     (\<forall>name args w fs. name = ''sudo'' \<or> map_of (snd (snd (heExec ev name args (w, fs)))) p = map_of fs p)
     \<and> (\<forall>src w fs. map_of (snd (snd (heExec ev ''sudo'' [''install'', ''-m'', ''0755'', src, p] (w, fs)))) p = map_of fs p
          \<or> (\<exists>m c. map_of fs src = Some (FileN m c)
               \<and> map_of (snd (snd (heExec ev ''sudo'' [''install'', ''-m'', ''0755'', src, p] (w, fs)))) p = Some (FileN 493 c)))"

lemma limitReader_length: "length (limitReader b) \<le> maxArchiveBytes"
  by (simp add: limitReader_def)

lemma limitReader_idem: "length b \<le> maxArchiveBytes \<Longrightarrow> limitReader b = b"
  by (simp add: limitReader_def)

lemma nodeAt_download:
  "downloadTo ev ne url dest st = (r, st') \<Longrightarrow> p \<noteq> dest \<Longrightarrow> nodeAt p st' = nodeAt p st"
  by (auto simp: downloadTo_def nodeAt_def openTrunc_def Let_def split: sum.splits prod.splits if_splits option.splits node.splits)

lemma download_ok:
  "downloadTo ev ne url dest st = (None, st') \<Longrightarrow>
     \<exists>m b. nodeAt dest st' = Some (FileN m (Bytes b)) \<and> length b \<le> maxArchiveBytes"
  using limitReader_length
  by (auto simp: downloadTo_def nodeAt_def openTrunc_def Let_def isDirNode_def readBody_def
      split: sum.splits prod.splits if_splits option.splits node.splits)

lemma nodeAt_extract:
  "extractBinaryFromTarGz ev ne ap name dest st = (r, st') \<Longrightarrow> p \<noteq> dest \<Longrightarrow> nodeAt p st' = nodeAt p st"
  by (auto simp: extractBinaryFromTarGz_def nodeAt_def openTrunc_def Let_def
      split: sum.splits prod.splits if_splits option.splits node.splits)

lemma extract_ok:
  "extractBinaryFromTarGz ev ne ap name dest st = (None, st') \<Longrightarrow>
     \<exists>b items m complete mode. readFile ev ap st = Some b \<and> neArchive ne b = Some items
       \<and> findMember name items = Inr (m, complete) \<and> (complete \<or> length (limitReader m) = maxArchiveBytes)
       \<and> nodeAt dest st' = Some (FileN mode (Bytes (limitReader m)))"
  by (auto simp: extractBinaryFromTarGz_def nodeAt_def openTrunc_def Let_def isDirNode_def readBody_def limitReader_def
      split: sum.splits prod.splits if_splits option.splits node.splits)

lemma replaceBinary_node:
  assumes "replaceBinary ev ne bin src st = (r, st')" and "neTempFile ne (pathDir bin) \<noteq> bin"
    and "neTempFile ne (pathDir bin) \<noteq> src" and "installs ev bin" and "nodeAt src st = Some (FileN m (Bytes d))"
  shows "nodeAt bin st' = nodeAt bin st \<or> nodeAt bin st' = Some (FileN 493 (Bytes d))"
proof -
  obtain ok ops where t: "replaceTrace ev ne bin src st = (ok, ops)" by fastforce
  define st1 where "st1 = st\<lparr>hoFs := fsRun ops (hoFs st)\<rparr>"
  show ?thesis
  proof (cases ok)
    case True
    with t have "replaceTrace ev ne bin src st = (True, ops)" by simp
    from replaced [OF this assms(2), of "hoFs st"]
    obtain b where "readFile ev src st = Some b" "map_of (fsRun ops (hoFs st)) bin = Some (FileN 493 (Bytes b))" by blast
    moreover have "st' = st1" using assms(1) True by (simp add: replaceBinary_def t st1_def)
    moreover have "readFile ev src st = Some b \<Longrightarrow> b = d" for b
      using assms(5) by (simp add: readFile_def nodeAt_def split: if_splits)
    ultimately show ?thesis by (simp add: nodeAt_def st1_def)
  next
    case False
    then have f: "list_all (onPath (neTempFile ne (pathDir bin))) ops" using replaceTrace_failed t by metis
    have s: "nodeAt bin st1 = nodeAt bin st" "nodeAt src st1 = Some (FileN m (Bytes d))"
      using fsRun_other [OF f] assms(2,3,5) by (simp_all add: nodeAt_def st1_def)
    have "st' = snd (runCmd ev ''sudo'' [''install'', ''-m'', ''0755'', src, bin] st1)"
      using assms(1) False by (auto simp: replaceBinary_def t st1_def [symmetric] split: prod.splits bool.splits)
    then have n: "nodeAt bin st' = map_of (snd (snd (heExec ev ''sudo'' [''install'', ''-m'', ''0755'', src, bin] (hoWorld st1, hoFs st1)))) bin"
      by (simp add: runCmd_def nodeAt_def split: prod.split)
    have "nodeAt bin st' = map_of (hoFs st1) bin
        \<or> (\<exists>m c. map_of (hoFs st1) src = Some (FileN m c) \<and> nodeAt bin st' = Some (FileN 493 c))"
      using assms(4) unfolding installs_def n by blast
    then show ?thesis using s by (auto simp: nodeAt_def)
  qed
qed

lemma installs_cmd: "installs ev p \<Longrightarrow> name \<noteq> ''sudo'' \<Longrightarrow> nodeAt p (snd (runCmd ev name args st)) = nodeAt p st"
proof -
  assume "installs ev p" "name \<noteq> ''sudo''"
  then have "map_of (snd (snd (heExec ev name args (hoWorld st, hoFs st)))) p = map_of (hoFs st) p"
    unfolding installs_def by blast
  then show ?thesis by (auto simp: nodeAt_def runCmd_def split: prod.splits)
qed

definition sumsURL :: "string \<Rightarrow> string" where
  "sumsURL v = ''https://github.com/'' @ updateRepo @ ''/releases/download/'' @ v @ ''/checksums.txt''"

lemma fetchRelease_verified:
  assumes "fetchRelease ev ne (neTempDir ne ''oshl-ac-update-'') bin v st = (r, st')" and "freshNames ne bin v" and "installs ev bin"
  shows "nodeAt bin st' = nodeAt bin st
    \<or> (\<exists>st1 sums d. httpGetBytes ne (sumsURL v) st1 = Inr sums \<and> verifiedBinary ne sums (releaseArchiveName v) d
         \<and> nodeAt bin st' = Some (FileN 493 (Bytes d)))"
proof -
  let ?tmp = "neTempDir ne ''oshl-ac-update-''" and ?name = "releaseArchiveName v"
  let ?ap = "pathJoin [?tmp, ?name]" and ?ex = "pathJoin [?tmp, updateBinaryName]"
  have fresh: "bin \<noteq> ?ap" "bin \<noteq> ?ex" "?ap \<noteq> ?ex" "neTempFile ne (pathDir bin) \<noteq> bin" "neTempFile ne (pathDir bin) \<noteq> ?ex"
    using assms(2) by (auto simp: freshNames_def Let_def)
  define url where "url = ''https://github.com/'' @ updateRepo @ ''/releases/download/'' @ v @ ''/'' @ ?name"
  obtain e1 st1 where 1: "downloadTo ev ne url ?ap st = (e1, st1)" by fastforce
  have n1: "nodeAt bin st1 = nodeAt bin st" using nodeAt_download [OF 1 fresh(1)] .
  show ?thesis
  proof (cases "e1 = None \<and> (\<exists>sums. httpGetBytes ne (sumsURL v) st1 = Inr sums \<and> verifyChecksum ev ne ?ap sums ?name st1 = None)")
    case False
    then have "st' = st1" using assms(1) 1
      by (auto simp: fetchRelease_def Let_def url_def sumsURL_def split: option.splits sum.splits prod.splits)
    then show ?thesis using n1 by simp
  next
    case True
    then obtain sums where e1: "e1 = None" and s: "httpGetBytes ne (sumsURL v) st1 = Inr sums"
      and v: "verifyChecksum ev ne ?ap sums ?name st1 = None" by blast
    obtain e2 st2 where 2: "extractBinaryFromTarGz ev ne ?ap updateBinaryName ?ex st1 = (e2, st2)" by fastforce
    have n2: "nodeAt bin st2 = nodeAt bin st" using nodeAt_extract [OF 2 fresh(2)] n1 by simp
    obtain e3 st3 where 3: "replaceBinary ev ne bin ?ex st2 = (e3, st3)" by fastforce
    have run: "st' = (case e2 of Some e \<Rightarrow> st2
        | None \<Rightarrow> (case e3 of Some e \<Rightarrow> st3 | None \<Rightarrow> snd (runCmd ev ''xattr'' [''-d'', ''com.apple.quarantine'', bin] st3)))"
      using assms(1) 1 e1 s v 2 3
      by (auto simp: fetchRelease_def Let_def url_def sumsURL_def split: option.splits)
    show ?thesis
    proof (cases e2)
      case (Some e)
      then show ?thesis using run n2 by simp
    next
      case None
      obtain b items m complete mode where x: "readFile ev ?ap st1 = Some b" "neArchive ne b = Some items"
        "findMember updateBinaryName items = Inr (m, complete)" "complete \<or> length (limitReader m) = maxArchiveBytes"
        "nodeAt ?ex st2 = Some (FileN mode (Bytes (limitReader m)))"
        using extract_ok [of ev ne ?ap updateBinaryName ?ex st1 st2] 2 None by blast
      have "length b \<le> maxArchiveBytes"
        using download_ok [of ev ne url ?ap st st1] 1 e1 x(1) by (auto simp: readFile_def nodeAt_def split: if_splits)
      then have "verifiedBinary ne sums ?name (limitReader m)"
        using v x(1-4) unfolding verifiedBinary_def verifyChecksum_def
        by (auto simp: Let_def limitReader_idem split: if_splits intro!: exI [of _ b])
      moreover have "nodeAt bin st3 = nodeAt bin st \<or> nodeAt bin st3 = Some (FileN 493 (Bytes (limitReader m)))"
        using replaceBinary_node [OF 3 fresh(4,5) assms(3) x(5)] n2 by simp
      moreover have "nodeAt bin st' = nodeAt bin st3"
        using run None installs_cmd [OF assms(3)] by (cases e3) simp_all
      ultimately show ?thesis using s by metis
    qed
  qed
qed

text \<open>
  C18. A self-update that changes the driver's binary has put there what the first member of that
  name in the release's archive holds, and the archive's SHA-256 is the one the release's
  checksum file lists for it. On every other outcome the binary is the old one.
\<close>

theorem selfUpdate_verified:
  assumes "selfUpdate ev ne bin v st = (r, st')" and "freshNames ne bin v" and "installs ev bin"
  shows "nodeAt bin st' = nodeAt bin st
    \<or> (\<exists>st1 sums d. httpGetBytes ne (sumsURL v) st1 = Inr sums \<and> verifiedBinary ne sums (releaseArchiveName v) d
         \<and> nodeAt bin st' = Some (FileN 493 (Bytes d)))"
proof -
  let ?tmp = "neTempDir ne ''oshl-ac-update-''"
  have u: "\<not> underPath ?tmp bin" using assms(2) by (simp add: freshNames_def Let_def)
  have rm: "nodeAt bin (osRemoveAll ev ?tmp x) = nodeAt bin x" for x
  proof -
    have "map_of (filter (\<lambda>(p, n). \<not> (underPath ?tmp p \<and> heIo ev IoRemoveAll p)) fs) bin = map_of fs bin" for fs
      by (induction fs) (use u in auto)
    then show ?thesis by (simp add: nodeAt_def osRemoveAll_def)
  qed
  define st0 where "st0 = st\<lparr>hoFs := AList.update ?tmp (DirN mode700) (hoFs st)\<rparr>"
  have st0: "nodeAt bin st0 = nodeAt bin st" using u by (auto simp: nodeAt_def st0_def underPath_def)
  show ?thesis
  proof (cases "heIo ev IoTemp ''oshl-ac-update-''")
    case False
    then show ?thesis using assms(1) by (simp add: selfUpdate_def Let_def)
  next
    case True
    obtain e st1 where f: "fetchRelease ev ne ?tmp bin v st0 = (e, st1)" by fastforce
    then have "st' = osRemoveAll ev ?tmp st1" using assms(1) True by (simp add: selfUpdate_def Let_def st0_def)
    then have "nodeAt bin st' = nodeAt bin st1" by (simp only: rm)
    then show ?thesis using fetchRelease_verified [OF f assms(2,3)] st0 by metis
  qed
qed

text \<open>A binary that Homebrew manages is never replaced by the driver itself: no file changes, and brew does the upgrade.\<close>

theorem cask_left_to_brew:
  assumes "HomebrewCask self = Some cask" and "keepsFile ev p"
  shows "nodeAt p (snd (updateDriver ev ne exe current self opts st)) = nodeAt p st
    \<and> hoTrace (snd (updateDriver ev ne exe current self opts st)) =
        hoTrace st @ (if upVersion opts = [] then [(''brew'', [''upgrade'', ''--cask'', cask])] else [])"
  using assms(1) nodeAt_runCmd [OF assms(2)] by (simp add: updateDriver_def trace_runCmd)

subsection \<open>An update\<close>

definition demoNet :: "'w netenv" where
  "demoNet = \<lparr>neGet = (\<lambda>url _. Some (200, if url = sumsURL ''v1'' then ''ab  '' @ releaseArchiveName ''v1'' else ''Z'', True)),
     neSha256 = (\<lambda>_. ''ab''), neArchive = (\<lambda>_. Some [TarMember True updateBinaryName ''new'' True]),
     neTempDir = (\<lambda>p. ''/tmp/'' @ p), neTempFile = (\<lambda>d. d @ ''/.oshl'')\<rparr>"

definition demoOld :: "Fake Host" where
  "demoOld = \<lparr>hoFs = [(''/b/d'', FileN 493 (Bytes ''old''))], hoWorld = emptyFake, hoClock = 0, hoTrace = []\<rparr>"

lemma demo_installs: "installs demoHostEnv ''/b/d''"
  by (auto simp: installs_def demoHostEnv_def demoExec_def)

lemma demo_fresh_names: "freshNames demoNet ''/b/d'' ''v1''"
  by code_simp

lemma demo_sum: "wantedSum (''ab  '' @ releaseArchiveName ''v1'') (releaseArchiveName ''v1'') = ''ab''"
  by code_simp

lemma limitReader_short: "length b \<le> 1000 \<Longrightarrow> limitReader b = b"
  by (rule limitReader_idem) (simp add: maxArchiveBytes_def)


definition releaseURL :: "string \<Rightarrow> string" where
  "releaseURL v = ''https://github.com/'' @ updateRepo @ ''/releases/download/'' @ v"

lemma fetchRelease_steps:
  assumes "downloadTo ev ne (releaseURL v @ ''/'' @ releaseArchiveName v) (pathJoin [tmp, releaseArchiveName v]) st = (None, st1)"
    and "httpGetBytes ne (releaseURL v @ ''/checksums.txt'') st1 = Inr sums"
    and "verifyChecksum ev ne (pathJoin [tmp, releaseArchiveName v]) sums (releaseArchiveName v) st1 = None"
    and "extractBinaryFromTarGz ev ne (pathJoin [tmp, releaseArchiveName v]) updateBinaryName (pathJoin [tmp, updateBinaryName]) st1
      = (None, st2)"
    and "replaceBinary ev ne bin (pathJoin [tmp, updateBinaryName]) st2 = (None, st3)"
  shows "fetchRelease ev ne tmp bin v st = (None, snd (runCmd ev ''xattr'' [''-d'', ''com.apple.quarantine'', bin] st3))"
  by (simp only: fetchRelease_def releaseURL_def [symmetric] Let_def assms prod.case option.case sum.case)

lemma demo_update_paths:
  "pathJoin [''/tmp/oshl-ac-update-'', releaseArchiveName ''v1''] = ''/tmp/oshl-ac-update-/openshell-driver-applecontainer_1_darwin_arm64.tar.gz''"
  "pathJoin [''/tmp/oshl-ac-update-'', updateBinaryName] = ''/tmp/oshl-ac-update-/openshell-driver-applecontainer''"
  "pathDir ''/b/d'' = ''/b''"
  "pathBase updateBinaryName = updateBinaryName"
  "releaseURL ''v1'' @ ''/'' @ releaseArchiveName ''v1'' \<noteq> sumsURL ''v1''"
  "releaseURL ''v1'' @ ''/checksums.txt'' = sumsURL ''v1''"
  by code_simp+

lemma demo_get:
  "httpGet demoNet url st = Inr (if url = sumsURL ''v1'' then ''ab  '' @ releaseArchiveName ''v1'' else ''Z'', True)"
  by (simp add: httpGet_def demoNet_def)

lemma demo_sums: "httpGetBytes demoNet (sumsURL ''v1'') st = Inr (''ab  '' @ releaseArchiveName ''v1'')"
proof -
  have "length (''ab  '' @ releaseArchiveName ''v1'') \<le> 1000" by (simp add: releaseArchiveName_def TrimPrefix_def updateBinaryName_def)
  then show ?thesis by (simp add: httpGetBytes_def demo_get readBody_def limitReader_short del: append.simps)
qed

lemma demo_download:
  "url \<noteq> sumsURL ''v1'' \<Longrightarrow> map_of (hoFs st) dest = None \<Longrightarrow>
     downloadTo demoHostEnv demoNet url dest st = (None, st\<lparr>hoFs := AList.update dest (FileN 420 (Bytes ''Z'')) (hoFs st)\<rparr>)"
  by (simp add: downloadTo_def demo_get readBody_def limitReader_short openTrunc_def isDirNode_def demo_cleanup_env update_Some_unfold)

lemma demo_extract:
  "nodeAt ap st = Some (FileN 420 (Bytes ''Z'')) \<Longrightarrow> map_of (hoFs st) dest = None \<Longrightarrow>
     extractBinaryFromTarGz demoHostEnv demoNet ap updateBinaryName dest st
       = (None, st\<lparr>hoFs := AList.update dest (FileN 493 (Bytes ''new'')) (hoFs st)\<rparr>)"
  by (simp add: extractBinaryFromTarGz_def readFile_def nodeAt_def demo_update_paths readBody_def limitReader_short
      openTrunc_def isDirNode_def demo_cleanup_env demoNet_def)

lemma demo_verify:
  "nodeAt ap st = Some (FileN 420 (Bytes ''Z'')) \<Longrightarrow>
     verifyChecksum demoHostEnv demoNet ap (''ab  '' @ releaseArchiveName ''v1'') (releaseArchiveName ''v1'') st = None"
  unfolding verifyChecksum_def demo_sum
  by (simp add: Let_def readFile_def nodeAt_def demo_cleanup_env limitReader_short demoNet_def)

lemma demo_replace:
  assumes "nodeAt ex st = Some (FileN 493 (Bytes ''new''))" and "nodeAt ''/b/d'' st = Some (FileN 493 (Bytes ''old''))"
  shows "\<exists>st'. replaceBinary demoHostEnv demoNet ''/b/d'' ex st = (None, st') \<and> nodeAt ''/b/d'' st' = Some (FileN 493 (Bytes ''new''))"
proof -
  have "neTempFile demoNet (pathDir ''/b/d'') = ''/b/.oshl''" by (simp add: demoNet_def demo_update_paths)
  then show ?thesis using assms
    by (simp add: replaceBinary_def replaceTrace_def copyTrace_def readFile_def demo_cleanup_env nodeAt_def isDirNode_def
        Let_def fsRun_def)
qed

lemma demo_update:
  "\<exists>st'. selfUpdate demoHostEnv demoNet ''/b/d'' ''v1'' demoOld = (None, st') \<and> nodeAt ''/b/d'' st' = Some (FileN 493 (Bytes ''new''))"
proof -
  let ?tmp = "''/tmp/oshl-ac-update-''"
  let ?ap = "''/tmp/oshl-ac-update-/openshell-driver-applecontainer_1_darwin_arm64.tar.gz''"
  let ?ex = "''/tmp/oshl-ac-update-/openshell-driver-applecontainer''"
  have t: "neTempDir demoNet ''oshl-ac-update-'' = ?tmp" by (simp add: demoNet_def)
  define st0 where "st0 = demoOld\<lparr>hoFs := AList.update ?tmp (DirN mode700) (hoFs demoOld)\<rparr>"
  define st1 where "st1 = st0\<lparr>hoFs := AList.update ?ap (FileN 420 (Bytes ''Z'')) (hoFs st0)\<rparr>"
  define st2 where "st2 = st1\<lparr>hoFs := AList.update ?ex (FileN 493 (Bytes ''new'')) (hoFs st1)\<rparr>"
  have n: "map_of (hoFs st0) ?ap = None" "map_of (hoFs st1) ?ex = None" "nodeAt ?ap st1 = Some (FileN 420 (Bytes ''Z''))"
    "nodeAt ?ex st2 = Some (FileN 493 (Bytes ''new''))" "nodeAt ''/b/d'' st2 = Some (FileN 493 (Bytes ''old''))"
    by (simp_all add: st0_def st1_def st2_def nodeAt_def demoOld_def)
  obtain st3 where 3: "replaceBinary demoHostEnv demoNet ''/b/d'' ?ex st2 = (None, st3)"
    "nodeAt ''/b/d'' st3 = Some (FileN 493 (Bytes ''new''))" using demo_replace [OF n(4,5)] by blast
  define st4 where "st4 = snd (runCmd demoHostEnv ''xattr'' [''-d'', ''com.apple.quarantine'', ''/b/d''] st3)"
  have f: "fetchRelease demoHostEnv demoNet ?tmp ''/b/d'' ''v1'' st0 = (None, st4)"
    unfolding st4_def
  proof (rule fetchRelease_steps)
    show "downloadTo demoHostEnv demoNet
        (releaseURL ''v1'' @ ''/'' @ releaseArchiveName ''v1'') (pathJoin [?tmp, releaseArchiveName ''v1'']) st0 = (None, st1)"
      unfolding demo_update_paths st1_def by (rule demo_download [OF demo_update_paths(5) n(1)])
    show "httpGetBytes demoNet (releaseURL ''v1'' @ ''/checksums.txt'') st1 = Inr (''ab  '' @ releaseArchiveName ''v1'')"
      unfolding demo_update_paths(6) by (rule demo_sums)
    show "verifyChecksum demoHostEnv demoNet (pathJoin [?tmp, releaseArchiveName ''v1'']) (''ab  '' @ releaseArchiveName ''v1'')
        (releaseArchiveName ''v1'') st1 = None"
      unfolding demo_update_paths by (rule demo_verify [OF n(3)])
    show "extractBinaryFromTarGz demoHostEnv demoNet (pathJoin [?tmp, releaseArchiveName ''v1'']) updateBinaryName
        (pathJoin [?tmp, updateBinaryName]) st1 = (None, st2)"
      unfolding demo_update_paths st2_def by (rule demo_extract [OF n(3,2)])
    show "replaceBinary demoHostEnv demoNet ''/b/d'' (pathJoin [?tmp, updateBinaryName]) st2 = (None, st3)"
      unfolding demo_update_paths by (rule 3(1))
  qed
  have run: "selfUpdate demoHostEnv demoNet ''/b/d'' ''v1'' demoOld = (None, osRemoveAll demoHostEnv ?tmp st4)"
    unfolding selfUpdate_def Let_def t st0_def [symmetric] f by (simp add: demo_cleanup_env)
  have kept: "nodeAt ''/b/d'' (osRemoveAll demoHostEnv ?tmp st4) = nodeAt ''/b/d'' st4"
  proof -
    have "map_of (filter (\<lambda>(p, n). \<not> (underPath ?tmp p \<and> heIo demoHostEnv IoRemoveAll p)) fs) ''/b/d'' = map_of fs ''/b/d''" for fs
      by (induction fs) (auto simp: underPath_def HasPrefix_def)
    then show ?thesis by (simp add: nodeAt_def osRemoveAll_def)
  qed
  have "nodeAt ''/b/d'' st4 = nodeAt ''/b/d'' st3"
    unfolding st4_def by (rule installs_cmd [OF demo_installs]) simp
  with kept have "nodeAt ''/b/d'' (osRemoveAll demoHostEnv ?tmp st4) = Some (FileN 493 (Bytes ''new''))" by (simp only: 3(2))
  with run show ?thesis by (intro exI conjI)
qed

theorem selfUpdate_verified_witness:
  "\<exists>st' d sums. selfUpdate demoHostEnv demoNet ''/b/d'' ''v1'' demoOld = (None, st')
     \<and> verifiedBinary (demoNet :: Fake netenv) sums (releaseArchiveName ''v1'') d \<and> nodeAt ''/b/d'' st' = Some (FileN 493 (Bytes d))"
proof -
  obtain st' where r: "selfUpdate demoHostEnv demoNet ''/b/d'' ''v1'' demoOld = (None, st')"
    "nodeAt ''/b/d'' st' = Some (FileN 493 (Bytes ''new''))" using demo_update by blast
  moreover have "nodeAt ''/b/d'' demoOld = Some (FileN 493 (Bytes ''old''))" by (simp add: nodeAt_def demoOld_def)
  ultimately show ?thesis using selfUpdate_verified [OF r(1) demo_fresh_names demo_installs] by auto
qed


end
