(* ===== verification/Provision.thy ===== *)
theory Provision
  imports Server
begin

section \<open>Provisioning and deletion (\<open>create.go\<close>)\<close>

text \<open>
  The boot pipeline of one sandbox, cut at its blocking calls, its composition, and the
  delete path. Each phase takes the task's context as a flag; \<open>provisionInner\<close> reads it
  from the state before every phase.
\<close>

subsection \<open>Images\<close>

definition refWithDigest :: "string \<Rightarrow> string \<Rightarrow> string" where
  "refWithDigest ref digest =
     (if Contains ref ''@'' then ref
      else (let name = (case LastIndex ref (CHR '':'') of
                          None \<Rightarrow> ref
                        | Some i \<Rightarrow>
                            (case LastIndex ref (CHR ''/'') of
                               None \<Rightarrow> take i ref
                             | Some j \<Rightarrow> (if j < i then take i ref else ref)))
            in name @ ''@'' @ digest))"

definition provFindImage ::
  "'w Deps \<Rightarrow> bool \<Rightarrow> string \<Rightarrow> 'w Server \<Rightarrow> (err + Image option) \<times> 'w Server" where
  "provFindImage d ctx ref s =
     (case rtCall (rtImageList (dpRt d) ctx) s of
        (Inl e, s1) \<Rightarrow> (Inl (Wrap ''list images: %w'' [] e), s1)
      | (Inr imgs, s1) \<Rightarrow> (Inr (find (\<lambda>im. imReference im = ref) imgs), s1))"

text \<open>Local first, pull only when absent.\<close>

definition provImage ::
  "'w Deps \<Rightarrow> Oracle \<Rightarrow> bool \<Rightarrow> Record \<Rightarrow> 'w Server \<Rightarrow> (err + Image) \<times> 'w Server" where
  "provImage d orc ctx rc s =
     (case provFindImage d ctx (rImageRef rc) s of
        (Inl e, s1) \<Rightarrow> (Inl e, s1)
      | (Inr (Some im), s1) \<Rightarrow> (Inr im, s1)
      | (Inr None, s1) \<Rightarrow>
          (let s2 = publishPlatformEvent (orNow orc) (rID rc) ''Normal'' ''Pulling''
                      (Msg (''Pulling image '' @ rImageRef rc)) s1
           in case rtCall (rtImagePull (dpRt d) ctx (rImageRef rc) ''linux/arm64'') s2 of
                (Some e, s3) \<Rightarrow> (Inl (Wrap ''pull image %s: %w'' [rImageRef rc] e), s3)
              | (None, s3) \<Rightarrow>
                  (let s4 = publishPlatformEvent (orNow orc) (rID rc) ''Normal'' ''Pulled''
                              (Msg (''Pulled image '' @ rImageRef rc)) s3
                   in case provFindImage d ctx (rImageRef rc) s4 of
                        (Inl e, s5) \<Rightarrow> (Inl e, s5)
                      | (Inr (Some im), s5) \<Rightarrow> (Inr im, s5)
                      | (Inr None, s5) \<Rightarrow>
                          (Inl (errorf ''image %s not present after pull'' [rImageRef rc]), s5))))"

text \<open>The digest observed is recorded on the entry and on disk before anything boots.\<close>

definition provPin ::
  "'w Deps \<Rightarrow> Oracle \<Rightarrow> nat \<Rightarrow> Record \<Rightarrow> Image \<Rightarrow> 'w Server \<Rightarrow> (err + Record \<times> string) \<times> 'w Server" where
  "provPin d orc r rc im s =
     (if imDigest im = [] then (Inr (rc, rImageRef rc), s)
      else (let s1 = setE r (\<lambda>e. e\<lparr>enRec := (enRec e)\<lparr>rImageDigest := imDigest im\<rparr>\<rparr>) s;
                rc1 = enRec (getE s1 r)
            in case saveRecord d orc rc1 s1 of
                 (Some e, s2) \<Rightarrow> (Inl (Wrap ''persist pinned digest: %w'' [] e), s2)
               | (None, s2) \<Rightarrow> (Inr (rc1, refWithDigest (rImageRef rc) (imDigest im)), s2)))"

subsection \<open>Seed material\<close>

definition ensureCall ::
  "'w Deps \<Rightarrow> Oracle \<Rightarrow> bool \<Rightarrow> string \<Rightarrow> 'w Server \<Rightarrow> (err + string) \<times> 'w Server" where
  "ensureCall d orc ctx img s =
     (let (r, w, fs) = Ensure (dpRt d) (orHost orc) (theExtractor d) (Suc (svExtractSeq s)) ctx img
                         (svWorld s, svDisk s)
      in (r, s\<lparr>svWorld := w, svDisk := fs, svExtractSeq := Suc (svExtractSeq s)\<rparr>))"

text \<open>The release-matched supervisor, or the pinned one when the operator chose none.\<close>

definition provSupervisor ::
  "'w Deps \<Rightarrow> Oracle \<Rightarrow> bool \<Rightarrow> 'w Server \<Rightarrow> (err + string) \<times> 'w Server" where
  "provSupervisor d orc ctx s =
     (case ensureCall d orc ctx (cfgSupervisorImage (dpCfg d)) s of
        (Inr p, s1) \<Rightarrow> (Inr p, s1)
      | (Inl e, s1) \<Rightarrow>
          (if \<not> cfgSupervisorImageExplicit (dpCfg d)
              \<and> PinnedSupervisorImage \<noteq> cfgSupervisorImage (dpCfg d)
           then ensureCall d orc ctx PinnedSupervisorImage s1
           else (Inl e, s1)))"

definition statOK :: "'w Server \<Rightarrow> string \<Rightarrow> bool" where
  "statOK s p \<longleftrightarrow> map_of (svDisk s) p \<noteq> None"

definition seedDirOf :: "'w Deps \<Rightarrow> string \<Rightarrow> string" where
  "seedDirOf d i = pathJoin [SandboxDir (dpRoot d) i, ''seed'']"

definition materialsOf :: "Config \<Rightarrow> string \<Rightarrow> string \<Rightarrow> Materials" where
  "materialsOf cfg supPath token =
     \<lparr>mSupervisorPath = supPath, mCAPath = cfgGuestTLSCA cfg, mCertPath = cfgGuestTLSCert cfg,
      mKeyPath = cfgGuestTLSKey cfg, mToken = token, mPolicyOverlayPath = cfgNetworkPolicyFile cfg\<rparr>"

definition provSeed ::
  "'w Deps \<Rightarrow> Oracle \<Rightarrow> string \<Rightarrow> string \<Rightarrow> string \<Rightarrow> 'w Server \<Rightarrow> err option \<times> 'w Server" where
  "provSeed d orc i supPath token s =
     (if cfgNetworkPolicyFile (dpCfg d) \<noteq> [] \<and> \<not> statOK s (cfgNetworkPolicyFile (dpCfg d))
      then (Some (errorf ''network policy file %q is not usable: %w'' [cfgNetworkPolicyFile (dpCfg d)]), s)
      else (let (e, fs) = SeedWrite (orHost orc) (seedDirOf d i) (materialsOf (dpCfg d) supPath token) (svDisk s)
            in (e, s\<lparr>svDisk := fs\<rparr>)))"

subsection \<open>The run specification\<close>

fun firstQuantity :: "(string \<Rightarrow> err + int) \<Rightarrow> string list \<Rightarrow> err + int" where
  "firstQuantity p [] = Inr 0"
| "firstQuantity p (q # qs) =
     (case p q of Inl e \<Rightarrow> Inl e | Inr v \<Rightarrow> (if v > 0 then Inr v else firstQuantity p qs))"

definition sandboxLabels :: "Record \<Rightarrow> strmap \<Rightarrow> strmap" where
  "sandboxLabels rc tpl =
     mergeEnv (mergeEnv [] tpl)
       [(labelManagedBy, managedByValue), (labelSandboxID, rID rc), (labelName, rName rc),
        (labelNamespace, rNamespace rc), (labelWorkspace, rWorkspace rc)]"

definition mountVolumes :: "mountConfig list \<Rightarrow> VolumeMount list" where
  "mountVolumes ms =
     map (\<lambda>m. \<lparr>HostPath = mcSource m, GuestPath = mcTarget m, vmReadOnly = readOnly m\<rparr>)
       (filter (\<lambda>m. mcType m = ''volume'') ms)"

definition mountTmpfs :: "mountConfig list \<Rightarrow> string list" where
  "mountTmpfs ms = map mcTarget (filter (\<lambda>m. mcType m = ''tmpfs'') ms)"

definition guestCaps :: "string list" where
  "guestCaps = [''CAP_SYS_ADMIN'', ''CAP_NET_ADMIN'', ''CAP_SYS_PTRACE'', ''CAP_SYSLOG'']"

definition provSpec ::
  "'w Deps \<Rightarrow> Record \<Rightarrow> string \<Rightarrow> string \<Rightarrow> DriverSandbox option \<Rightarrow> driverConfig \<Rightarrow> bool
     \<Rightarrow> 'w Server \<Rightarrow> err + RunSpec" where
  "provSpec d rc runImage user sb dcfg hasToken s =
     (let cfg = dpCfg d; res = GetResources (GetTemplate (GetSpec sb))
      in case sandboxEnv cfg sb hasToken of
           Inl e \<Rightarrow> Inl (Wrap ''build environment: %w'' [] e)
         | Inr env \<Rightarrow>
             (case firstQuantity (ParseCPUQuantity (dpConv d)) [GetCpuLimit res, GetCpuRequest res] of
                Inl e \<Rightarrow> Inl e
              | Inr cpus \<Rightarrow>
                  (case firstQuantity (ParseMemoryQuantityMB (dpConv d))
                          [GetMemoryLimit res, GetMemoryRequest res] of
                     Inl e \<Rightarrow> Inl e
                   | Inr mem \<Rightarrow>
                       (let kernel = (if dcKernel dcfg \<noteq> [] then dcKernel dcfg else cfgKernel cfg)
                        in if kernel \<noteq> [] \<and> \<not> statOK s kernel
                           then Inl (errorf ''kernel %q is not usable: %w'' [kernel])
                           else Inr
                             \<lparr>rsName = rContainerName rc, rsImage = runImage,
                              rsNetwork = (if dcNetwork dcfg \<noteq> [] then dcNetwork dcfg else cfgNetwork cfg),
                              rsVolumes = \<lparr>HostPath = seedDirOf d (rID rc), GuestPath = GuestSeedDir,
                                           vmReadOnly = True\<rparr> # mountVolumes (dcMounts dcfg),
                              rsTmpfs = mountTmpfs (dcMounts dcfg),
                              rsEnv = AList.update ''OPENSHELL_OCI_IMAGE_USER'' user env,
                              rsLabels = sandboxLabels rc (GetLabels (GetTemplate (GetSpec sb))),
                              rsCPUs = (if cpus = 0 then cfgCPUs cfg else cpus),
                              rsMemoryMB = (if mem = 0 then cfgMemoryMB cfg else mem),
                              rsEntrypoint = GuestSeedDir @ ''/boot.sh'', rsArgs = [],
                              rsKernel = kernel, rsUID = Some 0, rsGID = Some 0,
                              rsCapAdd = guestCaps\<rparr>))))"

subsection \<open>Booting\<close>

definition provClear ::
  "'w Deps \<Rightarrow> bool \<Rightarrow> string \<Rightarrow> 'w Server \<Rightarrow> err option \<times> 'w Server" where
  "provClear d ctx name s =
     (case rtCall (rtDelete (dpRt d) ctx name) s of
        (Some e, s1) \<Rightarrow>
          (if isNotFoundErr e then (None, s1)
           else (Some (Wrap ''clear stale container: %w'' [] e), s1))
      | (None, s1) \<Rightarrow> (None, s1))"

definition provBoot :: "'w Deps \<Rightarrow> bool \<Rightarrow> RunSpec \<Rightarrow> 'w Server \<Rightarrow> err option \<times> 'w Server" where
  "provBoot d ctx spec s =
     (if ctx then (Some (Err KCanceled ''context canceled'' []), s)
      else (case rtCall (rtRun (dpRt d) ctx spec) s of
              (Inl e, s1) \<Rightarrow> (Some (Wrap ''boot sandbox VM: %w'' [] e), s1)
            | (Inr _, s1) \<Rightarrow> (None, s1)))"

definition provisionInner ::
  "'w Deps \<Rightarrow> Oracle \<Rightarrow> nat \<Rightarrow> DriverSandbox option \<Rightarrow> string \<Rightarrow> 'w Server \<Rightarrow> err option \<times> 'w Server" where
  "provisionInner d orc r sb token s =
     (let rc = enRec (getE s r)
      in case parseDriverConfig (GetDriverConfig (GetTemplate (GetSpec sb))) of
           Inl e \<Rightarrow> (Some e, s)
         | Inr dcfg \<Rightarrow>
             (case provImage d orc (taskCtx s r) rc s of
                (Inl e, s1) \<Rightarrow> (Some e, s1)
              | (Inr im, s1) \<Rightarrow>
                  (case provPin d orc r rc im s1 of
                     (Inl e, s2) \<Rightarrow> (Some e, s2)
                   | (Inr (rc1, runImage), s2) \<Rightarrow>
                       (case provSupervisor d orc (taskCtx s2 r) s2 of
                          (Inl e, s3) \<Rightarrow> (Some e, s3)
                        | (Inr supPath, s3) \<Rightarrow>
                            (case provSeed d orc (rID rc1) supPath token s3 of
                               (Some e, s4) \<Rightarrow> (Some e, s4)
                             | (None, s4) \<Rightarrow>
                                 (case provSpec d rc1 runImage (imUser im) sb dcfg (token \<noteq> []) s4 of
                                    Inl e \<Rightarrow> (Some e, s4)
                                  | Inr spec \<Rightarrow>
                                      (case provClear d (taskCtx s4 r) (rContainerName rc1) s4 of
                                         (Some e, s5) \<Rightarrow> (Some e, s5)
                                       | (None, s5) \<Rightarrow> provBoot d (taskCtx s5 r) spec s5)))))))"

text \<open>Outcome to conditions and events; a cancelled task leaves the cleanup to the delete.\<close>

definition provisionFinish ::
  "'w Deps \<Rightarrow> Oracle \<Rightarrow> nat \<Rightarrow> err option \<Rightarrow> 'w Server \<Rightarrow> 'w Server" where
  "provisionFinish d orc r res s =
     (case res of
        None \<Rightarrow>
          (let s1 = publishSandbox d r (setCondition r (readyTrueCondition (orNow orc)) s)
           in publishPlatformEvent (orNow orc) (rID (enRec (getE s1 r))) ''Normal'' ''Started''
                (Msg ''Sandbox VM started'') s1)
      | Some e \<Rightarrow>
          (if isCanceledErr e \<or> taskCtx s r then s
           else (let s1 = publishSandbox d r (setCondition r (failedCondition (MErr e) (orNow orc)) s)
                 in publishPlatformEvent (orNow orc) (rID (enRec (getE s1 r))) ''Warning''
                      ''ProvisioningFailed'' (MErr e) s1)))"

definition closeDone :: "nat \<Rightarrow> 'w Server \<Rightarrow> 'w Server" where
  "closeDone r s = setE r (enDone_update (\<lambda>_. ClosedChan)) s"

definition provision ::
  "'w Deps \<Rightarrow> Oracle \<Rightarrow> nat \<Rightarrow> DriverSandbox option \<Rightarrow> string \<Rightarrow> 'w Server \<Rightarrow> 'w Server" where
  "provision d orc r sb token s =
     (let (res, s1) = provisionInner d orc r sb token s in closeDone r (provisionFinish d orc r res s1))"

subsection \<open>Delete\<close>

text \<open>The locked section: the reference, the identifier and the container name to tear down.\<close>

definition deleteBegin ::
  "Oracle \<Rightarrow> string \<Rightarrow> string \<Rightarrow> 'w Server \<Rightarrow> (nat \<times> string \<times> string) option \<times> 'w Server" where
  "deleteBegin orc i name s =
     (case lookupLocked i name s of
        None \<Rightarrow> (None, s)
      | Some r \<Rightarrow>
          (Some (r, rID (enRec (getE s r)), rContainerName (enRec (getE s r))),
           setE r (\<lambda>e. e\<lparr>enDeleting := True, enCond := deletingCondition (orNow orc)\<rparr>) s))"

text \<open>
  The teardown runs under its own context; \<open>expired\<close> tells whether its 30 seconds are over
  when the call is made. Nothing known: clear a container by its conventional name.
\<close>

definition deleteUnknown ::
  "'w Deps \<Rightarrow> Oracle \<Rightarrow> bool \<Rightarrow> string \<Rightarrow> 'w Server \<Rightarrow> (status + bool) \<times> 'w Server" where
  "deleteUnknown d orc expired i s =
     (if ValidID i then
        (case rtCall (rtDelete (dpRt d) expired (containerName i)) s of
           (None, s1) \<Rightarrow> (Inr True, snd (deleteRecord d orc i s1))
         | (Some e, s1) \<Rightarrow>
             (if isNotFoundErr e then (Inr False, snd (deleteRecord d orc i s1))
              else (Inl (Internal, Wrap ''delete container: %v'' [] e), s1)))
      else (Inr False, s))"

definition cancelTask :: "nat \<Rightarrow> 'w Server \<Rightarrow> 'w Server" where
  "cancelTask r s =
     (if enDone (getE s r) = NoChan then s else setE r (enCanceled_update (\<lambda>_. True)) s)"

definition deleteVM ::
  "'w Deps \<Rightarrow> bool \<Rightarrow> string \<Rightarrow> 'w Server \<Rightarrow> (status + bool) \<times> 'w Server" where
  "deleteVM d expired name s =
     (case rtCall (rtDelete (dpRt d) expired name) s of
        (None, s1) \<Rightarrow> (Inr True, s1)
      | (Some e, s1) \<Rightarrow>
          (if isNotFoundErr e then (Inr False, s1)
           else (Inl (Internal, Wrap ''delete container: %v'' [] e), s1)))"

definition deleteForget :: "string \<Rightarrow> 'w Server \<Rightarrow> 'w Server" where
  "deleteForget i s = publishDeleted i (s\<lparr>svSandboxes := AList.delete i (svSandboxes s)\<rparr>)"

text \<open>After the wait for provisioning: container, record, registry.\<close>

definition deleteTeardown ::
  "'w Deps \<Rightarrow> Oracle \<Rightarrow> bool \<Rightarrow> string \<Rightarrow> string \<Rightarrow> 'w Server \<Rightarrow> (status + bool) \<times> 'w Server" where
  "deleteTeardown d orc expired i name s =
     (case deleteVM d expired name s of
        (Inl st, s1) \<Rightarrow> (Inl st, s1)
      | (Inr deleted, s1) \<Rightarrow>
          (case deleteRecord d orc i s1 of
             (Some e, s2) \<Rightarrow> (Inl (Internal, Wrap ''delete record: %v'' [] e), s2)
           | (None, s2) \<Rightarrow> (Inr deleted, deleteForget i s2)))"

text \<open>
  \<open>DeleteSandbox\<close> with no other handler running while it waits. When the provisioning task is
  still open after the cancellation the wait ends by the timeout, and the teardown context
  has expired.
\<close>

definition DeleteSandbox ::
  "'w Deps \<Rightarrow> Oracle \<Rightarrow> string \<Rightarrow> string \<Rightarrow> 'w Server \<Rightarrow> (status + bool) \<times> 'w Server" where
  "DeleteSandbox d orc i name s =
     (case deleteBegin orc i name s of
        (None, s1) \<Rightarrow> deleteUnknown d orc False i s1
      | (Some (r, id', cname), s1) \<Rightarrow>
          (let s2 = cancelTask r (publishSandbox d r s1)
           in deleteTeardown d orc (enDone (getE s2 r) = OpenChan) id' cname s2))"

subsection \<open>What a provisioning task may touch\<close>

text \<open>
  Registry, other entries and other records are out of a task's reach; of its own entry it
  only changes the pinned digest before it finishes, and it never loses a record.
\<close>

definition taskFrame :: "'w Deps \<Rightarrow> nat \<Rightarrow> 'w Server \<Rightarrow> 'w Server \<Rightarrow> bool" where
  "taskFrame d r s s' \<longleftrightarrow>
     svSandboxes s' = svSandboxes s \<and> svClosed s' = svClosed s
     \<and> length (svHeap s') = length (svHeap s)
     \<and> (\<forall>r'. r' \<noteq> r \<longrightarrow> getE s' r' = getE s r')
     \<and> (\<exists>dg. getE s' r = (getE s r)\<lparr>enRec := (enRec (getE s r))\<lparr>rImageDigest := dg\<rparr>\<rparr>)
     \<and> (hubOk (svHub s) \<longrightarrow> hubOk (svHub s'))
     \<and> (\<forall>i. i \<noteq> rID (enRec (getE s r)) \<longrightarrow> recs d s' i = recs d s i)
     \<and> (\<forall>i. recs d s i \<noteq> None \<longrightarrow> recs d s' i \<noteq> None)"

lemma taskFrame_refl: "taskFrame d r s s"
  unfolding taskFrame_def by (auto intro!: exI [of _ "rImageDigest (enRec (getE s r))"])

lemma taskFrame_trans:
  assumes "taskFrame d r s s1" and "taskFrame d r s1 s2"
  shows "taskFrame d r s s2"
proof -
  obtain d1 d2 where
    "getE s1 r = (getE s r)\<lparr>enRec := (enRec (getE s r))\<lparr>rImageDigest := d1\<rparr>\<rparr>"
    "getE s2 r = (getE s1 r)\<lparr>enRec := (enRec (getE s1 r))\<lparr>rImageDigest := d2\<rparr>\<rparr>"
    using assms unfolding taskFrame_def by blast
  moreover from this have
    "getE s2 r = (getE s r)\<lparr>enRec := (enRec (getE s r))\<lparr>rImageDigest := d2\<rparr>\<rparr>"
    "rID (enRec (getE s1 r)) = rID (enRec (getE s r))"
    by simp_all
  ultimately show ?thesis using assms unfolding taskFrame_def by metis
qed

text \<open>
  Every phase but the pinning one leaves the registry, all entries and all records as they
  are; it may publish events and change the world and the other files.
\<close>

definition quiet :: "'w Deps \<Rightarrow> 'w Server \<Rightarrow> 'w Server \<Rightarrow> bool" where
  "quiet d s s' \<longleftrightarrow>
     svSandboxes s' = svSandboxes s \<and> svClosed s' = svClosed s \<and> svHeap s' = svHeap s
     \<and> recs d s' = recs d s \<and> (hubOk (svHub s) \<longrightarrow> hubOk (svHub s'))"

lemma quiet_refl: "quiet d s s"
  by (simp add: quiet_def)

lemma quiet_trans: "quiet d s s1 \<Longrightarrow> quiet d s1 s2 \<Longrightarrow> quiet d s s2"
  by (simp add: quiet_def)

lemma quiet_step: "quiet d s s1 \<Longrightarrow> quiet d s1 (snd p) \<Longrightarrow> p = (a, s2) \<Longrightarrow> quiet d s s2"
  using quiet_trans by fastforce

lemma quiet_own: "quiet d s s' \<Longrightarrow> getE s' r = getE s r \<and> taskCtx s' r = taskCtx s r"
  by (simp add: quiet_def getE_def taskCtx_def)

lemma taskFrame_quiet: "quiet d s s' \<Longrightarrow> taskFrame d r s s'"
  unfolding taskFrame_def quiet_def getE_def
  by (auto intro!: exI [of _ "rImageDigest (enRec (svHeap s ! r))"])

lemma quiet_publish: "quiet d s (publish ev s)"
  by (simp add: quiet_def frame_simps inv_intros)

lemma quiet_platform: "quiet d s (publishPlatformEvent t i ty re m s)"
  unfolding publishPlatformEvent_def by (rule quiet_publish)

lemma quiet_rtCall: "quiet d s (snd (rtCall f s))"
proof -
  obtain a s' where "rtCall f s = (a, s')" by fastforce
  from rtCall_frame [OF this] this show ?thesis by (simp add: quiet_def)
qed

lemma provFindImage_snd: "snd (provFindImage d ctx ref s) = snd (rtCall (rtImageList (dpRt d) ctx) s)"
  by (simp add: provFindImage_def split: prod.split sum.split)

lemma quiet_find: "quiet d s (snd (provFindImage d ctx ref s))"
  unfolding provFindImage_snd by (rule quiet_rtCall)

lemma quiet_image: "quiet d s (snd (provImage d orc ctx rc s))"
proof -
  obtain r1 s1 where 1: "provFindImage d ctx (rImageRef rc) s = (r1, s1)" by fastforce
  define s2 where "s2 = publishPlatformEvent (orNow orc) (rID rc) ''Normal'' ''Pulling''
                      (Msg (''Pulling image '' @ rImageRef rc)) s1"
  obtain r3 s3 where 3: "rtCall (rtImagePull (dpRt d) ctx (rImageRef rc) ''linux/arm64'') s2 = (r3, s3)"
    by fastforce
  define s4 where "s4 = publishPlatformEvent (orNow orc) (rID rc) ''Normal'' ''Pulled''
                      (Msg (''Pulled image '' @ rImageRef rc)) s3"
  obtain r5 s5 where 5: "provFindImage d ctx (rImageRef rc) s4 = (r5, s5)" by fastforce
  have f1: "quiet d s s1" by (rule quiet_step [OF quiet_refl quiet_find 1])
  have f2: "quiet d s s2" unfolding s2_def by (rule quiet_trans [OF f1 quiet_platform])
  have f3: "quiet d s s3" by (rule quiet_step [OF f2 quiet_rtCall 3])
  have f4: "quiet d s s4" unfolding s4_def by (rule quiet_trans [OF f3 quiet_platform])
  have f5: "quiet d s s5" by (rule quiet_step [OF f4 quiet_find 5])
  have "snd (provImage d orc ctx rc s) \<in> {s1, s3, s5}"
    by (unfold provImage_def Let_def 1 prod.case, fold s2_def, unfold 3 prod.case, fold s4_def,
        unfold 5 prod.case) (auto split: sum.split option.split)
  with f1 f3 f5 show ?thesis by auto
qed

lemma quiet_ensure: "quiet d s (snd (ensureCall d orc ctx img s))"
proof -
  obtain a w fs where e: "Ensure (dpRt d) (orHost orc) (theExtractor d) (Suc (svExtractSeq s)) ctx img
                         (svWorld s, svDisk s) = (a, w, fs)"
    by (cases "Ensure (dpRt d) (orHost orc) (theExtractor d) (Suc (svExtractSeq s)) ctx img
                         (svWorld s, svDisk s)") auto
  then have "recordsOf (dpRoot d) fs = recordsOf (dpRoot d) (svDisk s)"
    using Ensure_records by (metis snd_conv)
  then show ?thesis using e by (simp add: ensureCall_def quiet_def)
qed

lemma quiet_supervisor: "quiet d s (snd (provSupervisor d orc ctx s))"
proof -
  obtain a s1 where 1: "ensureCall d orc ctx (cfgSupervisorImage (dpCfg d)) s = (a, s1)" by fastforce
  have f: "quiet d s s1" by (rule quiet_step [OF quiet_refl quiet_ensure 1])
  have "snd (provSupervisor d orc ctx s) \<in> {s1, snd (ensureCall d orc ctx PinnedSupervisorImage s1)}"
    using 1 by (auto simp: provSupervisor_def split: sum.split)
  then show ?thesis using f quiet_trans [OF f quiet_ensure] by auto
qed

lemma quiet_seed: "quiet d s (snd (provSeed d orc i supPath token s))"
proof -
  obtain e fs where w: "SeedWrite (orHost orc) (seedDirOf d i) (materialsOf (dpCfg d) supPath token) (svDisk s)
      = (e, fs)" by fastforce
  then have "recordsOf (dpRoot d) fs = recordsOf (dpRoot d) (svDisk s)"
    using SeedWrite_records by (metis snd_conv)
  then show ?thesis using w by (simp add: provSeed_def quiet_def)
qed

lemma quiet_clear: "quiet d s (snd (provClear d ctx name s))"
proof -
  have "snd (provClear d ctx name s) = snd (rtCall (rtDelete (dpRt d) ctx name) s)"
    by (simp add: provClear_def split: prod.split option.split)
  then show ?thesis using quiet_rtCall by metis
qed

lemma quiet_boot: "quiet d s (snd (provBoot d ctx spec s))"
proof -
  have "snd (provBoot d ctx spec s) \<in> {s, snd (rtCall (rtRun (dpRt d) ctx spec) s)}"
    by (simp add: provBoot_def split: prod.split sum.split)
  then show ?thesis using quiet_rtCall quiet_refl by auto
qed

definition pinned :: "nat \<Rightarrow> string \<Rightarrow> 'w Server \<Rightarrow> 'w Server" where
  "pinned r digest s = setE r (\<lambda>e. e\<lparr>enRec := (enRec e)\<lparr>rImageDigest := digest\<rparr>\<rparr>) s"

lemma provPin_ok:
  assumes "provPin d orc r rc im s = (Inr (rc1, img), s')"
  shows "if imDigest im = [] then rc1 = rc \<and> img = rImageRef rc \<and> s' = s
    else img = refWithDigest (rImageRef rc) (imDigest im)
      \<and> rc1 = enRec (getE (pinned r (imDigest im) s) r)
      \<and> recs d s' = (recs d s)(rID rc1 \<mapsto> rc1) \<and> svWorld s' = svWorld s"
proof (cases "imDigest im = []")
  case True
  then show ?thesis using assms by (auto simp: provPin_def)
next
  case False
  let ?s1 = "pinned r (imDigest im) s"
  obtain e s2 where s2: "saveRecord d orc (enRec (getE ?s1 r)) ?s1 = (e, s2)" by fastforce
  have "e = None \<and> s' = s2 \<and> rc1 = enRec (getE ?s1 r) \<and> img = refWithDigest (rImageRef rc) (imDigest im)"
    using assms False s2 by (cases e) (simp_all add: provPin_def pinned_def [symmetric] Let_def)
  moreover have "svDisk ?s1 = svDisk s" "svWorld ?s1 = svWorld s" by (simp_all add: pinned_def frame_simps)
  ultimately show ?thesis using False s2 saveRecord_recs(1) saveRecord_frame by fastforce
qed

lemma taskFrame_pin:
  assumes r: "r < length (svHeap s)"
  shows "taskFrame d r s (snd (provPin d orc r rc im s))"
proof (cases "imDigest im = []")
  case True
  then show ?thesis by (simp add: provPin_def taskFrame_refl)
next
  case False
  define s1 where "s1 = setE r (\<lambda>e. e\<lparr>enRec := (enRec e)\<lparr>rImageDigest := imDigest im\<rparr>\<rparr>) s"
  obtain e s2 where s2: "saveRecord d orc (enRec (getE s1 r)) s1 = (e, s2)" by fastforce
  have snd: "snd (provPin d orc r rc im s) = s2"
    using False s2 by (simp add: provPin_def s1_def [symmetric] Let_def split: option.split)
  have own: "getE s1 r = (getE s r)\<lparr>enRec := (enRec (getE s r))\<lparr>rImageDigest := imDigest im\<rparr>\<rparr>"
    using r by (simp add: s1_def frame_simps)
  have others: "r' \<noteq> r \<Longrightarrow> getE s1 r' = getE s r'" for r' by (simp add: s1_def frame_simps)
  have disk: "svDisk s1 = svDisk s" by (simp add: s1_def frame_simps)
  have "recs d s2 i = recs d s i" if "i \<noteq> rID (enRec (getE s r))" for i
    using s2 own disk that
    by (cases e) (auto dest!: saveRecord_recs)
  moreover have "recs d s2 i \<noteq> None" if "recs d s i \<noteq> None" for i
    using s2 own disk that by (cases e) (auto dest!: saveRecord_recs)
  moreover note saveRecord_frame [OF s2]
  ultimately show ?thesis
    unfolding snd taskFrame_def using own others by (auto simp: s1_def getE_def frame_simps)
qed

subsection \<open>A task as a whole\<close>

text \<open>A finished chain of phases stays within the frame.\<close>

lemma taskFrame_own:
  assumes "taskFrame d r s s'"
  shows "length (svHeap s') = length (svHeap s)" "taskCtx s' r = taskCtx s r"
    "rID (enRec (getE s' r)) = rID (enRec (getE s r))" "enCond (getE s' r) = enCond (getE s r)"
  using assms by (auto simp: taskFrame_def taskCtx_def)

lemma taskFrame_step:
  "taskFrame d r s s1 \<Longrightarrow> taskFrame d r s1 (snd p) \<Longrightarrow> p = (a, s2) \<Longrightarrow> taskFrame d r s s2"
  using taskFrame_trans by fastforce

lemma taskFrame_inner:
  assumes r: "r < length (svHeap s)"
  shows "taskFrame d r s (snd (provisionInner d orc r sb token s))"
proof (cases "parseDriverConfig (GetDriverConfig (GetTemplate (GetSpec sb)))")
  case (Inl e)
  then show ?thesis by (simp add: provisionInner_def taskFrame_refl)
next
  case (Inr dcfg)
  note c = Inr
  let ?rc = "enRec (getE s r)"
  obtain a1 s1 where 1: "provImage d orc (taskCtx s r) ?rc s = (a1, s1)" by fastforce
  have f1: "taskFrame d r s s1" by (rule taskFrame_step [OF taskFrame_refl quiet_image [THEN taskFrame_quiet] 1])
  show ?thesis
  proof (cases a1)
    case (Inl e)
    then show ?thesis using c 1 f1 by (simp add: provisionInner_def)
  next
    case (Inr im)
    note a1 = Inr
    have l1: "r < length (svHeap s1)" using r taskFrame_own(1) [OF f1] by simp
    obtain a2 s2 where 2: "provPin d orc r ?rc im s1 = (a2, s2)" by fastforce
    have f2: "taskFrame d r s s2" by (rule taskFrame_step [OF f1 taskFrame_pin [OF l1] 2])
    show ?thesis
    proof (cases a2)
      case (Inl e)
      then show ?thesis using c 1 a1 2 f2 by (simp add: provisionInner_def)
    next
      case (Inr p)
      obtain rc1 img where p: "p = (rc1, img)" by (cases p)
      note a2 = Inr [unfolded p]
      obtain a3 s3 where 3: "provSupervisor d orc (taskCtx s2 r) s2 = (a3, s3)" by fastforce
      have f3: "taskFrame d r s s3" by (rule taskFrame_step [OF f2 quiet_supervisor [THEN taskFrame_quiet] 3])
      show ?thesis
      proof (cases a3)
        case (Inl e)
        then show ?thesis using c 1 a1 2 a2 3 f3 by (simp add: provisionInner_def)
      next
        case (Inr sup)
        obtain a4 s4 where 4: "provSeed d orc (rID rc1) sup token s3 = (a4, s4)" by fastforce
        have f4: "taskFrame d r s s4" by (rule taskFrame_step [OF f3 quiet_seed [THEN taskFrame_quiet] 4])
        obtain a5 s5 where 5: "provClear d (taskCtx s4 r) (rContainerName rc1) s4 = (a5, s5)" by fastforce
        have f5: "taskFrame d r s s5" by (rule taskFrame_step [OF f4 quiet_clear [THEN taskFrame_quiet] 5])
        have f6: "taskFrame d r s (snd (provBoot d (taskCtx s5 r) spec s5))" for spec
          by (rule taskFrame_trans [OF f5 quiet_boot [THEN taskFrame_quiet]])
        show ?thesis
          using c 1 a1 2 a2 3 Inr 4 5 f4 f5 f6
          by (auto simp: provisionInner_def split: option.split sum.split)
      qed
    qed
  qed
qed

text \<open>What a run that boots the VM went through, phase by phase.\<close>

lemma provisionInner_None:
  assumes "provisionInner d orc r sb token s = (None, s')" and r: "r < length (svHeap s)"
  obtains dcfg im s1 rc1 img s2 supPath s3 s4 spec s5 where
    "parseDriverConfig (GetDriverConfig (GetTemplate (GetSpec sb))) = Inr dcfg"
    "provImage d orc (taskCtx s r) (enRec (getE s r)) s = (Inr im, s1)"
    "provPin d orc r (enRec (getE s r)) im s1 = (Inr (rc1, img), s2)"
    "provSupervisor d orc (taskCtx s r) s2 = (Inr supPath, s3)"
    "provSeed d orc (rID rc1) supPath token s3 = (None, s4)"
    "provSpec d rc1 img (imUser im) sb dcfg (token \<noteq> []) s4 = Inr spec"
    "provClear d (taskCtx s r) (rContainerName rc1) s4 = (None, s5)"
    "provBoot d (taskCtx s r) spec s5 = (None, s')"
    "quiet d s s1" "quiet d s2 s'"
proof -
  obtain dcfg im s1 rc1 img s2 supPath s3 s4 spec s5 where
    e: "parseDriverConfig (GetDriverConfig (GetTemplate (GetSpec sb))) = Inr dcfg"
    "provImage d orc (taskCtx s r) (enRec (getE s r)) s = (Inr im, s1)"
    "provPin d orc r (enRec (getE s r)) im s1 = (Inr (rc1, img), s2)"
    "provSupervisor d orc (taskCtx s2 r) s2 = (Inr supPath, s3)"
    "provSeed d orc (rID rc1) supPath token s3 = (None, s4)"
    "provSpec d rc1 img (imUser im) sb dcfg (token \<noteq> []) s4 = Inr spec"
    "provClear d (taskCtx s4 r) (rContainerName rc1) s4 = (None, s5)"
    "provBoot d (taskCtx s5 r) spec s5 = (None, s')"
    using assms(1) unfolding provisionInner_def Let_def
    by (auto split: sum.splits prod.splits option.splits)
  have f1: "quiet d s s1" by (rule quiet_step [OF quiet_refl quiet_image e(2)])
  have f3: "quiet d s2 s3" by (rule quiet_step [OF quiet_refl quiet_supervisor e(4)])
  have f4: "quiet d s2 s4" by (rule quiet_step [OF f3 quiet_seed e(5)])
  have f5: "quiet d s2 s5" by (rule quiet_step [OF f4 quiet_clear e(7)])
  have f6: "quiet d s2 s'" by (rule quiet_step [OF f5 quiet_boot e(8)])
  have f1': "taskFrame d r s s1" by (rule taskFrame_quiet [OF f1])
  have "r < length (svHeap s1)" using r taskFrame_own(1) [OF f1'] by simp
  then have f2: "taskFrame d r s s2" using taskFrame_step [OF f1' taskFrame_pin e(3)] by blast
  have c: "taskCtx s2 r = taskCtx s r" "taskCtx s4 r = taskCtx s r" "taskCtx s5 r = taskCtx s r"
    using taskFrame_own(2) [OF f2] quiet_own [OF f4] quiet_own [OF f5] by simp_all
  show ?thesis using that [OF e(1-3) e(4) [unfolded c] e(5,6) e(7) [unfolded c] e(8) [unfolded c] f1 f6] .
qed

text \<open>A cancelled task never boots.\<close>

lemma provisionInner_cancelled:
  assumes "taskCtx s r" and "r < length (svHeap s)"
  shows "\<exists>e s'. provisionInner d orc r sb token s = (Some e, s')"
proof -
  obtain res s' where e: "provisionInner d orc r sb token s = (res, s')" by fastforce
  have "res \<noteq> None"
  proof
    assume "res = None"
    with e have n: "provisionInner d orc r sb token s = (None, s')" by simp
    show False by (rule provisionInner_None [OF n assms(2)]) (simp add: provBoot_def assms(1))
  qed
  then show ?thesis using e by auto
qed

text \<open>
  A provisioning task whose context is cancelled, by a delete or by the server's end,
  never reports: the sandbox keeps the condition it has (\<open>Deleting\<close>, when a delete
  cancelled it), the registry and every other entry are untouched, and the task's end is
  signalled.
\<close>

theorem provision_cancelled:
  assumes "taskCtx s r" and "r < length (svHeap s)"
  shows "enCond (getE (provision d orc r sb token s) r) = enCond (getE s r)
    \<and> enDone (getE (provision d orc r sb token s) r) = ClosedChan
    \<and> svSandboxes (provision d orc r sb token s) = svSandboxes s
    \<and> (\<forall>r'. r' \<noteq> r \<longrightarrow> getE (provision d orc r sb token s) r' = getE s r')"
proof -
  obtain e s' where i: "provisionInner d orc r sb token s = (Some e, s')"
    using provisionInner_cancelled [OF assms] by blast
  have f: "taskFrame d r s s'" using taskFrame_inner [OF assms(2), of d orc sb token] i by simp
  have "provision d orc r sb token s = closeDone r s'"
    using taskFrame_own(2) [OF f] assms(1) by (simp add: provision_def i provisionFinish_def)
  then show ?thesis
    using f taskFrame_own [OF f] assms(2) by (auto simp: closeDone_def frame_simps taskFrame_def)
qed

subsection \<open>What boots\<close>

lemma sandboxLabels_managed:
  "map_of (sandboxLabels rc tpl) labelManagedBy = Some managedByValue"
  "map_of (sandboxLabels rc tpl) labelSandboxID = Some (rID rc)"
proof -
  have "distinct (map fst [(labelManagedBy, managedByValue), (labelSandboxID, rID rc), (labelName, rName rc),
        (labelNamespace, rNamespace rc), (labelWorkspace, rWorkspace rc)])"
    "labelSandboxID \<noteq> labelManagedBy"
    by (simp_all add: labelManagedBy_def labelSandboxID_def labelName_def labelNamespace_def labelWorkspace_def)
  then show "map_of (sandboxLabels rc tpl) labelManagedBy = Some managedByValue"
    "map_of (sandboxLabels rc tpl) labelSandboxID = Some (rID rc)"
    unfolding sandboxLabels_def by (simp_all add: mergeEnv_lookup)
qed

lemma provSpec_ok:
  assumes "provSpec d rc img user sb dcfg t s = Inr spec"
  shows "rsName spec = rContainerName rc \<and> rsImage spec = img \<and> rsUID spec = Some 0 \<and> rsGID spec = Some 0
    \<and> rsLabels spec = sandboxLabels rc (GetLabels (GetTemplate (GetSpec sb)))
    \<and> map_of (rsEnv spec) ''OPENSHELL_OCI_IMAGE_USER'' = Some user
    \<and> rsVolumes spec = \<lparr>HostPath = seedDirOf d (rID rc), GuestPath = GuestSeedDir, vmReadOnly = True\<rparr>
        # mountVolumes (dcMounts dcfg)"
proof -
  define kernel where "kernel = (if dcKernel dcfg \<noteq> [] then dcKernel dcfg else cfgKernel (dpCfg d))"
  note eq = assms [unfolded provSpec_def Let_def, folded kernel_def]
  show ?thesis
  proof (cases "kernel \<noteq> [] \<and> \<not> statOK s kernel")
    case True
    with eq show ?thesis by (simp del: firstQuantity.simps split: sum.splits)
  next
    case False
    note eq = eq [unfolded if_not_P [OF False]]
    from eq show ?thesis
      by (auto simp del: firstQuantity.simps split: sum.splits)
  qed
qed

lemma mountVolumes_ok:
  assumes "parseDriverConfig st = Inr dcfg" and "v \<in> set (mountVolumes (dcMounts dcfg))"
  shows "validateMountTarget (GuestPath v) = None"
proof -
  from assms(2) obtain mc where mc: "mc \<in> set (dcMounts dcfg)" "GuestPath v = mcTarget mc"
    by (auto simp: mountVolumes_def)
  have "dcfg = zeroDriverConfig \<or> validateConfig dcfg = None"
    using assms(1) by (auto simp: parseDriverConfig_def split: option.splits if_splits)
  then have "validateMounts 0 [] (dcMounts dcfg) = None"
    by (auto simp: validateConfig_def zeroDriverConfig_def split: option.splits)
  with validateMounts_ok [of 0 "[]" "dcMounts dcfg"] mc show ?thesis by (auto simp: mountOk_def list_all_iff)
qed

text \<open>The image a record stands for: its reference, pinned once a digest is known.\<close>

definition recordImage :: "Record \<Rightarrow> string" where
  "recordImage rc = (if rImageDigest rc = [] then rImageRef rc else refWithDigest (rImageRef rc) (rImageDigest rc))"

lemma provPin_image:
  assumes p: "provPin d orc r (enRec (getE s r)) im s = (Inr (rc1, img), s')"
    and r: "r < length (svHeap s)" and fresh: "rImageDigest (enRec (getE s r)) = []"
  shows "img = recordImage rc1 \<and> enRec (getE s' r) = rc1
    \<and> (rImageDigest rc1 \<noteq> [] \<longrightarrow> recs d s' (rID rc1) = Some rc1)"
proof (cases "imDigest im = []")
  case True
  then show ?thesis using provPin_ok [OF p] fresh by (simp add: recordImage_def)
next
  case False
  note ok = provPin_ok [OF p]
  have own: "enRec (getE (pinned r (imDigest im) s) r) = (enRec (getE s r))\<lparr>rImageDigest := imDigest im\<rparr>"
    using r by (simp add: pinned_def frame_simps)
  have "svHeap s' = svHeap (pinned r (imDigest im) s)"
    using p False by (auto simp: provPin_def pinned_def Let_def split: prod.splits option.splits
        dest!: saveRecord_frame)
  then have "getE s' r = getE (pinned r (imDigest im) s) r" by (simp add: getE_def)
  with ok own False show ?thesis by (simp add: recordImage_def)
qed


subsection \<open>Deletion\<close>

lemma deleteBegin_known:
  assumes "lookupLocked i name s = Some r" and "r < length (svHeap s)"
  shows "\<exists>s1. deleteBegin orc i name s = (Some (r, rID (enRec (getE s r)), rContainerName (enRec (getE s r))), s1)
    \<and> svSandboxes s1 = svSandboxes s \<and> svWorld s1 = svWorld s \<and> svDisk s1 = svDisk s \<and> svHub s1 = svHub s
    \<and> svClosed s1 = svClosed s \<and> length (svHeap s1) = length (svHeap s)
    \<and> (\<forall>r'. enRec (getE s1 r') = enRec (getE s r') \<and> enDone (getE s1 r') = enDone (getE s r'))"
proof -
  have "enRec (getE (setE r (\<lambda>e. e\<lparr>enDeleting := True, enCond := deletingCondition (orNow orc)\<rparr>) s) r')
      = enRec (getE s r') \<and>
    enDone (getE (setE r (\<lambda>e. e\<lparr>enDeleting := True, enCond := deletingCondition (orNow orc)\<rparr>) s) r')
      = enDone (getE s r')" for r'
    using assms(2) by (cases "r' = r") (simp_all add: frame_simps)
  then show ?thesis using assms by (simp add: deleteBegin_def frame_simps)
qed

lemma cancelTask_frame:
  "svSandboxes (cancelTask r s) = svSandboxes s" "svWorld (cancelTask r s) = svWorld s"
  "svDisk (cancelTask r s) = svDisk s" "svHub (cancelTask r s) = svHub s"
  "svClosed (cancelTask r s) = svClosed s" "length (svHeap (cancelTask r s)) = length (svHeap s)"
  by (simp_all add: cancelTask_def frame_simps)

lemma cancelTask_entry:
  assumes "r < length (svHeap s)"
  shows "enRec (getE (cancelTask r s) r') = enRec (getE s r')"
    "enDone (getE (cancelTask r s) r') = enDone (getE s r')"
  using assms by (cases "r' = r"; simp add: cancelTask_def frame_simps)+

text \<open>What precedes the teardown of a known sandbox.\<close>

lemma DeleteSandbox_known:
  assumes "lookupLocked i name s = Some r" and "r < length (svHeap s)"
  shows "\<exists>s2. DeleteSandbox d orc i name s
      = deleteTeardown d orc (enDone (getE s r) = OpenChan) (rID (enRec (getE s r)))
          (rContainerName (enRec (getE s r))) s2
    \<and> svSandboxes s2 = svSandboxes s \<and> svWorld s2 = svWorld s \<and> svDisk s2 = svDisk s
    \<and> length (svHeap s2) = length (svHeap s) \<and> svClosed s2 = svClosed s
    \<and> (hubOk (svHub s) \<longrightarrow> hubOk (svHub s2)) \<and> (\<forall>r'. enRec (getE s2 r') = enRec (getE s r'))"
proof -
  obtain s1 where b: "deleteBegin orc i name s
      = (Some (r, rID (enRec (getE s r)), rContainerName (enRec (getE s r))), s1)"
    and f: "svSandboxes s1 = svSandboxes s" "svWorld s1 = svWorld s" "svDisk s1 = svDisk s"
      "svHub s1 = svHub s" "svClosed s1 = svClosed s" "length (svHeap s1) = length (svHeap s)"
      "\<forall>r'. enRec (getE s1 r') = enRec (getE s r') \<and> enDone (getE s1 r') = enDone (getE s r')"
    using deleteBegin_known [OF assms] by blast
  have "r < length (svHeap (publishSandbox d r s1))" using assms(2) f by (simp add: frame_simps)
  note c = cancelTask_entry [OF this]
  show ?thesis
    by (rule exI [of _ "cancelTask r (publishSandbox d r s1)"])
      (simp add: DeleteSandbox_def b Let_def f c cancelTask_frame frame_simps inv_intros)
qed

lemma deleteVM_frame:
  assumes "deleteVM d e name s = (a, s')"
  shows "svDisk s' = svDisk s \<and> svHub s' = svHub s \<and> svHeap s' = svHeap s
    \<and> svSandboxes s' = svSandboxes s \<and> svClosed s' = svClosed s"
proof -
  obtain b s1 where c: "rtCall (rtDelete (dpRt d) e name) s = (b, s1)" by fastforce
  have "s' = s1" using assms c by (auto simp: deleteVM_def split: option.splits if_splits)
  then show ?thesis using rtCall_frame [OF c] by simp
qed

lemma deleteTeardown_ok:
  assumes "deleteTeardown d orc e i name s = (Inr b, s')"
  shows "\<exists>s1. deleteVM d e name s = (Inr b, s1) \<and> svWorld s' = svWorld s1
    \<and> svSandboxes s' = AList.delete i (svSandboxes s)
    \<and> recs d s' = (recs d s)(i := None) \<and> svHeap s' = svHeap s \<and> svClosed s' = svClosed s
    \<and> (hubOk (svHub s) \<longrightarrow> hubOk (svHub s'))
    \<and> (storeOk (dpRoot d) (svDisk s) \<longrightarrow> storeOk (dpRoot d) (svDisk s'))"
proof -
  obtain s1 where v: "deleteVM d e name s = (Inr b, s1)"
    and del: "(case deleteRecord d orc i s1 of
             (Some e, s2) \<Rightarrow> (Inl (Internal, Wrap ''delete record: %v'' [] e), s2)
           | (None, s2) \<Rightarrow> (Inr b, deleteForget i s2)) = (Inr b, s')"
    using assms by (auto simp: deleteTeardown_def split: prod.splits sum.splits option.splits)
  obtain s2 where r: "deleteRecord d orc i s1 = (None, s2)" and s': "s' = deleteForget i s2"
    using del by (auto split: prod.splits option.splits)
  show ?thesis
    using v deleteVM_frame [OF v] deleteRecord_frame [OF r] deleteRecord_recs(1) [OF r]
      deleteRecord_good [OF r]
    by (simp add: s' deleteForget_def publishDeleted_def publish_def inv_intros)
qed

lemma deleteTeardown_err:
  assumes "deleteTeardown d orc e i name s = (Inl st, s')"
  shows "svSandboxes s' = svSandboxes s \<and> recs d s' = recs d s \<and> svHeap s' = svHeap s"
proof -
  obtain a s1 where v: "deleteVM d e name s = (a, s1)" by fastforce
  obtain b s2 where r: "deleteRecord d orc i s1 = (b, s2)" by fastforce
  have "s' = s1 \<or> b \<noteq> None \<and> s' = s2"
    using assms v r by (cases a; cases b) (auto simp: deleteTeardown_def)
  then show ?thesis
    using deleteVM_frame [OF v] deleteRecord_frame [OF r] deleteRecord_recs(2) [of d orc i s1] r by auto
qed

context vm_runtime
begin

lemma deleteVM_gone:
  assumes rt: "dpRt d = rt" and g: "good (svWorld s)" and v: "deleteVM d e name s = (Inr b, s')"
  shows "good (svWorld s') \<and> vms (svWorld s') = (vms (svWorld s))(name := None)"
proof -
  obtain a w where c: "rtDelete rt e name (svWorld s) = (a, w)" by fastforce
  have w: "svWorld s' = w" "a = None \<or> (\<exists>x. a = Some x \<and> isNotFoundErr x)"
    using v c rt by (auto simp: deleteVM_def rtCall_def split: option.splits if_splits)
  have "vms w = (vms (svWorld s))(name := None)"
  proof (cases a)
    case None
    then show ?thesis using delete_ok [OF g] c by simp
  next
    case (Some x)
    then have "isNotFoundErr x" using w by simp
    then have "vms (svWorld s) name = None" "vms w = vms (svWorld s)"
      using delete_notfound [OF g] c Some by auto
    then show ?thesis by (simp add: fun_upd_idem)
  qed
  then show ?thesis using w delete_good [OF g c] by simp
qed

end

lemma serverOk_forget:
  assumes ok: "serverOk d s"
    and f: "svSandboxes s' = AList.delete i (svSandboxes s)" "recs d s' = (recs d s)(i := None)"
      "length (svHeap s') = length (svHeap s)" "\<forall>r. enRec (getE s' r) = enRec (getE s r)"
      "hubOk (svHub s')" "storeOk (dpRoot d) (svDisk s')"
  shows "serverOk d s'"
  using ok f unfolding serverOk_def registryOk_def by (auto simp: delete_conv)

lemma serverOk_live:
  "serverOk d s \<Longrightarrow> lookupLocked i name s = Some r \<Longrightarrow>
     r < length (svHeap s) \<and> map_of (svSandboxes s) (rID (enRec (getE s r))) = Some r"
  using lookupLocked_known by (auto simp: serverOk_def)

text \<open>What a successful delete of a known sandbox has done.\<close>

lemma delete_effect:
  assumes ok: "serverOk d s" and rt: "vm_runtime (dpRt d) vms good" and g: "good (svWorld s)"
    and l: "lookupLocked i name s = Some r" and del: "DeleteSandbox d orc i name s = (Inr b, s')"
  shows "map_of (svSandboxes s') = (map_of (svSandboxes s))(rID (enRec (getE s r)) := None)
    \<and> recs d s' = (recs d s)(rID (enRec (getE s r)) := None)
    \<and> vms (svWorld s') = (vms (svWorld s))(rContainerName (enRec (getE s r)) := None)
    \<and> serverOk d s' \<and> good (svWorld s')"
proof -
  let ?i = "rID (enRec (getE s r))" and ?n = "rContainerName (enRec (getE s r))"
  have r: "r < length (svHeap s)" using serverOk_live [OF ok l] by simp
  obtain s2 where e: "DeleteSandbox d orc i name s
        = deleteTeardown d orc (enDone (getE s r) = OpenChan) ?i ?n s2"
    and f: "svSandboxes s2 = svSandboxes s" "svWorld s2 = svWorld s" "svDisk s2 = svDisk s"
      "length (svHeap s2) = length (svHeap s)" "hubOk (svHub s) \<longrightarrow> hubOk (svHub s2)"
      "\<forall>r'. enRec (getE s2 r') = enRec (getE s r')"
    using DeleteSandbox_known [OF l r] by blast
  obtain s1 where v: "deleteVM d (enDone (getE s r) = OpenChan) ?n s2 = (Inr b, s1)"
    and t: "svWorld s' = svWorld s1" "svSandboxes s' = AList.delete ?i (svSandboxes s2)"
      "recs d s' = (recs d s2)(?i := None)" "svHeap s' = svHeap s2"
      "hubOk (svHub s2) \<longrightarrow> hubOk (svHub s')"
      "storeOk (dpRoot d) (svDisk s2) \<longrightarrow> storeOk (dpRoot d) (svDisk s')"
    using deleteTeardown_ok [OF del [unfolded e]] by blast
  have "vms (svWorld s1) = (vms (svWorld s))(?n := None)" "good (svWorld s1)"
    using vm_runtime.deleteVM_gone [OF rt refl _ v] g f(2) by simp_all
  moreover have "serverOk d s'"
    by (rule serverOk_forget [OF ok]) (use ok t f in \<open>simp_all add: serverOk_def getE_def\<close>)
  ultimately show ?thesis using t f by (simp add: delete_conv)
qed

text \<open>
  C3. A delete that answers success has removed exactly its sandbox, everywhere: from the
  registry, from the store, and from the runtime; every other entry, record and virtual
  machine is as it was, and the server is well formed again. Of the runtime this needs the
  contract of the interface and nothing else.
\<close>

theorem delete_removes:
  assumes ok: "serverOk d s" and rt: "vm_runtime (dpRt d) vms good" and g: "good (svWorld s)"
    and l: "lookupLocked i name s = Some r" and del: "DeleteSandbox d orc i name s = (Inr b, s')"
  shows "map_of (svSandboxes s') = (map_of (svSandboxes s))(rID (enRec (getE s r)) := None)
    \<and> recs d s' = (recs d s)(rID (enRec (getE s r)) := None)
    \<and> vms (svWorld s') = (vms (svWorld s))(rContainerName (enRec (getE s r)) := None)
    \<and> serverOk d s'"
  using delete_effect [OF assms] by blast

text \<open>
  A delete of a known sandbox that fails, in the runtime or in the store, loses
  nothing: the sandbox stays registered and every record stays on disk, so that the delete
  can be repeated.
\<close>

theorem delete_failure_keeps:
  assumes ok: "serverOk d s" and l: "lookupLocked i name s = Some r"
    and del: "DeleteSandbox d orc i name s = (Inl st, s')"
  shows "svSandboxes s' = svSandboxes s \<and> recs d s' = recs d s
    \<and> (\<forall>r'. enRec (getE s' r') = enRec (getE s r'))"
proof -
  have r: "r < length (svHeap s)" using serverOk_live [OF ok l] by simp
  obtain s2 where e: "DeleteSandbox d orc i name s
        = deleteTeardown d orc (enDone (getE s r) = OpenChan) (rID (enRec (getE s r)))
            (rContainerName (enRec (getE s r))) s2"
    and f: "svSandboxes s2 = svSandboxes s" "svDisk s2 = svDisk s"
      "\<forall>r'. enRec (getE s2 r') = enRec (getE s r')"
    using DeleteSandbox_known [OF l r] by blast
  from deleteTeardown_err [OF del [unfolded e]] f show ?thesis by (simp add: getE_def)
qed


subsection \<open>The concrete server, provisioned and deleted\<close>

lemma demo_facts:
  "0 < length (svHeap demoCreated) \<and> rImageDigest (enRec (getE demoCreated 0)) = []
     \<and> rID (enRec (getE demoCreated 0)) = ''sb1'' \<and> enDone (getE demoCreated 0) = OpenChan
     \<and> fkContainers (svWorld demoCreated) = [] \<and> lookupLocked ''sb1'' [] demoCreated = Some 0"
  by code_simp

lemma demo_boots: "fst (provisionInner demoDeps demoOrc 0 (Some demoRequest) ''tok'' demoCreated) = None"
  by code_simp

lemma demo_deletes:
  "(case fst (DeleteSandbox demoDeps demoOrc ''sb1'' [] demoCreated) of Inr _ \<Rightarrow> True | Inl _ \<Rightarrow> False)
     \<and> (case fst (DeleteSandbox demoDeps (demoOrc\<lparr>orDel := False\<rparr>) ''sb1'' [] demoCreated) of
          Inr _ \<Rightarrow> False | Inl _ \<Rightarrow> True)"
  by code_simp

lemmas demo_live = demo_facts [THEN conjunct1]

lemma demo_fresh: "rImageDigest (enRec (getE demoCreated 0)) = []"
  and demo_id: "rID (enRec (getE demoCreated 0)) = ''sb1''"
  and demo_open: "enDone (getE demoCreated 0) = OpenChan"
  and demo_empty: "fkContainers (svWorld demoCreated) = []"
  and demo_lookup: "lookupLocked ''sb1'' [] demoCreated = Some 0"
  using demo_facts by blast+


theorem provision_cancelled_witness:
  "enDone (getE (provision demoDeps demoOrc 0 (Some demoRequest) [] (closeServer demoCreated)) 0) = ClosedChan"
  using provision_cancelled [of "closeServer demoCreated" 0 demoDeps demoOrc "Some demoRequest" "[]"] demo_live
  by (simp add: taskCtx_def closeServer_def)

lemma demo_ok: "serverOk demoDeps demoCreated"
proof -
  have "serverOk demoDeps demoServer"
  proof -
    have r: "dpRoot demoDeps = ''/st''" by (simp add: demoDeps_def)
    have "recordsOf ''/st'' demoDisk i = None" for i
      by (rule ccontr) (auto simp: recordsOf_node demoDisk_def split: if_splits)
    moreover have "isDirNode (map_of demoDisk (sandboxesDir ''/st''))" by code_simp
    ultimately show ?thesis
      by (simp add: serverOk_def registryOk_def storeOk_def demoServer_def newServer_def r hubOk_new)
  qed
  from create_serverOk [OF this demo_create_eq] show ?thesis .
qed

theorem delete_removes_witness:
  "\<exists>b s'. DeleteSandbox demoDeps demoOrc ''sb1'' [] demoCreated = (Inr b, s')
     \<and> recs demoDeps s' ''sb1'' = None \<and> serverOk demoDeps s'"
proof -
  obtain b s' where d: "DeleteSandbox demoDeps demoOrc ''sb1'' [] demoCreated = (Inr b, s')"
    using demo_deletes by (auto split: sum.splits) (metis prod.collapse)
  have g: "fakeGood (svWorld demoCreated)" using demo_empty by (simp add: fakeGood_def goodCtrs_def)
  have rt: "vm_runtime (dpRt demoDeps) fakeVMs fakeGood"
    using fk.vm_runtime_axioms by (simp add: demoDeps_def)
  from delete_removes [OF demo_ok rt g demo_lookup d] show ?thesis using d demo_id by auto
qed

theorem delete_failure_keeps_witness:
  "\<exists>st s'. DeleteSandbox demoDeps (demoOrc\<lparr>orDel := False\<rparr>) ''sb1'' [] demoCreated = (Inl st, s')
     \<and> recs demoDeps s' = recs demoDeps demoCreated"
proof -
  obtain st s' where d: "DeleteSandbox demoDeps (demoOrc\<lparr>orDel := False\<rparr>) ''sb1'' [] demoCreated = (Inl st, s')"
    using demo_deletes by (auto split: sum.splits) (metis prod.collapse)
  from delete_failure_keeps [OF demo_ok demo_lookup d] d show ?thesis by blast
qed

text \<open>A command line whose every command is killed by its expired context.\<close>

definition killedCLI :: "Fake CLI" where
  "killedCLI = \<lparr>cliBin = ''container'', cliRunner = (\<lambda>ctx bin args w. (([], [], Some (errorf ''signal: killed'' [])), w)),
     cliCopied = (\<lambda>_ _. [])\<rparr>"


end
