(* ===== verification/Lifecycle.thy ===== *)
theory Lifecycle
  imports Provision
begin

section \<open>Stop and start (\<open>lifecycle.go\<close>)\<close>

text \<open>
  The two lifecycle operations of the gateway, cut at the runtime call between their locked
  sections. \<open>expired\<close> tells whether the operation's own 60 seconds are over when the runtime
  is called. The release of the busy mark is deferred, so it runs on every path.
\<close>

definition beginLifecycle :: "string \<Rightarrow> string \<Rightarrow> 'w Server \<Rightarrow> (status + nat) \<times> 'w Server" where
  "beginLifecycle i name s =
     (case lookupLocked i name s of
        None \<Rightarrow> (Inl (NotFound, errorf ''sandbox %q not found'' [i]), s)
      | Some r \<Rightarrow>
          (let e = getE s r
           in if enDeleting e
              then (Inl (FailedPrecondition, errorf ''sandbox %q is being deleted'' [rID (enRec e)]), s)
              else if \<not> provisionDone e
              then (Inl (FailedPrecondition, errorf ''sandbox %q is still provisioning'' [rID (enRec e)]), s)
              else if enBusy e
              then (Inl (Aborted, errorf ''sandbox %q has a lifecycle operation in progress'' [rID (enRec e)]), s)
              else if cdReason (enCond e) = reasonProvisioningFailed
              then (Inl (FailedPrecondition,
                         errorf ''sandbox %q failed to provision; delete it instead'' [rID (enRec e)]), s)
              else (Inr r, setE r (enBusy_update (\<lambda>_. True)) s)))"

definition releaseBusy :: "nat \<Rightarrow> 'w Server \<Rightarrow> 'w Server" where
  "releaseBusy r s = setE r (enBusy_update (\<lambda>_. False)) s"

text \<open>An error of the runtime is trusted only after a look at the container's state.\<close>

definition stopVM :: "'w Deps \<Rightarrow> bool \<Rightarrow> Record \<Rightarrow> 'w Server \<Rightarrow> status option \<times> 'w Server" where
  "stopVM d expired rc s =
     (case rtCall (rtStop (dpRt d) expired (rContainerName rc)) s of
        (None, s1) \<Rightarrow> (None, s1)
      | (Some e, s1) \<Rightarrow>
          (if isNotFoundErr e
           then (Some (NotFound, errorf ''sandbox %q has no VM to stop'' [rID rc]), s1)
           else (case rtCall (rtGet (dpRt d) expired (rContainerName rc)) s1 of
                   (Inr c, s2) \<Rightarrow>
                     (if cState c = ''running''
                      then (Some (Internal, Wrap ''stop sandbox VM: %v'' [] e), s2) else (None, s2))
                 | (Inl _, s2) \<Rightarrow> (Some (Internal, Wrap ''stop sandbox VM: %v'' [] e), s2))))"

definition startVM :: "'w Deps \<Rightarrow> bool \<Rightarrow> Record \<Rightarrow> 'w Server \<Rightarrow> status option \<times> 'w Server" where
  "startVM d expired rc s =
     (case rtCall (rtStart (dpRt d) expired (rContainerName rc)) s of
        (None, s1) \<Rightarrow> (None, s1)
      | (Some e, s1) \<Rightarrow>
          (if isNotFoundErr e
           then (Some (NotFound, errorf ''sandbox %q has no VM to start'' [rID rc]), s1)
           else (case rtCall (rtGet (dpRt d) expired (rContainerName rc)) s1 of
                   (Inr c, s2) \<Rightarrow>
                     (if cState c \<noteq> ''running''
                      then (Some (Internal, Wrap ''start sandbox VM: %v'' [] e), s2) else (None, s2))
                 | (Inl _, s2) \<Rightarrow> (Some (Internal, Wrap ''start sandbox VM: %v'' [] e), s2))))"

definition markStopped :: "bool \<Rightarrow> nat \<Rightarrow> 'w Server \<Rightarrow> 'w Server" where
  "markStopped b r s = setE r (\<lambda>e. e\<lparr>enRec := (enRec e)\<lparr>rStopped := b\<rparr>\<rparr>) s"

definition setStopped :: "'w Deps \<Rightarrow> Oracle \<Rightarrow> nat \<Rightarrow> bool \<Rightarrow> 'w Server \<Rightarrow> status option \<times> 'w Server" where
  "setStopped d orc r stopped s =
     (let s1 = markStopped stopped r s
      in case saveRecord d orc (enRec (getE s1 r)) s1 of
           (Some e, s2) \<Rightarrow> (Some (Internal, Wrap ''persist lifecycle state: %v'' [] e), s2)
         | (None, s2) \<Rightarrow> (None, s2))"

definition announce :: "'w Deps \<Rightarrow> Oracle \<Rightarrow> nat \<Rightarrow> condition \<Rightarrow> string \<Rightarrow> string \<Rightarrow> 'w Server \<Rightarrow> 'w Server" where
  "announce d orc r c reason msg s =
     (let s1 = publishSandbox d r (setCondition r c s)
      in publishPlatformEvent (orNow orc) (rID (enRec (getE s1 r))) ''Normal'' reason (Msg msg) s1)"

text \<open>Everything after the runtime call; the busy mark goes last.\<close>

definition stopEnd :: "'w Deps \<Rightarrow> Oracle \<Rightarrow> nat \<Rightarrow> status option \<Rightarrow> 'w Server \<Rightarrow> status option \<times> 'w Server" where
  "stopEnd d orc r res s =
     (case res of
        Some st \<Rightarrow> (Some st, releaseBusy r s)
      | None \<Rightarrow>
          (case setStopped d orc r True s of
             (Some st, s1) \<Rightarrow> (Some st, releaseBusy r s1)
           | (None, s1) \<Rightarrow>
               (None, releaseBusy r (announce d orc r (stoppedCondition (orNow orc)) ''Stopped''
                  ''Sandbox VM stopped'' s1))))"

definition startEnd :: "'w Deps \<Rightarrow> Oracle \<Rightarrow> nat \<Rightarrow> status option \<Rightarrow> 'w Server \<Rightarrow> status option \<times> 'w Server" where
  "startEnd d orc r res s =
     (case res of
        Some st \<Rightarrow> (Some st, releaseBusy r s)
      | None \<Rightarrow>
          (case setStopped d orc r False s of
             (Some st, s1) \<Rightarrow> (Some st, releaseBusy r s1)
           | (None, s1) \<Rightarrow>
               (None, releaseBusy r (announce d orc r (readyTrueCondition (orNow orc)) ''Started''
                  ''Sandbox VM started'' s1))))"

definition StopSandbox :: "'w Deps \<Rightarrow> Oracle \<Rightarrow> string \<Rightarrow> string \<Rightarrow> 'w Server \<Rightarrow> status option \<times> 'w Server" where
  "StopSandbox d orc i name s =
     (case beginLifecycle i name s of
        (Inl st, s1) \<Rightarrow> (Some st, s1)
      | (Inr r, s1) \<Rightarrow>
          (let (res, s2) = stopVM d False (enRec (getE s1 r)) s1 in stopEnd d orc r res s2))"

definition StartSandbox :: "'w Deps \<Rightarrow> Oracle \<Rightarrow> string \<Rightarrow> string \<Rightarrow> 'w Server \<Rightarrow> status option \<times> 'w Server" where
  "StartSandbox d orc i name s =
     (case beginLifecycle i name s of
        (Inl st, s1) \<Rightarrow> (Some st, s1)
      | (Inr r, s1) \<Rightarrow>
          (let (res, s2) = startVM d False (enRec (getE s1 r)) s1 in startEnd d orc r res s2))"

subsection \<open>Admission\<close>

text \<open>When an entry may be stopped or started.\<close>

definition admits :: "entry \<Rightarrow> bool" where
  "admits e \<longleftrightarrow> \<not> enDeleting e \<and> provisionDone e \<and> \<not> enBusy e
     \<and> cdReason (enCond e) \<noteq> reasonProvisioningFailed"

lemma beginLifecycle_Inr:
  "beginLifecycle i name s = (Inr r, s') \<longleftrightarrow>
     lookupLocked i name s = Some r \<and> admits (getE s r) \<and> s' = setE r (enBusy_update (\<lambda>_. True)) s"
  by (auto simp: beginLifecycle_def admits_def Let_def split: option.splits if_splits)

lemma beginLifecycle_Inl: "beginLifecycle i name s = (Inl st, s') \<Longrightarrow> s' = s"
  by (auto simp: beginLifecycle_def Let_def split: option.splits if_splits)

text \<open>
  A stop or start is refused, without any effect, exactly when the sandbox is unknown,
  being deleted, still provisioning, already in a stop or start, or failed to provision.
\<close>

theorem lifecycle_admission:
  "(\<exists>st. beginLifecycle i name s = (Inl st, s)
        \<and> StopSandbox d orc i name s = (Some st, s) \<and> StartSandbox d orc i name s = (Some st, s))
   \<longleftrightarrow> (case lookupLocked i name s of None \<Rightarrow> True | Some r \<Rightarrow> \<not> admits (getE s r))"
proof (cases "beginLifecycle i name s")
  case (Pair a s')
  show ?thesis
  proof (cases a)
    case (Inl st)
    then have b: "beginLifecycle i name s = (Inl st, s)" using Pair by (metis beginLifecycle_Inl)
    then have "\<not> (\<exists>r s'. beginLifecycle i name s = (Inr r, s'))" by simp
    then have "case lookupLocked i name s of None \<Rightarrow> True | Some r \<Rightarrow> \<not> admits (getE s r)"
      by (auto simp: beginLifecycle_Inr split: option.split)
    then show ?thesis by (simp add: b StopSandbox_def StartSandbox_def)
  next
    case (Inr r)
    then have b: "beginLifecycle i name s = (Inr r, s')" using Pair by simp
    then have "lookupLocked i name s = Some r" "admits (getE s r)" by (simp_all add: beginLifecycle_Inr)
    then show ?thesis by (simp add: b)
  qed
qed

theorem lifecycle_admission_witness:
  "\<exists>st. StopSandbox demoDeps demoOrc ''sb1'' [] demoCreated = (Some st, demoCreated)"
proof -
  have "case lookupLocked ''sb1'' [] demoCreated of None \<Rightarrow> True | Some r \<Rightarrow> \<not> admits (getE demoCreated r)"
    by code_simp
  then show ?thesis using lifecycle_admission [of "''sb1''" "[]" demoCreated demoDeps demoOrc] by blast
qed

subsection \<open>What the parts touch\<close>

lemma stopVM_frame:
  assumes "stopVM d x rc s = (a, s')"
  shows "svDisk s' = svDisk s \<and> svHub s' = svHub s \<and> svHeap s' = svHeap s
    \<and> svSandboxes s' = svSandboxes s \<and> svClosed s' = svClosed s"
proof -
  obtain b s1 where 1: "rtCall (rtStop (dpRt d) x (rContainerName rc)) s = (b, s1)" by fastforce
  obtain g s2 where 2: "rtCall (rtGet (dpRt d) x (rContainerName rc)) s1 = (g, s2)" by fastforce
  have "s' = s1 \<or> s' = s2"
    using assms 1 2 by (auto simp: stopVM_def split: option.splits if_splits sum.splits)
  then show ?thesis using rtCall_frame [OF 1] rtCall_frame [OF 2] by auto
qed

lemma startVM_frame:
  assumes "startVM d x rc s = (a, s')"
  shows "svDisk s' = svDisk s \<and> svHub s' = svHub s \<and> svHeap s' = svHeap s
    \<and> svSandboxes s' = svSandboxes s \<and> svClosed s' = svClosed s"
proof -
  obtain b s1 where 1: "rtCall (rtStart (dpRt d) x (rContainerName rc)) s = (b, s1)" by fastforce
  obtain g s2 where 2: "rtCall (rtGet (dpRt d) x (rContainerName rc)) s1 = (g, s2)" by fastforce
  have "s' = s1 \<or> s' = s2"
    using assms 1 2 by (auto simp: startVM_def split: option.splits if_splits sum.splits)
  then show ?thesis using rtCall_frame [OF 1] rtCall_frame [OF 2] by auto
qed

text \<open>
  Persisting the mark and announcing the outcome: the world, the registry and every other
  entry stay, and the record on disk is the entry's.
\<close>

lemma setStopped_facts:
  assumes s: "setStopped d orc r b s = (res, s')" and r: "r < length (svHeap s)"
  shows "svWorld s' = svWorld s \<and> svSandboxes s' = svSandboxes s \<and> svHub s' = svHub s
    \<and> svClosed s' = svClosed s \<and> length (svHeap s') = length (svHeap s)
    \<and> (\<forall>r'. r' \<noteq> r \<longrightarrow> getE s' r' = getE s r')
    \<and> getE s' r = (getE s r)\<lparr>enRec := (enRec (getE s r))\<lparr>rStopped := b\<rparr>\<rparr>
    \<and> recs d s' = (if res = None then (recs d s)(rID (enRec (getE s r)) \<mapsto> enRec (getE s' r)) else recs d s)
    \<and> (storeOk (dpRoot d) (svDisk s) \<longrightarrow> storeOk (dpRoot d) (svDisk s'))"
proof -
  define s1 where "s1 = markStopped b r s"
  have own: "getE s1 r = (getE s r)\<lparr>enRec := (enRec (getE s r))\<lparr>rStopped := b\<rparr>\<rparr>"
    and others: "r' \<noteq> r \<Longrightarrow> getE s1 r' = getE s r'" for r'
    using r by (simp_all add: s1_def markStopped_def frame_simps)
  have f1: "svWorld s1 = svWorld s" "svSandboxes s1 = svSandboxes s" "svHub s1 = svHub s"
    "svClosed s1 = svClosed s" "length (svHeap s1) = length (svHeap s)" "svDisk s1 = svDisk s"
    by (simp_all add: s1_def markStopped_def frame_simps)
  obtain e s2 where sv: "saveRecord d orc (enRec (getE s1 r)) s1 = (e, s2)" by fastforce
  have e: "s' = s2" "(res = None) = (e = None)"
    using s sv by (auto simp: setStopped_def s1_def [symmetric] Let_def split: option.splits)
  have h: "getE s2 r' = getE s1 r'" for r' using saveRecord_frame [OF sv] by (simp add: getE_def)
  have rc: "recs d s2 = (if e = None then (recs d s)(rID (enRec (getE s r)) \<mapsto> enRec (getE s1 r)) else recs d s)"
    using saveRecord_recs(1) [of d orc "enRec (getE s1 r)" s1 s2]
      saveRecord_recs(2) [of d orc "enRec (getE s1 r)" s1 _ s2] sv own f1 by (cases e) auto
  have "storeOk (dpRoot d) (svDisk s) \<longrightarrow> storeOk (dpRoot d) (svDisk s2)"
    using saveRecord_good [OF sv] f1 by simp
  moreover note saveRecord_frame [OF sv]
  ultimately show ?thesis using e own others f1 h rc by auto
qed

lemma announce_facts:
  assumes r: "r < length (svHeap s)"
  shows "svWorld (announce d orc r c re m s) = svWorld s" "svSandboxes (announce d orc r c re m s) = svSandboxes s"
    "svDisk (announce d orc r c re m s) = svDisk s" "svClosed (announce d orc r c re m s) = svClosed s"
    "length (svHeap (announce d orc r c re m s)) = length (svHeap s)"
    "r' \<noteq> r \<Longrightarrow> getE (announce d orc r c re m s) r' = getE s r'"
    "getE (announce d orc r c re m s) r = (getE s r)\<lparr>enCond := c\<rparr>"
    "hubOk (svHub s) \<Longrightarrow> hubOk (svHub (announce d orc r c re m s))"
  using r by (simp_all add: announce_def Let_def setCondition_def frame_simps publishPlatformEvent_def inv_intros)

lemma releaseBusy_facts:
  assumes r: "r < length (svHeap s)"
  shows "svWorld (releaseBusy r s) = svWorld s" "svSandboxes (releaseBusy r s) = svSandboxes s"
    "svDisk (releaseBusy r s) = svDisk s" "svHub (releaseBusy r s) = svHub s"
    "svClosed (releaseBusy r s) = svClosed s" "length (svHeap (releaseBusy r s)) = length (svHeap s)"
    "r' \<noteq> r \<Longrightarrow> getE (releaseBusy r s) r' = getE s r'"
    "getE (releaseBusy r s) r = (getE s r)\<lparr>enBusy := False\<rparr>"
  using r by (simp_all add: releaseBusy_def frame_simps)

text \<open>
  The end of a stop (\<open>b\<close>) or start: what it leaves of the entry, and what it persists.
\<close>

definition endOf :: "bool \<Rightarrow> 'w Deps \<Rightarrow> Oracle \<Rightarrow> nat \<Rightarrow> status option \<Rightarrow> 'w Server \<Rightarrow> status option \<times> 'w Server" where
  "endOf b = (if b then stopEnd else startEnd)"

definition condOf :: "bool \<Rightarrow> int \<Rightarrow> condition" where
  "condOf b = (if b then stoppedCondition else readyTrueCondition)"

lemma endOf_facts:
  assumes e: "endOf b d orc r res s = (res', s')" and r: "r < length (svHeap s)"
  shows "svWorld s' = svWorld s \<and> svSandboxes s' = svSandboxes s \<and> svClosed s' = svClosed s
    \<and> length (svHeap s') = length (svHeap s)
    \<and> (\<forall>r'. r' \<noteq> r \<longrightarrow> getE s' r' = getE s r')
    \<and> (\<exists>st c. getE s' r = (getE s r)\<lparr>enRec := (enRec (getE s r))\<lparr>rStopped := st\<rparr>, enCond := c, enBusy := False\<rparr>
         \<and> (res' = None \<longrightarrow> st = b \<and> c = condOf b (orNow orc)))
    \<and> (res' = None \<longrightarrow> res = None \<and> recs d s' = (recs d s)(rID (enRec (getE s r)) \<mapsto> enRec (getE s' r)))
    \<and> (res' \<noteq> None \<longrightarrow> recs d s' = recs d s)
    \<and> (hubOk (svHub s) \<longrightarrow> hubOk (svHub s'))
    \<and> (storeOk (dpRoot d) (svDisk s) \<longrightarrow> storeOk (dpRoot d) (svDisk s'))"
proof (cases res)
  case (Some st)
  then have "res' = Some st \<and> s' = releaseBusy r s"
    using e by (auto simp: endOf_def stopEnd_def startEnd_def split: if_splits)
  then show ?thesis
    using releaseBusy_facts [OF r]
    by (auto intro!: exI [of _ "rStopped (enRec (getE s r))"] exI [of _ "enCond (getE s r)"])
next
  case None
  obtain q s1 where q: "setStopped d orc r b s = (q, s1)" by fastforce
  note f = setStopped_facts [OF q r]
  have r1: "r < length (svHeap s1)" using r f by simp
  show ?thesis
  proof (cases q)
    case (Some st)
    then have "res' = Some st \<and> s' = releaseBusy r s1"
      using e q None by (auto simp: endOf_def stopEnd_def startEnd_def split: if_splits)
    then show ?thesis using releaseBusy_facts [OF r1] f Some
      by (auto intro!: exI [of _ b] exI [of _ "enCond (getE s r)"])
  next
    case n: None
    define m where "m = (if b then ''Sandbox VM stopped'' else ''Sandbox VM started'')"
    define t where "t = (if b then ''Stopped'' else ''Started'')"
    have s': "res' = None" "s' = releaseBusy r (announce d orc r (condOf b (orNow orc)) t m s1)"
      using e q None n by (auto simp: endOf_def stopEnd_def startEnd_def condOf_def m_def t_def split: if_splits)
    note a = announce_facts [OF r1, where d = d and orc = orc and c = "condOf b (orNow orc)" and re = t and m = m]
    have r2: "r < length (svHeap (announce d orc r (condOf b (orNow orc)) t m s1))" using a r1 by simp
    show ?thesis using releaseBusy_facts [OF r2] a f n None s'
      by (auto intro!: exI [of _ b] exI [of _ "condOf b (orNow orc)"])
  qed
qed

subsection \<open>The operations\<close>

definition vmOf :: "bool \<Rightarrow> 'w Deps \<Rightarrow> bool \<Rightarrow> Record \<Rightarrow> 'w Server \<Rightarrow> status option \<times> 'w Server" where
  "vmOf b = (if b then stopVM else startVM)"

lemma vmOf_frame:
  assumes "vmOf b d x rc s = (a, s')"
  shows "svDisk s' = svDisk s \<and> svHub s' = svHub s \<and> svHeap s' = svHeap s
    \<and> svSandboxes s' = svSandboxes s \<and> svClosed s' = svClosed s"
  using assms stopVM_frame startVM_frame by (fastforce simp: vmOf_def split: if_splits)

definition lifecycleOp :: "bool \<Rightarrow> 'w Deps \<Rightarrow> Oracle \<Rightarrow> string \<Rightarrow> string \<Rightarrow> 'w Server \<Rightarrow> status option \<times> 'w Server" where
  "lifecycleOp b = (if b then StopSandbox else StartSandbox)"

lemma lifecycleOp_split:
  assumes "lifecycleOp b d orc i name s = (res, s')"
  obtains st where "beginLifecycle i name s = (Inl st, s)" "res = Some st" "s' = s"
  | r v s2 where "lookupLocked i name s = Some r" "admits (getE s r)"
      "vmOf b d False (enRec (getE (setE r (enBusy_update (\<lambda>_. True)) s) r))
         (setE r (enBusy_update (\<lambda>_. True)) s) = (v, s2)"
      "endOf b d orc r v s2 = (res, s')"
proof (cases "beginLifecycle i name s")
  case (Pair a s1)
  show ?thesis
  proof (cases a)
    case (Inl st)
    then have b: "beginLifecycle i name s = (Inl st, s1)" "s1 = s"
      using Pair by (simp, metis beginLifecycle_Inl)
    then show ?thesis
      using assms that(1) [of st] by (auto simp: lifecycleOp_def StopSandbox_def StartSandbox_def split: if_splits)
  next
    case (Inr r)
    then have b: "beginLifecycle i name s = (Inr r, s1)" using Pair by simp
    obtain v s2 where v: "vmOf b d False (enRec (getE s1 r)) s1 = (v, s2)" by fastforce
    have e: "endOf b d orc r v s2 = (res, s')"
      using assms b v
      by (auto simp: lifecycleOp_def vmOf_def endOf_def StopSandbox_def StartSandbox_def split: if_splits)
    show ?thesis using that(2) [OF _ _ _ e] b v by (simp add: beginLifecycle_Inr)
  qed
qed

lemma serverOk_change:
  assumes ok: "serverOk d s"
    and f: "svSandboxes s' = svSandboxes s" "length (svHeap s') = length (svHeap s)"
      "\<And>r. rID (enRec (getE s' r)) = rID (enRec (getE s r))"
      "\<And>i. recs d s i \<noteq> None \<Longrightarrow> recs d s' i \<noteq> None"
      "hubOk (svHub s) \<Longrightarrow> hubOk (svHub s')"
      "storeOk (dpRoot d) (svDisk s) \<Longrightarrow> storeOk (dpRoot d) (svDisk s')"
  shows "serverOk d s'"
  using ok f unfolding serverOk_def registryOk_def by auto

text \<open>A lifecycle operation keeps the server well formed and touches one entry only.\<close>

lemma lifecycleOp_facts:
  assumes op: "lifecycleOp b d orc i name s = (res, s')" and ok: "serverOk d s"
  shows "serverOk d s' \<and> svSandboxes s' = svSandboxes s
    \<and> (\<forall>r'. lookupLocked i name s \<noteq> Some r' \<longrightarrow> getE s' r' = getE s r')"
  using op
proof (cases rule: lifecycleOp_split)
  case 1
  then show ?thesis using ok by simp
next
  case (2 r v s2)
  let ?s1 = "setE r (enBusy_update (\<lambda>_. True)) s"
  have r: "r < length (svHeap s)" using serverOk_live [OF ok 2(1)] by simp
  note v = vmOf_frame [OF 2(3)]
  have r2: "r < length (svHeap s2)" using v r by (simp add: frame_simps)
  note e = endOf_facts [OF 2(4) r2]
  have g1: "getE s2 r' = getE ?s1 r'" for r' using v by (simp add: getE_def)
  have g: "getE s2 r = (getE s r)\<lparr>enBusy := True\<rparr>" "r' \<noteq> r \<Longrightarrow> getE s2 r' = getE s r'" for r'
    using g1 r by (simp_all add: frame_simps)
  have ids: "rID (enRec (getE s' r')) = rID (enRec (getE s r'))" for r'
    using e g by (cases "r' = r") auto
  have "serverOk d s'"
    by (rule serverOk_change [OF ok])
      (use e v ids in \<open>auto simp: frame_simps split: if_splits\<close>)
  then show ?thesis using 2(1) e v g by (auto simp: frame_simps)
qed

lemma lifecycleOp_success:
  assumes op: "lifecycleOp b d orc i name s = (None, s')" and ok: "serverOk d s"
  shows "\<exists>r s1 s2. lookupLocked i name s = Some r
    \<and> vmOf b d False (enRec (getE s r)) s1 = (None, s2) \<and> svWorld s1 = svWorld s \<and> svWorld s' = svWorld s2
    \<and> getE s' r = (getE s r)\<lparr>enRec := (enRec (getE s r))\<lparr>rStopped := b\<rparr>,
        enCond := condOf b (orNow orc), enBusy := False\<rparr>
    \<and> recs d s' = (recs d s)(rID (enRec (getE s r)) \<mapsto> enRec (getE s' r))
    \<and> (\<forall>r'. r' \<noteq> r \<longrightarrow> getE s' r' = getE s r') \<and> serverOk d s'"
proof -
  note facts = lifecycleOp_facts [OF op ok]
  from op show ?thesis
  proof (cases rule: lifecycleOp_split)
    case 1
    then show ?thesis by simp
  next
    case (2 r v s2)
    let ?s1 = "setE r (enBusy_update (\<lambda>_. True)) s"
    have r: "r < length (svHeap s)" using serverOk_live [OF ok 2(1)] by simp
    have n: "enRec (getE ?s1 r) = enRec (getE s r)" using r by (simp add: frame_simps)
    note f = vmOf_frame [OF 2(3)]
    have r2: "r < length (svHeap s2)" using f r by (simp add: frame_simps)
    note e = endOf_facts [OF 2(4) r2]
    have v: "vmOf b d False (enRec (getE s r)) ?s1 = (None, s2)" using 2(3) e n by simp
    have g: "getE s2 r = (getE s r)\<lparr>enBusy := True\<rparr>"
      using f r frame_simps by (simp add: getE_def setE_def)
    then have "getE s' r = (getE s r)\<lparr>enRec := (enRec (getE s r))\<lparr>rStopped := b\<rparr>,
        enCond := condOf b (orNow orc), enBusy := False\<rparr>"
      using e by auto
    moreover have "recs d s' = (recs d s)(rID (enRec (getE s r)) \<mapsto> enRec (getE s' r))"
      using e f g by (simp add: frame_simps)
    moreover have "svWorld ?s1 = svWorld s" by (simp add: frame_simps)
    moreover have "svWorld s' = svWorld s2" using e by simp
    moreover have "\<forall>r'. r' \<noteq> r \<longrightarrow> getE s' r' = getE s r'" using facts 2(1) by simp
    moreover have "serverOk d s'" using facts by simp
    ultimately show ?thesis using 2(1) v by blast
  qed
qed

context vm_runtime
begin

lemma stopVM_state:
  assumes rt: "dpRt d = rt" and g: "good (svWorld s)" and v: "stopVM d x rc s = (None, s')"
  shows "\<exists>st. vms (svWorld s') (rContainerName rc) = Some st \<and> st \<noteq> ''running''
     \<and> (\<forall>n. n \<noteq> rContainerName rc \<longrightarrow> vms (svWorld s') n = vms (svWorld s) n)"
proof -
  let ?n = "rContainerName rc"
  obtain a s1 where 1: "rtCall (rtStop (dpRt d) x ?n) s = (a, s1)" by fastforce
  have c1: "rtStop rt x ?n (svWorld s) = (a, svWorld s1)" using rtCall_frame [OF 1] rt by simp
  have g1: "good (svWorld s1)" by (rule stop_good [OF g c1])
  have others: "m \<noteq> ?n \<Longrightarrow> vms (svWorld s1) m = vms (svWorld s) m" for m by (rule stop_frame [OF g c1])
  show ?thesis
  proof (cases a)
    case None
    then have "s' = s1" using v 1 by (simp add: stopVM_def)
    then show ?thesis using stopped_state [OF g] c1 None others by auto
  next
    case (Some e)
    obtain q s2 where 2: "rtCall (rtGet (dpRt d) x ?n) s1 = (q, s2)" by fastforce
    have "\<exists>c. q = Inr c \<and> cState c \<noteq> ''running'' \<and> s' = s2"
      using v 1 2 Some by (auto simp: stopVM_def split: if_splits sum.splits)
    then obtain c where c: "q = Inr c" "cState c \<noteq> ''running''" "s' = s2" by blast
    have c2: "rtGet rt x ?n (svWorld s1) = (Inr c, svWorld s2)" using rtCall_frame [OF 2] rt c by simp
    from get_good [OF g1 c2] get_ok [OF g1 c2] c others show ?thesis by auto
  qed
qed

lemma startVM_state:
  assumes rt: "dpRt d = rt" and g: "good (svWorld s)" and v: "startVM d x rc s = (None, s')"
  shows "vms (svWorld s') = (vms (svWorld s))(rContainerName rc \<mapsto> ''running'')"
proof -
  let ?n = "rContainerName rc"
  obtain a s1 where 1: "rtCall (rtStart (dpRt d) x ?n) s = (a, s1)" by fastforce
  have c1: "rtStart rt x ?n (svWorld s) = (a, svWorld s1)" using rtCall_frame [OF 1] rt by simp
  have g1: "good (svWorld s1)" by (rule start_good [OF g c1])
  have others: "m \<noteq> ?n \<Longrightarrow> vms (svWorld s1) m = vms (svWorld s) m" for m by (rule start_frame [OF g c1])
  show ?thesis
  proof (cases a)
    case None
    then have "s' = s1" using v 1 by (simp add: startVM_def)
    then show ?thesis using start_ok [OF g] c1 None by simp
  next
    case (Some e)
    obtain q s2 where 2: "rtCall (rtGet (dpRt d) x ?n) s1 = (q, s2)" by fastforce
    have "\<exists>c. q = Inr c \<and> cState c = ''running'' \<and> s' = s2"
      using v 1 2 Some by (auto simp: startVM_def split: if_splits sum.splits)
    then obtain c where c: "q = Inr c" "cState c = ''running''" "s' = s2" by blast
    have c2: "rtGet rt x ?n (svWorld s1) = (Inr c, svWorld s2)" using rtCall_frame [OF 2] rt c by simp
    from get_good [OF g1 c2] get_ok [OF g1 c2] c others show ?thesis by auto
  qed
qed

end

text \<open>
  C28. A stop that answers success has stopped the virtual machine and kept it, recorded the
  gateway's intent in the entry and in the record on disk (so that a restarted driver still
  reports the sandbox as stopped), left the sandbox with the \<open>ContainerStopped\<close> condition
  and free for the next operation, and touched no other sandbox.
\<close>

theorem stop_success:
  assumes ok: "serverOk d s" and rt: "vm_runtime (dpRt d) vms good" and g: "good (svWorld s)"
    and op: "StopSandbox d orc i name s = (None, s')"
  shows "\<exists>r st. lookupLocked i name s = Some r
    \<and> vms (svWorld s') (rContainerName (enRec (getE s r))) = Some st \<and> st \<noteq> ''running''
    \<and> getE s' r = (getE s r)\<lparr>enRec := (enRec (getE s r))\<lparr>rStopped := True\<rparr>,
        enCond := stoppedCondition (orNow orc), enBusy := False\<rparr>
    \<and> recs d s' = (recs d s)(rID (enRec (getE s r)) \<mapsto> enRec (getE s' r))
    \<and> (\<forall>r'. r' \<noteq> r \<longrightarrow> getE s' r' = getE s r') \<and> serverOk d s'"
proof -
  have "lifecycleOp True d orc i name s = (None, s')" using op by (simp add: lifecycleOp_def)
  from lifecycleOp_success [OF this ok] obtain r s1 s2 where
    v: "vmOf True d False (enRec (getE s r)) s1 = (None, s2)" "svWorld s1 = svWorld s" "svWorld s' = svWorld s2"
    and rest: "lookupLocked i name s = Some r"
      "getE s' r = (getE s r)\<lparr>enRec := (enRec (getE s r))\<lparr>rStopped := True\<rparr>,
        enCond := condOf True (orNow orc), enBusy := False\<rparr>"
      "recs d s' = (recs d s)(rID (enRec (getE s r)) \<mapsto> enRec (getE s' r))"
      "\<forall>r'. r' \<noteq> r \<longrightarrow> getE s' r' = getE s r'" "serverOk d s'"
    by blast
  have "stopVM d False (enRec (getE s r)) s1 = (None, s2)" using v(1) by (simp add: vmOf_def)
  from vm_runtime.stopVM_state [OF rt refl _ this] g v rest show ?thesis by (auto simp: condOf_def)
qed

text \<open>
  A start that answers success leaves the virtual machine running, the record on disk
  without the stopped mark, the sandbox Ready and free, and every other sandbox and virtual
  machine as it was.
\<close>

theorem start_success:
  assumes ok: "serverOk d s" and rt: "vm_runtime (dpRt d) vms good" and g: "good (svWorld s)"
    and op: "StartSandbox d orc i name s = (None, s')"
  shows "\<exists>r. lookupLocked i name s = Some r
    \<and> vms (svWorld s') = (vms (svWorld s))(rContainerName (enRec (getE s r)) \<mapsto> ''running'')
    \<and> getE s' r = (getE s r)\<lparr>enRec := (enRec (getE s r))\<lparr>rStopped := False\<rparr>,
        enCond := readyTrueCondition (orNow orc), enBusy := False\<rparr>
    \<and> recs d s' = (recs d s)(rID (enRec (getE s r)) \<mapsto> enRec (getE s' r))
    \<and> (\<forall>r'. r' \<noteq> r \<longrightarrow> getE s' r' = getE s r') \<and> serverOk d s'"
proof -
  have "lifecycleOp False d orc i name s = (None, s')" using op by (simp add: lifecycleOp_def)
  from lifecycleOp_success [OF this ok] obtain r s1 s2 where
    v: "vmOf False d False (enRec (getE s r)) s1 = (None, s2)" "svWorld s1 = svWorld s" "svWorld s' = svWorld s2"
    and rest: "lookupLocked i name s = Some r"
      "getE s' r = (getE s r)\<lparr>enRec := (enRec (getE s r))\<lparr>rStopped := False\<rparr>,
        enCond := condOf False (orNow orc), enBusy := False\<rparr>"
      "recs d s' = (recs d s)(rID (enRec (getE s r)) \<mapsto> enRec (getE s' r))"
      "\<forall>r'. r' \<noteq> r \<longrightarrow> getE s' r' = getE s r'" "serverOk d s'"
    by blast
  have "startVM d False (enRec (getE s r)) s1 = (None, s2)" using v(1) by (simp add: vmOf_def)
  from vm_runtime.startVM_state [OF rt refl _ this] g v rest show ?thesis by (auto simp: condOf_def)
qed

subsection \<open>A concrete running sandbox\<close>

definition demoSpec :: RunSpec where
  "demoSpec = zeroRunSpec\<lparr>rsName := ''oshl-sb1'', rsImage := ''img@sha256:cd'',
     rsLabels := [(labelManagedBy, managedByValue), (labelSandboxID, ''sb1'')]\<rparr>"

definition demoRunning :: "Fake Server" where
  "demoRunning =
     (setE 0 (\<lambda>e. e\<lparr>enDone := ClosedChan, enCond := readyTrueCondition 1000\<rparr>) demoCreated)
       \<lparr>svWorld := snd (fakeRun False demoSpec demoWorld)\<rparr>"

lemma demoRunning_ok: "serverOk demoDeps demoRunning"
proof (rule serverOk_change [OF demo_ok])
  show "rID (enRec (getE demoRunning r)) = rID (enRec (getE demoCreated r))" for r
    using demo_live by (cases "r = 0") (simp_all add: demoRunning_def getE_def setE_def)
qed (simp_all add: demoRunning_def setE_def)

lemma demoRunning_world: "fakeGood (svWorld demoRunning)"
proof -
  have "fkContainers (svWorld demoRunning)
      = [(''oshl-sb1'', \<lparr>fcCtr = fakeCtrOf demoSpec, fcSpec = demoSpec, fcLogs = []\<rparr>)]"
    by code_simp
  moreover have "cID (fakeCtrOf demoSpec) = ''oshl-sb1''" by code_simp
  ultimately show ?thesis by (simp add: fakeGood_def goodCtrs_def)
qed

lemma demo_rt: "dpRt demoDeps = fakeRuntime"
  by (simp add: demoDeps_def)

lemma demo_vm: "vm_runtime (dpRt demoDeps) fakeVMs fakeGood"
  using fk.vm_runtime_axioms by (simp add: demo_rt)

theorem stop_success_witness:
  "\<exists>s' r. StopSandbox demoDeps demoOrc ''sb1'' [] demoRunning = (None, s')
     \<and> getE s' r = (getE demoRunning r)\<lparr>enRec := (enRec (getE demoRunning r))\<lparr>rStopped := True\<rparr>,
        enCond := stoppedCondition 1000, enBusy := False\<rparr>"
proof -
  have "fst (StopSandbox demoDeps demoOrc ''sb1'' [] demoRunning) = None" by code_simp
  then obtain s' where s: "StopSandbox demoDeps demoOrc ''sb1'' [] demoRunning = (None, s')"
    by (metis eq_fst_iff)
  have "orNow demoOrc = 1000" by (simp add: demoOrc_def)
  with stop_success [OF demoRunning_ok demo_vm demoRunning_world s] s show ?thesis by auto
qed

theorem start_success_witness:
  "\<exists>s'. StartSandbox demoDeps demoOrc ''sb1'' [] demoRunning = (None, s') \<and> serverOk demoDeps s'"
proof -
  have "fst (StartSandbox demoDeps demoOrc ''sb1'' [] demoRunning) = None" by code_simp
  then obtain s' where s: "StartSandbox demoDeps demoOrc ''sb1'' [] demoRunning = (None, s')"
    by (metis eq_fst_iff)
  with start_success [OF demoRunning_ok demo_vm demoRunning_world s] show ?thesis by auto
qed

end
