(* ===== verification/Reconcile.thy ===== *)
theory Reconcile
  imports Lifecycle
begin

section \<open>Reconciliation with the runtime (\<open>reconcile.go\<close>)\<close>

text \<open>
  What a restarted driver makes of its records and of the runtime's containers
  (\<open>Bootstrap\<close>), and the poller that keeps conditions truthful (\<open>pollOnce\<close>).
\<close>

subsection \<open>Console tails\<close>

definition pollInterval :: int where "pollInterval = 2000"

definition consoleTailLines :: int where "consoleTailLines = 20"
definition consoleTailMaxRunes :: nat where "consoleTailMaxRunes = 700"

definition ellipsis :: string where "ellipsis = [CHR 0xE2, CHR 0x80, CHR 0xA6]"

definition boundTail :: "string \<Rightarrow> string" where
  "boundTail out0 =
     (let out = TrimSpace out0; rs = runes out
      in if length rs > consoleTailMaxRunes
         then ellipsis @ concat (drop (length rs - consoleTailMaxRunes) rs) else out)"

definition consoleTail :: "'w Deps \<Rightarrow> bool \<Rightarrow> string \<Rightarrow> 'w Server \<Rightarrow> string \<times> 'w Server" where
  "consoleTail d ctx name s =
     (case rtCall (rtLogs (dpRt d) ctx name consoleTailLines) s of
        (Inl e, s1) \<Rightarrow> ([], s1)
      | (Inr out, s1) \<Rightarrow> (boundTail out, s1))"

text \<open>\<open>cond.Message += "; console tail:\n" + tail\<close>.\<close>

definition withTail :: "string \<Rightarrow> condition \<Rightarrow> condition" where
  "withTail tail c = c\<lparr>cdMessage := MTail (cdMessage c) tail\<rparr>"

subsection \<open>Bootstrap\<close>

text \<open>The condition a record is adopted with.\<close>

definition bootCondition ::
  "'w Deps \<Rightarrow> bool \<Rightarrow> int \<Rightarrow> Container list \<Rightarrow> Record \<Rightarrow> 'w Server \<Rightarrow> condition \<times> 'w Server" where
  "bootCondition d ctx now cs rc s =
     (case byName cs (rContainerName rc) of
        Some c \<Rightarrow>
          (if cState c = ''running'' then (readyTrueCondition now, s)
           else if rStopped rc then (stoppedCondition now, s)
           else (let (tail, s1) = consoleTail d ctx (rContainerName rc) s
                 in (if tail \<noteq> [] then withTail tail (exitedCondition now) else exitedCondition now, s1)))
      | None \<Rightarrow> (failedCondition (Msg ''sandbox VM missing after driver restart'') now, s))"

definition adopted :: "Record \<Rightarrow> condition \<Rightarrow> entry" where
  "adopted rc c =
     \<lparr>enRec = rc, enCond = c, enDeleting = False, enBusy = False, enCanceled = False, enDone = NoChan\<rparr>"

fun bootEntries ::
  "'w Deps \<Rightarrow> bool \<Rightarrow> int \<Rightarrow> Container list \<Rightarrow> Record list \<Rightarrow> 'w Server \<Rightarrow> entry list \<times> 'w Server" where
  "bootEntries d ctx now cs [] s = ([], s)"
| "bootEntries d ctx now cs (rc # rcs) s =
     (let (c, s1) = bootCondition d ctx now cs rc s;
          (es, s2) = bootEntries d ctx now cs rcs s1
      in (adopted rc c # es, s2))"

fun bootRegister :: "entry list \<Rightarrow> 'w Server \<Rightarrow> 'w Server" where
  "bootRegister [] s = s"
| "bootRegister (e # es) s =
     bootRegister es (s\<lparr>svHeap := svHeap s @ [e],
       svSandboxes := AList.update (rID (enRec e)) (length (svHeap s)) (svSandboxes s)\<rparr>)"

text \<open>A container of ours without a record.\<close>

definition isOrphan :: "string list \<Rightarrow> Container \<Rightarrow> bool" where
  "isOrphan known c \<longleftrightarrow>
     mapGet (cLabels c) labelManagedBy = managedByValue
     \<and> \<not> (mapGet (cLabels c) labelSandboxID \<noteq> [] \<and> mapGet (cLabels c) labelSandboxID \<in> set known)"

fun deleteOrphans ::
  "'w Deps \<Rightarrow> bool \<Rightarrow> string list \<Rightarrow> Container list \<Rightarrow> 'w Server \<Rightarrow> 'w Server" where
  "deleteOrphans d ctx known [] s = s"
| "deleteOrphans d ctx known (c # cs) s =
     (if isOrphan known c
      then deleteOrphans d ctx known cs (snd (rtCall (rtDelete (dpRt d) ctx (cID c)) s))
      else deleteOrphans d ctx known cs s)"

definition Bootstrap :: "'w Deps \<Rightarrow> Oracle \<Rightarrow> bool \<Rightarrow> 'w Server \<Rightarrow> err option \<times> 'w Server" where
  "Bootstrap d orc ctx s =
     (case ListRecords (dpRoot d) (svDisk s) of
        Inl e \<Rightarrow> (Some e, s)
      | Inr (records, skipped) \<Rightarrow>
          (case rtCall (rtList (dpRt d) ctx True) s of
             (Inl e, s1) \<Rightarrow> (Some e, s1)
           | (Inr containers, s1) \<Rightarrow>
               (let (entries, s2) = bootEntries d ctx (orNow orc) containers records s1;
                    s3 = bootRegister entries s2
                in (None, deleteOrphans d ctx (keysOf (svSandboxes s3)) containers s3))))"

subsection \<open>The poller\<close>

definition pollable :: "entry \<Rightarrow> bool" where
  "pollable e \<longleftrightarrow> \<not> enDeleting e \<and> \<not> enBusy e \<and> provisionDone e"

definition hasPollable :: "'w Server \<Rightarrow> bool" where
  "hasPollable s = list_ex (\<lambda>(i, r). pollable (getE s r)) (svSandboxes s)"

text \<open>The condition observed, and whether the stopped mark is out of date; \<open>None\<close>: keep.\<close>

definition observe :: "int \<Rightarrow> Container list \<Rightarrow> entry \<Rightarrow> (condition \<times> bool) option" where
  "observe now cs e =
     (case byName cs (rContainerName (enRec e)) of
        Some c \<Rightarrow>
          (if cState c = ''running'' then Some (readyTrueCondition now, rStopped (enRec e))
           else if rStopped (enRec e) then Some (stoppedCondition now, False)
           else Some (exitedCondition now, False))
      | None \<Rightarrow>
          (if cdReason (enCond e) = reasonProvisioningFailed then None
           else Some (failedCondition (Msg ''sandbox VM disappeared from the runtime'') now, False)))"

text \<open>One entry: its new value, and whether it changed, exited, and must be persisted.\<close>

definition pollStep :: "int \<Rightarrow> Container list \<Rightarrow> entry \<Rightarrow> entry \<times> bool \<times> bool \<times> bool" where
  "pollStep now cs e =
     (if \<not> pollable e then (e, False, False, False)
      else (case observe now cs e of
              None \<Rightarrow> (e, False, False, False)
            | Some (nx, clear) \<Rightarrow>
                (let e1 = (if clear then e\<lparr>enRec := (enRec e)\<lparr>rStopped := False\<rparr>\<rparr> else e);
                     ch = (cdStatus nx \<noteq> cdStatus (enCond e) \<or> cdReason nx \<noteq> cdReason (enCond e))
                 in (if ch then e1\<lparr>enCond := nx\<rparr> else e1, ch,
                     ch \<and> cdReason nx = reasonContainerExited, clear))))"

text \<open>The locked scan; the lists of changed, exited and to be persisted entries.\<close>

fun pollScan ::
  "int \<Rightarrow> Container list \<Rightarrow> (string \<times> nat) list \<Rightarrow> 'w Server \<Rightarrow> 'w Server \<times> nat list \<times> nat list \<times> nat list" where
  "pollScan now cs [] s = (s, [], [], [])"
| "pollScan now cs ((i, r) # irs) s =
     (let (e, ch, ex, pe) = pollStep now cs (getE s r);
          (s', chs, exs, pes) = pollScan now cs irs (setE r (\<lambda>_. e) s)
      in (s', if ch then r # chs else chs, if ex then r # exs else exs, if pe then r # pes else pes))"

fun pollPersist :: "'w Deps \<Rightarrow> Oracle \<Rightarrow> nat list \<Rightarrow> 'w Server \<Rightarrow> 'w Server" where
  "pollPersist d orc [] s = s"
| "pollPersist d orc (r # rs) s = pollPersist d orc rs (snd (saveRecord d orc (enRec (getE s r)) s))"

definition pollTail :: "'w Deps \<Rightarrow> Oracle \<Rightarrow> bool \<Rightarrow> nat \<Rightarrow> 'w Server \<Rightarrow> 'w Server" where
  "pollTail d orc ctx r s =
     (let (tail, s1) = consoleTail d ctx (rContainerName (enRec (getE s r))) s
      in if tail = [] then s1
         else if cdReason (enCond (getE s1 r)) = reasonContainerExited \<and> \<not> enDeleting (getE s1 r)
         then publishPlatformEvent (orNow orc) (rID (enRec (getE s1 r))) ''Warning'' reasonContainerExited
                (MTail (Msg ''Sandbox VM exited'') tail)
                (setE r (\<lambda>e. e\<lparr>enCond := withTail tail (enCond e)\<rparr>) s1)
         else s1)"

definition pollOnce :: "'w Deps \<Rightarrow> Oracle \<Rightarrow> bool \<Rightarrow> 'w Server \<Rightarrow> 'w Server" where
  "pollOnce d orc ctx s =
     (if \<not> hasPollable s then s
      else (case rtCall (rtList (dpRt d) ctx True) s of
              (Inl e, s1) \<Rightarrow> s1
            | (Inr cs, s1) \<Rightarrow>
                (let (s2, changed, exited, persist) = pollScan (orNow orc) cs (svSandboxes s1) s1;
                     s3 = pollPersist d orc persist s2;
                     s4 = fold (pollTail d orc ctx) exited s3
                 in fold (publishSandbox d) changed s4)))"

subsection \<open>Console tails are bounded\<close>

text \<open>
  Whatever a guest prints, the excerpt attached to conditions and events has at most 700
  runes after its ellipsis, hence at most 2803 bytes when it was cut, and is the trimmed
  output itself otherwise.
\<close>

theorem boundTail_bounded:
  "boundTail out = TrimSpace out \<and> length (runes (TrimSpace out)) \<le> 700
   \<or> (\<exists>rs. boundTail out = ellipsis @ concat rs \<and> length rs = 700 \<and> suffix rs (runes (TrimSpace out))
        \<and> length (boundTail out) \<le> 2803)"
proof (cases "length (runes (TrimSpace out)) > consoleTailMaxRunes")
  case False
  then show ?thesis by (simp add: boundTail_def Let_def consoleTailMaxRunes_def)
next
  case True
  define rs where "rs = drop (length (runes (TrimSpace out)) - consoleTailMaxRunes) (runes (TrimSpace out))"
  have b: "boundTail out = ellipsis @ concat rs" using True by (simp add: boundTail_def Let_def rs_def)
  have l: "length rs = 700" using True by (simp add: rs_def consoleTailMaxRunes_def)
  have s: "suffix rs (runes (TrimSpace out))" unfolding rs_def by (rule suffix_drop)
  have "length (concat xs) \<le> 4 * length xs" if "set xs \<subseteq> set (runes (TrimSpace out))" for xs
    using that by (induction xs) (auto dest!: runes_wf)
  from this [of rs] s l have "length (concat rs) \<le> 2800" by (auto dest: set_mono_suffix)
  then have "length (boundTail out) \<le> 2803" by (simp add: b ellipsis_def)
  then show ?thesis using b l s by blast
qed

subsection \<open>Adoption\<close>

text \<open>Steps that change nothing but the world.\<close>

definition worldOnly :: "'w Server \<Rightarrow> 'w Server \<Rightarrow> bool" where
  "worldOnly s s' \<longleftrightarrow> s' = s\<lparr>svWorld := svWorld s'\<rparr>"

lemma worldOnly_refl: "worldOnly s s"
  by (simp add: worldOnly_def)

lemma worldOnly_trans: "worldOnly s s1 \<Longrightarrow> worldOnly s1 s2 \<Longrightarrow> worldOnly s s2"
  by (cases s; cases s1; cases s2) (simp add: worldOnly_def)

lemma worldOnly_fields:
  assumes "worldOnly s s'"
  shows "svDisk s' = svDisk s" "svHub s' = svHub s" "svHeap s' = svHeap s"
    "svSandboxes s' = svSandboxes s" "svClosed s' = svClosed s" "getE s' r = getE s r"
  using assms by (cases s; cases s'; simp add: worldOnly_def getE_def)+

lemma worldOnly_rtCall: "worldOnly s (snd (rtCall f s))"
  by (simp add: rtCall_def worldOnly_def split: prod.split)

lemma worldOnly_tail: "worldOnly s (snd (consoleTail d ctx name s))"
proof -
  have "snd (consoleTail d ctx name s) = snd (rtCall (rtLogs (dpRt d) ctx name consoleTailLines) s)"
    by (simp add: consoleTail_def split: prod.split sum.split)
  then show ?thesis using worldOnly_rtCall by metis
qed

lemma worldOnly_orphans: "worldOnly s (deleteOrphans d ctx known cs s)"
  by (induction d ctx known cs s rule: deleteOrphans.induct)
    (auto intro: worldOnly_refl worldOnly_trans [OF worldOnly_rtCall])

text \<open>The reason a record is adopted with.\<close>

definition bootReason :: "Container list \<Rightarrow> Record \<Rightarrow> string" where
  "bootReason cs rc =
     (case byName cs (rContainerName rc) of
        None \<Rightarrow> reasonProvisioningFailed
      | Some c \<Rightarrow> (if cState c = ''running'' then reasonBackendReady
                   else if rStopped rc then reasonContainerStopped else reasonContainerExited))"

lemma bootCondition_reason:
  assumes "bootCondition d ctx now cs rc s = (c, s1)"
  shows "worldOnly s s1 \<and> cdReason c = bootReason cs rc
    \<and> (cdStatus c = ''True'') = (bootReason cs rc = reasonBackendReady)"
proof -
  obtain tail s2 where t: "consoleTail d ctx (rContainerName rc) s = (tail, s2)" by fastforce
  have w: "worldOnly s s2" using worldOnly_tail [of s d ctx "rContainerName rc"] t by simp
  show ?thesis
    using assms t w worldOnly_refl [of s]
    by (auto simp: bootCondition_def bootReason_def condition_defs reason_defs withTail_def
        split: option.splits if_splits)
qed

lemma bootEntries_facts:
  assumes "bootEntries d ctx now cs rcs s = (es, s')"
  shows "worldOnly s s' \<and> map enRec es = rcs
    \<and> (\<forall>e \<in> set es. \<exists>c. e = adopted (enRec e) c \<and> cdReason c = bootReason cs (enRec e)
          \<and> (cdStatus c = ''True'') = (bootReason cs (enRec e) = reasonBackendReady))"
  using assms
proof (induction rcs arbitrary: s es)
  case Nil
  then show ?case by (simp add: worldOnly_refl)
next
  case (Cons rc rcs)
  obtain c s1 where 1: "bootCondition d ctx now cs rc s = (c, s1)" by fastforce
  obtain es' s2 where 2: "bootEntries d ctx now cs rcs s1 = (es', s2)" by fastforce
  have e: "es = adopted rc c # es'" "s' = s2" using Cons.prems 1 2 by simp_all
  have r: "enRec (adopted rc c) = rc" by (simp add: adopted_def)
  show ?case
    using bootCondition_reason [OF 1] Cons.IH [OF 2 [folded e(2)]] e r
    by (auto intro: worldOnly_trans)
qed

text \<open>The registry seen through its references.\<close>

definition regView :: "'w Server \<Rightarrow> string \<Rightarrow> entry option" where
  "regView s i = map_option (getE s) (map_of (svSandboxes s) i)"

lemma bootRegister_frame:
  "svWorld (bootRegister es s) = svWorld s \<and> svDisk (bootRegister es s) = svDisk s
     \<and> svHub (bootRegister es s) = svHub s"
  by (induction es s rule: bootRegister.induct) simp_all

lemma bootRegister_view:
  assumes "registryOk s" and "distinct (map (\<lambda>e. rID (enRec e)) es)"
  shows "registryOk (bootRegister es s)
    \<and> (\<forall>e \<in> set es. regView (bootRegister es s) (rID (enRec e)) = Some e)
    \<and> (\<forall>i. i \<notin> (\<lambda>e. rID (enRec e)) ` set es \<longrightarrow> regView (bootRegister es s) i = regView s i)"
  using assms
proof (induction es arbitrary: s)
  case Nil
  then show ?case by simp
next
  case (Cons e es)
  define s1 where "s1 = s\<lparr>svHeap := svHeap s @ [e],
       svSandboxes := AList.update (rID (enRec e)) (length (svHeap s)) (svSandboxes s)\<rparr>"
  have live: "r < length (svHeap s)" "rID (enRec (getE s r)) = i"
    if "map_of (svSandboxes s) i = Some r" for i r
    using registryOk_lookup [OF Cons.prems(1) that] by simp_all
  have get: "getE s1 r = getE s r" if "r < length (svHeap s)" for r
    using that by (simp add: s1_def getE_def nth_append)
  have new: "getE s1 (length (svHeap s)) = e" by (simp add: s1_def getE_def)
  have m: "map_of (svSandboxes s1) = (map_of (svSandboxes s))(rID (enRec e) \<mapsto> length (svHeap s))"
    by (simp add: s1_def)
  have "registryOk s1"
    unfolding registryOk_def
  proof (intro conjI allI impI)
    have "distinct (keysOf (svSandboxes s))" using Cons.prems(1) unfolding registryOk_def by (rule conjunct1)
    then show "distinct (keysOf (svSandboxes s1))" by (simp add: s1_def distinct_keysOf_update)
  next
    fix i r assume i: "map_of (svSandboxes s1) i = Some r"
    show "r < length (svHeap s1)" using i m live by (auto simp: s1_def less_Suc_eq split: if_splits)
    show "rID (enRec (getE s1 r)) = i" using i m live get new by (auto split: if_splits)
  qed
  moreover have "distinct (map (\<lambda>e. rID (enRec e)) es)" using Cons.prems(2) by simp
  ultimately have ih: "registryOk (bootRegister es s1)"
    "\<forall>e \<in> set es. regView (bootRegister es s1) (rID (enRec e)) = Some e"
    "\<forall>i. i \<notin> (\<lambda>e. rID (enRec e)) ` set es \<longrightarrow> regView (bootRegister es s1) i = regView s1 i"
    using Cons.IH by blast+
  have v: "regView s1 i = (if i = rID (enRec e) then Some e else regView s i)" for i
    using m new get live(1) by (cases "map_of (svSandboxes s) i") (simp_all add: regView_def)
  have "rID (enRec e) \<notin> (\<lambda>e. rID (enRec e)) ` set es" using Cons.prems(2) by simp
  then have "regView (bootRegister es s1) (rID (enRec e)) = Some e" using ih(3) v by simp
  moreover have "bootRegister (e # es) s = bootRegister es s1" by (simp add: s1_def)
  ultimately show ?case using ih v by auto
qed

text \<open>What a successful bootstrap consists of.\<close>

lemma Bootstrap_ok:
  assumes "Bootstrap d orc ctx s = (None, s')"
  obtains records skipped cs s1 es s2 s3 where
    "ListRecords (dpRoot d) (svDisk s) = Inr (records, skipped)"
    "rtCall (rtList (dpRt d) ctx True) s = (Inr cs, s1)"
    "bootEntries d ctx (orNow orc) cs records s1 = (es, s2)"
    "s3 = bootRegister es s2" "s' = deleteOrphans d ctx (keysOf (svSandboxes s3)) cs s3"
  using assms by (auto simp: Bootstrap_def Let_def split: sum.splits prod.splits)

lemma Bootstrap_adopts:
  assumes store: "storeOk (dpRoot d) (svDisk s)" and fresh: "svSandboxes s = []" and hub: "hubOk (svHub s)"
    and boot: "Bootstrap d orc ctx s = (None, s')"
  shows "\<exists>cs w. rtList (dpRt d) ctx True (svWorld s) = (Inr cs, w)
    \<and> svDisk s' = svDisk s \<and> serverOk d s'
    \<and> (\<forall>i. case recs d s i of
             None \<Rightarrow> regView s' i = None
           | Some rc \<Rightarrow> (\<exists>c. regView s' i = Some (adopted rc c) \<and> cdReason c = bootReason cs rc
               \<and> (cdStatus c = ''True'') = (bootReason cs rc = reasonBackendReady)))"
proof (rule Bootstrap_ok [OF boot])
  fix records skipped cs s1 es s2 s3
  assume l: "ListRecords (dpRoot d) (svDisk s) = Inr (records, skipped)"
    and rl: "rtCall (rtList (dpRt d) ctx True) s = (Inr cs, s1)"
    and be: "bootEntries d ctx (orNow orc) cs records s1 = (es, s2)"
    and s3: "s3 = bootRegister es s2" and s': "s' = deleteOrphans d ctx (keysOf (svSandboxes s3)) cs s3"
  note f = bootEntries_facts [OF be]
  have "worldOnly s s1" using worldOnly_rtCall [of s "rtList (dpRt d) ctx True"] rl by simp
  then have w: "worldOnly s s2" "worldOnly s3 s'"
    using f worldOnly_trans by (blast, simp add: s' worldOnly_orphans)
  note w2 = worldOnly_fields [OF w(1)] and w3 = worldOnly_fields [OF w(2)]
  have recs: "distinct (map rID records)" "r \<in> set records \<longleftrightarrow> recs d s (rID r) = Some r" for r
    using List_records [OF store] l by auto
  have "map rID (map enRec es) = map rID records" using f by simp
  then have ids: "map (\<lambda>e. rID (enRec e)) es = map rID records" by (simp add: comp_def)
  have "registryOk s2" using w2 fresh by (simp add: registryOk_def)
  from bootRegister_view [OF this] recs(1) ids have
    v: "registryOk s3" "\<forall>e \<in> set es. regView s3 (rID (enRec e)) = Some e"
      "\<forall>i. i \<notin> (\<lambda>e. rID (enRec e)) ` set es \<longrightarrow> regView s3 i = regView s2 i"
    by (simp_all add: s3)
  have none: "regView s2 i = None" for i using w2 fresh by (simp add: regView_def)
  have view: "regView s' i = regView s3 i" for i
    using w3 by (simp add: regView_def option.map_comp comp_def cong: option.map_cong)
  have fr: "svDisk s3 = svDisk s" "svHub s3 = svHub s" using bootRegister_frame [of es s2] s3 w2 by simp_all
  have each: "case recs d s i of
             None \<Rightarrow> regView s' i = None
           | Some rc \<Rightarrow> (\<exists>c. regView s' i = Some (adopted rc c) \<and> cdReason c = bootReason cs rc
               \<and> (cdStatus c = ''True'') = (bootReason cs rc = reasonBackendReady))" for i
  proof (cases "recs d s i")
    case None
    have "i \<notin> rID ` set records" using recs(2) None by auto
    then have "i \<notin> (\<lambda>e. rID (enRec e)) ` set es" using ids by (metis list.set_map)
    then show ?thesis using None v(3) none view by simp
  next
    case (Some rc)
    then have "rID rc = i" using store storeOkD(1) by blast
    then have "rc \<in> set records" using recs(2) Some by simp
    then obtain e where e: "e \<in> set es" "enRec e = rc" using f by (metis (no_types, lifting) image_iff list.set_map)
    then obtain c where c: "e = adopted rc c" "cdReason c = bootReason cs rc"
      "(cdStatus c = ''True'') = (bootReason cs rc = reasonBackendReady)"
      using f by blast
    have "regView s' i = Some e" using v(2) e view \<open>rID rc = i\<close> by auto
    then show ?thesis using c Some by auto
  qed
  have "registryOk s'" using v(1) w3 by (simp add: registryOk_def)
  moreover have "recs d s i \<noteq> None" if "map_of (svSandboxes s') i \<noteq> None" for i
    using each [of i] that by (cases "recs d s i") (auto simp: regView_def)
  ultimately have "serverOk d s'" using store hub w3 fr by (simp add: serverOk_def)
  moreover have "rtList (dpRt d) ctx True (svWorld s) = (Inr cs, svWorld s1)" using rtCall_frame [OF rl] by simp
  ultimately show ?thesis using each w3 fr by auto
qed

text \<open>
  C4. A driver that starts adopts exactly what its store holds: after a successful bootstrap
  the registry has one entry per record and no other, carrying that record, free of any
  operation, with the condition the runtime's listing and the record's stopped mark call
  for (running: Ready; stopped on purpose: ContainerStopped; otherwise not running:
  ContainerExited; no container: ProvisioningFailed). No record is changed.
\<close>

theorem bootstrap_adopts:
  assumes store: "storeOk (dpRoot d) (svDisk s)" and fresh: "svSandboxes s = []" and hub: "hubOk (svHub s)"
    and boot: "Bootstrap d orc ctx s = (None, s')"
  shows "\<exists>cs w. rtList (dpRt d) ctx True (svWorld s) = (Inr cs, w)
    \<and> svDisk s' = svDisk s \<and> serverOk d s'
    \<and> (\<forall>i. case recs d s i of
             None \<Rightarrow> regView s' i = None
           | Some rc \<Rightarrow> (\<exists>c. regView s' i = Some (adopted rc c) \<and> cdReason c = bootReason cs rc
               \<and> (cdStatus c = ''True'') = (bootReason cs rc = reasonBackendReady)))"
  using assms by (rule Bootstrap_adopts)

definition demoRestart :: "Fake Server" where
  "demoRestart = newServer (svWorld demoRunning) (svDisk demoRunning)"

lemma demoRestart_boot: "fst (Bootstrap demoDeps demoOrc False demoRestart) = None"
  by code_simp

theorem bootstrap_adopts_witness:
  "\<exists>s' e. Bootstrap demoDeps demoOrc False demoRestart = (None, s') \<and> regView s' ''sb1'' = Some e
     \<and> serverOk demoDeps s'"
proof -
  obtain s' where b: "Bootstrap demoDeps demoOrc False demoRestart = (None, s')"
    using demoRestart_boot by (metis eq_fst_iff)
  have st: "storeOk (dpRoot demoDeps) (svDisk demoRestart)"
    using demoRunning_ok by (simp add: serverOk_def demoRestart_def newServer_def)
  have h: "hubOk (svHub demoRestart)" "svSandboxes demoRestart = []"
    by (simp_all add: demoRestart_def newServer_def hubOk_new)
  have r: "recs demoDeps demoRestart ''sb1'' \<noteq> None" by code_simp
  from bootstrap_adopts [OF st h(2,1) b] have
    "case recs demoDeps demoRestart ''sb1'' of None \<Rightarrow> True | Some rc \<Rightarrow> \<exists>c. regView s' ''sb1'' = Some (adopted rc c)"
    "serverOk demoDeps s'"
    by (auto split: option.splits)
  then show ?thesis using b r by (auto split: option.splits)
qed

subsection \<open>Orphans\<close>

lemma orphans_fake:
  assumes "dpRt d = fakeRuntime"
  shows "map_of (fkContainers (svWorld (deleteOrphans d ctx known cs s))) n
    = (if \<exists>c \<in> set cs. isOrphan known c \<and> cID c = n then None else map_of (fkContainers (svWorld s)) n)"
proof (induction cs arbitrary: s)
  case Nil
  then show ?case by simp
next
  case (Cons c cs)
  have "map_of (fkContainers (svWorld (snd (rtCall (rtDelete (dpRt d) ctx (cID c)) s)))) m
      = (if m = cID c then None else map_of (fkContainers (svWorld s)) m)" for m
    by (simp add: assms rtCall_def fakeDelete_def delete_conv split: option.split)
  then show ?case using Cons.IH by (cases "isOrphan known c") auto
qed

lemma tail_fake:
  "dpRt d = fakeRuntime \<Longrightarrow> svWorld (snd (consoleTail d ctx name s)) = svWorld s"
  by (auto simp: consoleTail_def rtCall_def fakeLogs_def split: prod.split option.split sum.split)

lemma bootEntries_fake:
  assumes "dpRt d = fakeRuntime"
  shows "svWorld (snd (bootEntries d ctx now cs rcs s)) = svWorld s"
proof (induction rcs arbitrary: s)
  case (Cons rc rcs)
  obtain c s1 where 1: "bootCondition d ctx now cs rc s = (c, s1)" by fastforce
  have "svWorld s1 = svWorld s"
    using 1 tail_fake [OF assms, of ctx "rContainerName rc" s]
    by (auto simp: bootCondition_def split: option.splits if_splits prod.splits)
  moreover obtain es s2 where "bootEntries d ctx now cs rcs s1 = (es, s2)" by fastforce
  ultimately show ?case using Cons.IH [of s1] 1 by simp
qed simp

lemma Bootstrap_orphans:
  assumes rt: "dpRt d = fakeRuntime" and g: "fakeGood (svWorld s)"
    and boot: "Bootstrap d orc ctx s = (None, s')"
  shows "map_of (fkContainers (svWorld s')) n =
    (case map_of (fkContainers (svWorld s)) n of
       None \<Rightarrow> None
     | Some c \<Rightarrow>
         let lbls = cLabels (fcCtr c); owner = mapGet lbls labelSandboxID
         in if mapGet lbls labelManagedBy = managedByValue
               \<and> (owner = [] \<or> map_of (svSandboxes s') owner = None) then None else Some c)"
proof (rule Bootstrap_ok [OF boot])
  fix records skipped cs s1 es s2 s3
  assume rl: "rtCall (rtList (dpRt d) ctx True) s = (Inr cs, s1)"
    and be: "bootEntries d ctx (orNow orc) cs records s1 = (es, s2)"
    and s3: "s3 = bootRegister es s2" and s': "s' = deleteOrphans d ctx (keysOf (svSandboxes s3)) cs s3"
  let ?m = "fkContainers (svWorld s)"
  have cs: "cs = map (\<lambda>p. fcCtr (snd p)) ?m" "svWorld s1 = svWorld s"
    using rl by (auto simp: rt rtCall_def fakeList_def)
  have w: "svWorld s3 = svWorld s"
    using bootRegister_frame [of es s2] bootEntries_fake [OF rt, of ctx "orNow orc" cs records s1] be cs s3 by simp
  have k: "svSandboxes s' = svSandboxes s3"
    using worldOnly_fields(4) [OF worldOnly_orphans] s' by metis
  have good: "distinct (keysOf ?m)" "\<And>n c. map_of ?m n = Some c \<Longrightarrow> cID (fcCtr c) = n"
    using g by (auto simp: fakeGood_def goodCtrs_def)
  have c: "(\<exists>c \<in> set cs. P c \<and> cID c = n) \<longleftrightarrow> (\<exists>fc. map_of ?m n = Some fc \<and> P (fcCtr fc))" for P
  proof
    assume "\<exists>c \<in> set cs. P c \<and> cID c = n"
    then obtain k fc where "(k, fc) \<in> set ?m" "P (fcCtr fc)" "cID (fcCtr fc) = n" by (auto simp: cs)
    then show "\<exists>fc. map_of ?m n = Some fc \<and> P (fcCtr fc)" using good by (metis set_pair_map_of)
  next
    assume "\<exists>fc. map_of ?m n = Some fc \<and> P (fcCtr fc)"
    then obtain fc where fc: "map_of ?m n = Some fc" "P (fcCtr fc)" by blast
    then have "(n, fc) \<in> set ?m" by (simp add: map_of_SomeD)
    then have "fcCtr fc \<in> set cs" by (force simp: cs)
    then show "\<exists>c \<in> set cs. P c \<and> cID c = n" using fc good(2) by blast
  qed
  show ?thesis
    unfolding k unfolding s' orphans_fake [OF rt] c w
    by (auto simp: isOrphan_def Let_def keysOf_def map_of_eq_None_iff split: option.split)
qed

context vm_runtime
begin

lemma orphans_vms:
  assumes rt: "dpRt d = rt"
  shows "good (svWorld s) \<Longrightarrow> good (svWorld (deleteOrphans d ctx known cs s))
    \<and> ((\<forall>c \<in> set cs. cID c = n \<longrightarrow> \<not> isOrphan known c) \<longrightarrow>
         vms (svWorld (deleteOrphans d ctx known cs s)) n = vms (svWorld s) n)"
proof (induction cs arbitrary: s)
  case (Cons c cs)
  show ?case
  proof (cases "isOrphan known c")
    case True
    obtain a s1 where 1: "rtCall (rtDelete (dpRt d) ctx (cID c)) s = (a, s1)" by fastforce
    have c1: "rtDelete rt ctx (cID c) (svWorld s) = (a, svWorld s1)" using rtCall_frame [OF 1] rt by simp
    have g1: "good (svWorld s1)" by (rule delete_good [OF Cons.prems c1])
    have keep: "n \<noteq> cID c \<Longrightarrow> vms (svWorld s1) n = vms (svWorld s) n" by (rule delete_frame [OF Cons.prems c1])
    show ?thesis using Cons.IH [OF g1] True 1 keep by auto
  next
    case False
    then show ?thesis using Cons.IH [OF Cons.prems] by simp
  qed
qed simp

text \<open>A runtime that does what it is told: a deletion works, or there is nothing to delete.\<close>

lemma orphans_gone:
  assumes rt: "dpRt d = rt"
    and obeys: "\<And>n w. good w \<Longrightarrow> case fst (rtDelete rt ctx n w) of None \<Rightarrow> True | Some e \<Rightarrow> isNotFoundErr e"
  shows "good (svWorld s) \<Longrightarrow> vms (svWorld (deleteOrphans d ctx known cs s)) n
    = (if \<exists>c \<in> set cs. isOrphan known c \<and> cID c = n then None else vms (svWorld s) n)"
proof (induction cs arbitrary: s)
  case (Cons c cs)
  show ?case
  proof (cases "isOrphan known c")
    case True
    obtain a s1 where 1: "rtCall (rtDelete (dpRt d) ctx (cID c)) s = (a, s1)" by fastforce
    have c1: "rtDelete rt ctx (cID c) (svWorld s) = (a, svWorld s1)" using rtCall_frame [OF 1] rt by simp
    have g1: "good (svWorld s1)" by (rule delete_good [OF Cons.prems c1])
    have "vms (svWorld s1) = (vms (svWorld s))(cID c := None)"
      using obeys [OF Cons.prems, of "cID c"] c1 delete_ok [OF Cons.prems] delete_notfound [OF Cons.prems]
      by (cases a) (auto simp: fun_upd_idem)
    then show ?thesis using Cons.IH [OF g1] True 1 by auto
  next
    case False
    then show ?thesis using Cons.IH [OF Cons.prems] by simp
  qed
qed simp

lemma tail_vms:
  assumes "dpRt d = rt" and "good (svWorld s)"
  shows "good (svWorld (snd (consoleTail d ctx name s))) \<and> vms (svWorld (snd (consoleTail d ctx name s))) = vms (svWorld s)"
proof -
  obtain a s1 where 1: "rtCall (rtLogs (dpRt d) ctx name consoleTailLines) s = (a, s1)" by fastforce
  then have "rtLogs rt ctx name consoleTailLines (svWorld s) = (a, svWorld s1)" using rtCall_frame [OF 1] assms(1) by simp
  from logs_good [OF assms(2) this] 1 show ?thesis by (cases a) (simp_all add: consoleTail_def)
qed

lemma bootEntries_vms:
  assumes "dpRt d = rt"
  shows "good (svWorld s) \<Longrightarrow> good (svWorld (snd (bootEntries d ctx now cs rcs s)))
    \<and> vms (svWorld (snd (bootEntries d ctx now cs rcs s))) = vms (svWorld s)"
proof (induction rcs arbitrary: s)
  case (Cons rc rcs)
  obtain c s1 where 1: "bootCondition d ctx now cs rc s = (c, s1)" by fastforce
  have "good (svWorld s1) \<and> vms (svWorld s1) = vms (svWorld s)"
    using 1 tail_vms [OF assms Cons.prems, of ctx "rContainerName rc"] Cons.prems
    by (auto simp: bootCondition_def split: option.splits if_splits prod.splits)
  moreover obtain es s2 where "bootEntries d ctx now cs rcs s1 = (es, s2)" by fastforce
  ultimately show ?case using Cons.IH [of s1] 1 by simp
qed simp

end

text \<open>Whether a listed container is the driver's own and belongs to no registered sandbox.\<close>

definition strayed :: "'w Server \<Rightarrow> Container \<Rightarrow> bool" where
  "strayed s c \<longleftrightarrow>
     mapGet (cLabels c) labelManagedBy = managedByValue
     \<and> (mapGet (cLabels c) labelSandboxID = [] \<or> map_of (svSandboxes s) (mapGet (cLabels c) labelSandboxID) = None)"

text \<open>
  C5. Orphan clean-up removes the containers that carry the driver's own label without
  belonging to an adopted sandbox, and no other: whatever the runtime does with the deletions,
  a container of another owner and an adopted sandbox's are left exactly as they were; and
  when it does what it is told, every stray one is gone.
\<close>

theorem bootstrap_orphans:
  assumes rt: "vm_runtime (dpRt d) vms good" and g: "good (svWorld s)"
    and boot: "Bootstrap d orc ctx s = (None, s')"
  shows "\<exists>cs w. rtList (dpRt d) ctx True (svWorld s) = (Inr cs, w)
    \<and> vms (svWorld s) n = map_option cState (byName cs n)
    \<and> ((\<forall>c \<in> set cs. cID c = n \<longrightarrow> \<not> strayed s' c) \<longrightarrow> vms (svWorld s') n = vms (svWorld s) n)
    \<and> ((\<forall>m w. good w \<longrightarrow> (case fst (rtDelete (dpRt d) ctx m w) of None \<Rightarrow> True | Some e \<Rightarrow> isNotFoundErr e)) \<longrightarrow>
         (\<exists>c \<in> set cs. cID c = n \<and> strayed s' c) \<longrightarrow> vms (svWorld s') n = None)"
proof (rule Bootstrap_ok [OF boot])
  fix records skipped cs s1 es s2 s3
  assume rl: "rtCall (rtList (dpRt d) ctx True) s = (Inr cs, s1)"
    and be: "bootEntries d ctx (orNow orc) cs records s1 = (es, s2)"
    and s3: "s3 = bootRegister es s2" and s': "s' = deleteOrphans d ctx (keysOf (svSandboxes s3)) cs s3"
  have l: "rtList (dpRt d) ctx True (svWorld s) = (Inr cs, svWorld s1)" using rtCall_frame [OF rl] by simp
  note l1 = vm_runtime.list_good [OF rt g l] and l2 = vm_runtime.list_all [OF rt g l]
  have w: "good (svWorld s3)" "vms (svWorld s3) = vms (svWorld s)"
    using vm_runtime.bootEntries_vms [OF rt refl, of s1 ctx "orNow orc" cs records] l1 be
      bootRegister_frame [of es s2] s3 by simp_all
  have "svSandboxes s' = svSandboxes s3"
    using worldOnly_fields(4) [OF worldOnly_orphans] s' by metis
  then have st: "isOrphan (keysOf (svSandboxes s3)) c = strayed s' c" for c
    by (auto simp: isOrphan_def strayed_def keysOf_def map_of_eq_None_iff)
  have "vms (svWorld s') n = vms (svWorld s) n" if "\<forall>c \<in> set cs. cID c = n \<longrightarrow> \<not> strayed s' c"
    using vm_runtime.orphans_vms [OF rt refl w(1), of ctx "keysOf (svSandboxes s3)" cs n] that w(2)
    unfolding st s' [symmetric] by simp
  moreover have "vms (svWorld s') n = None"
    if "\<forall>m w. good w \<longrightarrow> (case fst (rtDelete (dpRt d) ctx m w) of None \<Rightarrow> True | Some e \<Rightarrow> isNotFoundErr e)"
      "\<exists>c \<in> set cs. cID c = n \<and> strayed s' c"
    using vm_runtime.orphans_gone [OF rt refl _ w(1), of ctx "keysOf (svSandboxes s3)" cs n] that
    unfolding st s' [symmetric] by auto
  ultimately show ?thesis using l l2 by blast
qed

text \<open>The runtime a restart may find: a container of ours without a record, and one of another tool.\<close>

definition demoCtr :: "string \<Rightarrow> strmap \<Rightarrow> fakeContainer" where
  "demoCtr n lbls =
     \<lparr>fcCtr = \<lparr>cID = n, cState = ''running'', cImageRef = [], cImageDigest = [], cLabels = lbls,
        cNetworks = [], cCPUs = 1, cMemoryBytes = 0, cCreatedAt = [], cStartedAt = []\<rparr>,
      fcSpec = zeroRunSpec, fcLogs = []\<rparr>"

definition demoLitter :: "Fake Server" where
  "demoLitter = demoRestart\<lparr>svWorld := emptyFake\<lparr>fkContainers :=
     [(''oshl-zz'', demoCtr ''oshl-zz'' [(labelManagedBy, managedByValue), (labelSandboxID, ''zz'')]),
      (''db'', demoCtr ''db'' [])]\<rparr>\<rparr>"

theorem bootstrap_orphans_witness:
  "\<exists>s'. Bootstrap demoDeps demoOrc False demoLitter = (None, s')
     \<and> fakeVMs (svWorld s') ''oshl-zz'' = None \<and> fakeVMs (svWorld s') ''db'' = Some ''running''"
proof -
  have "fst (Bootstrap demoDeps demoOrc False demoLitter) = None" by code_simp
  then obtain s' where b: "Bootstrap demoDeps demoOrc False demoLitter = (None, s')" by (metis eq_fst_iff)
  have "map_of (svSandboxes (snd (Bootstrap demoDeps demoOrc False demoLitter))) ''zz'' = None" by code_simp
  then have z: "map_of (svSandboxes s') ''zz'' = None" by (simp add: b)
  have w: "fkContainers (svWorld demoLitter)
      = [(''oshl-zz'', demoCtr ''oshl-zz'' [(labelManagedBy, managedByValue), (labelSandboxID, ''zz'')]),
         (''db'', demoCtr ''db'' [])]"
    by (simp add: demoLitter_def)
  then have g: "fakeGood (svWorld demoLitter)" by (auto simp: fakeGood_def goodCtrs_def demoCtr_def split: if_splits)
  have l: "rtList (dpRt demoDeps) False True (svWorld demoLitter)
      = (Inr [fcCtr (demoCtr ''oshl-zz'' [(labelManagedBy, managedByValue), (labelSandboxID, ''zz'')]), fcCtr (demoCtr ''db'' [])],
         svWorld demoLitter)"
    by (simp add: demo_rt fakeList_def w)
  have obeys: "\<forall>m w. fakeGood w \<longrightarrow> (case fst (rtDelete (dpRt demoDeps) False m w) of None \<Rightarrow> True | Some e \<Rightarrow> isNotFoundErr e)"
    by (simp add: demo_rt fakeDelete_def containerNotFound_def split: option.split)
  have t: "strayed s' (fcCtr (demoCtr ''oshl-zz'' [(labelManagedBy, managedByValue), (labelSandboxID, ''zz'')]))"
    "\<not> strayed s' (fcCtr (demoCtr ''db'' []))"
    using z by (simp_all add: strayed_def demoCtr_def mapGet_def labelManagedBy_def labelSandboxID_def managedByValue_def)
  have "fakeVMs (svWorld s') ''oshl-zz'' = None"
    using bootstrap_orphans [OF demo_vm g b, of "''oshl-zz''"] obeys t l by (auto simp: demoCtr_def)
  moreover have "fakeVMs (svWorld demoLitter) ''db'' = Some ''running''"
    by (simp add: fakeVMs_def ctrStates_def w demoCtr_def)
  then have "fakeVMs (svWorld s') ''db'' = Some ''running''"
    using bootstrap_orphans [OF demo_vm g b, of "''db''"] t l by (auto simp: demoCtr_def)
  ultimately show ?thesis using b by blast
qed

subsection \<open>Polling\<close>

lemma registryOk_refs:
  assumes "registryOk s"
  shows "distinct (map snd (svSandboxes s))"
    "r \<in> set (map snd (svSandboxes s)) \<longleftrightarrow> (\<exists>i. map_of (svSandboxes s) i = Some r)"
    "r \<in> set (map snd (svSandboxes s)) \<Longrightarrow> r < length (svHeap s)"
proof -
  let ?m = "svSandboxes s"
  have k: "distinct (map fst ?m)" using assms by (simp add: registryOk_def keysOf_def)
  have l: "i = rID (enRec (getE s r)) \<and> r < length (svHeap s)" if "(i, r) \<in> set ?m" for i r
    using registryOk_lookup [OF assms, of i r] map_of_is_SomeI [OF k that] by simp
  have "map fst ?m = map (\<lambda>r. rID (enRec (getE s r))) (map snd ?m)"
    using l by (auto intro!: map_cong simp: comp_def)
  then show "distinct (map snd ?m)" using k distinct_map by metis
  show "r \<in> set (map snd ?m) \<longleftrightarrow> (\<exists>i. map_of ?m i = Some r)" for r
    using map_of_is_SomeI [OF k] by (force dest: map_of_SomeD)
  show "r \<in> set (map snd ?m) \<Longrightarrow> r < length (svHeap s)" using l by auto
qed

text \<open>Which lists an entry goes into.\<close>

definition stepChanged :: "int \<Rightarrow> Container list \<Rightarrow> entry \<Rightarrow> bool" where
  "stepChanged now cs e = fst (snd (pollStep now cs e))"

definition stepExited :: "int \<Rightarrow> Container list \<Rightarrow> entry \<Rightarrow> bool" where
  "stepExited now cs e = fst (snd (snd (pollStep now cs e)))"

definition stepPersist :: "int \<Rightarrow> Container list \<Rightarrow> entry \<Rightarrow> bool" where
  "stepPersist now cs e = snd (snd (snd (pollStep now cs e)))"

lemma pollScan_facts:
  assumes "pollScan now cs irs s = (s', chs, exs, pes)" and "distinct (map snd irs)"
    and "\<forall>r \<in> set (map snd irs). r < length (svHeap s)"
  shows "svWorld s' = svWorld s \<and> svDisk s' = svDisk s \<and> svHub s' = svHub s \<and> svClosed s' = svClosed s
    \<and> svSandboxes s' = svSandboxes s \<and> length (svHeap s') = length (svHeap s)
    \<and> (\<forall>r. getE s' r = (if r \<in> set (map snd irs) then fst (pollStep now cs (getE s r)) else getE s r))
    \<and> chs = filter (\<lambda>r. stepChanged now cs (getE s r)) (map snd irs)
    \<and> exs = filter (\<lambda>r. stepExited now cs (getE s r)) (map snd irs)
    \<and> pes = filter (\<lambda>r. stepPersist now cs (getE s r)) (map snd irs)"
  using assms
proof (induction irs arbitrary: s s' chs exs pes)
  case Nil
  then show ?case by simp
next
  case (Cons ir irs)
  obtain i r where ir: "ir = (i, r)" by (cases ir)
  obtain e ch ex pe where st: "pollStep now cs (getE s r) = (e, ch, ex, pe)" by (metis prod_cases4)
  define s1 where "s1 = setE r (\<lambda>_. e) s"
  obtain s2 chs' exs' pes' where sc: "pollScan now cs irs s1 = (s2, chs', exs', pes')" by (metis prod_cases4)
  have r: "r < length (svHeap s)" "r \<notin> set (map snd irs)" using Cons.prems(2,3) ir by simp_all
  have own: "getE s1 r = e" and others: "r' \<noteq> r \<Longrightarrow> getE s1 r' = getE s r'" for r'
    using r by (simp_all add: s1_def frame_simps)
  have ih: "svWorld s2 = svWorld s1 \<and> svDisk s2 = svDisk s1 \<and> svHub s2 = svHub s1 \<and> svClosed s2 = svClosed s1
    \<and> svSandboxes s2 = svSandboxes s1 \<and> length (svHeap s2) = length (svHeap s1)
    \<and> (\<forall>r. getE s2 r = (if r \<in> set (map snd irs) then fst (pollStep now cs (getE s1 r)) else getE s1 r))
    \<and> chs' = filter (\<lambda>r. stepChanged now cs (getE s1 r)) (map snd irs)
    \<and> exs' = filter (\<lambda>r. stepExited now cs (getE s1 r)) (map snd irs)
    \<and> pes' = filter (\<lambda>r. stepPersist now cs (getE s1 r)) (map snd irs)"
    using Cons.IH [OF sc] Cons.prems(2,3) ir by (simp add: s1_def frame_simps)
  have same: "r' \<in> set (map snd irs) \<Longrightarrow> getE s1 r' = getE s r'" for r' using r(2) others by metis
  have fl: "filter (\<lambda>r. P (getE s1 r)) (map snd irs) = filter (\<lambda>r. P (getE s r)) (map snd irs)" for P
    using same by (intro filter_cong) auto
  have res: "s' = s2" "chs = (if ch then r # chs' else chs')" "exs = (if ex then r # exs' else exs')"
    "pes = (if pe then r # pes' else pes')"
    using Cons.prems(1) st sc by (simp_all add: ir s1_def [symmetric])
  have sel: "stepChanged now cs (getE s r) = ch" "stepExited now cs (getE s r) = ex"
    "stepPersist now cs (getE s r) = pe"
    by (simp_all add: stepChanged_def stepExited_def stepPersist_def st)
  have g: "getE s2 q = (if q \<in> set (map snd (ir # irs)) then fst (pollStep now cs (getE s q)) else getE s q)" for q
    using ih own others same r(2) st ir by (cases "q = r") auto
  have fr: "svWorld s1 = svWorld s" "svDisk s1 = svDisk s" "svHub s1 = svHub s" "svClosed s1 = svClosed s"
    "svSandboxes s1 = svSandboxes s" "length (svHeap s1) = length (svHeap s)"
    by (simp_all add: s1_def frame_simps)
  have ls: "chs' = filter (\<lambda>r. stepChanged now cs (getE s r)) (map snd irs)"
    "exs' = filter (\<lambda>r. stepExited now cs (getE s r)) (map snd irs)"
    "pes' = filter (\<lambda>r. stepPersist now cs (getE s r)) (map snd irs)"
    using ih fl by blast+
  have "svWorld s2 = svWorld s" "svDisk s2 = svDisk s" "svHub s2 = svHub s" "svClosed s2 = svClosed s"
    "svSandboxes s2 = svSandboxes s" "length (svHeap s2) = length (svHeap s)"
    using ih fr by simp_all
  then show ?case using res sel g ls by (simp add: ir)
qed

lemma pollPersist_frame:
  "svWorld (pollPersist d orc rs s) = svWorld s \<and> svHub (pollPersist d orc rs s) = svHub s
   \<and> svHeap (pollPersist d orc rs s) = svHeap s \<and> svSandboxes (pollPersist d orc rs s) = svSandboxes s
   \<and> svClosed (pollPersist d orc rs s) = svClosed s
   \<and> (storeOk (dpRoot d) (svDisk s) \<longrightarrow> storeOk (dpRoot d) (svDisk (pollPersist d orc rs s)))
   \<and> (\<forall>i. recs d s i \<noteq> None \<longrightarrow> recs d (pollPersist d orc rs s) i \<noteq> None)"
proof (induction rs arbitrary: s)
  case (Cons r rs)
  obtain e s1 where 1: "saveRecord d orc (enRec (getE s r)) s = (e, s1)" by fastforce
  have "\<forall>i. recs d s i \<noteq> None \<longrightarrow> recs d s1 i \<noteq> None"
    using saveRecord_recs(1) [of d orc "enRec (getE s r)" s s1]
      saveRecord_recs(2) [of d orc "enRec (getE s r)" s _ s1] 1 by (cases e) auto
  then show ?case using Cons.IH [of s1] saveRecord_frame [OF 1] saveRecord_good [OF 1] 1 by simp
qed simp

text \<open>Entries that differ in the text of their condition at most.\<close>

definition sameBut :: "entry \<Rightarrow> entry \<Rightarrow> bool" where
  "sameBut e e' \<longleftrightarrow> (\<exists>m. e' = e\<lparr>enCond := (enCond e)\<lparr>cdMessage := m\<rparr>\<rparr>)"

lemma sameBut_refl: "sameBut e e"
  unfolding sameBut_def by (rule exI [of _ "cdMessage (enCond e)"]) simp

lemma sameBut_trans: "sameBut e e1 \<Longrightarrow> sameBut e1 e2 \<Longrightarrow> sameBut e e2"
  unfolding sameBut_def by fastforce

lemma sameBut_fields:
  assumes "sameBut e e'"
  shows "enRec e' = enRec e" "cdReason (enCond e') = cdReason (enCond e)"
    "cdStatus (enCond e') = cdStatus (enCond e)" "pollable e' = pollable e"
  using assms by (auto simp: sameBut_def pollable_def provisionDone_def)

lemma pollTail_frame:
  assumes "r < length (svHeap s)"
  shows "svDisk (pollTail d orc ctx r s) = svDisk s \<and> svSandboxes (pollTail d orc ctx r s) = svSandboxes s
   \<and> svClosed (pollTail d orc ctx r s) = svClosed s
   \<and> length (svHeap (pollTail d orc ctx r s)) = length (svHeap s)
   \<and> (hubOk (svHub s) \<longrightarrow> hubOk (svHub (pollTail d orc ctx r s)))
   \<and> (\<forall>r'. sameBut (getE s r') (getE (pollTail d orc ctx r s) r'))"
proof -
  obtain tail s1 where t: "consoleTail d ctx (rContainerName (enRec (getE s r))) s = (tail, s1)" by fastforce
  have "worldOnly s s1" using worldOnly_tail [of s d ctx "rContainerName (enRec (getE s r))"] t by simp
  note w = worldOnly_fields [OF this]
  let ?f = "\<lambda>e. e\<lparr>enCond := withTail tail (enCond e)\<rparr>"
  have "sameBut (getE s1 r') (getE (setE r ?f s1) r')" for r'
    using assms w by (cases "r' = r") (auto simp: frame_simps sameBut_refl, auto simp: sameBut_def withTail_def)
  then show ?thesis
    using w t by (auto simp: pollTail_def frame_simps publishPlatformEvent_def inv_intros sameBut_refl)
qed

lemma pollTails_frame:
  assumes "\<forall>r \<in> set rs. r < length (svHeap s)"
  shows "svDisk (fold (pollTail d orc ctx) rs s) = svDisk s
   \<and> svSandboxes (fold (pollTail d orc ctx) rs s) = svSandboxes s
   \<and> length (svHeap (fold (pollTail d orc ctx) rs s)) = length (svHeap s)
   \<and> (hubOk (svHub s) \<longrightarrow> hubOk (svHub (fold (pollTail d orc ctx) rs s)))
   \<and> (\<forall>r'. sameBut (getE s r') (getE (fold (pollTail d orc ctx) rs s) r'))"
  using assms
proof (induction rs arbitrary: s)
  case (Cons r rs)
  note f = pollTail_frame [of r s d orc ctx]
  show ?case using Cons.IH [of "pollTail d orc ctx r s"] f Cons.prems
    by (auto intro: sameBut_trans)
qed (simp add: sameBut_refl)

lemma publishes_frame:
  "svWorld (fold (publishSandbox d) rs s) = svWorld s \<and> svDisk (fold (publishSandbox d) rs s) = svDisk s
   \<and> svSandboxes (fold (publishSandbox d) rs s) = svSandboxes s
   \<and> svHeap (fold (publishSandbox d) rs s) = svHeap s
   \<and> (hubOk (svHub s) \<longrightarrow> hubOk (svHub (fold (publishSandbox d) rs s)))"
  by (induction rs arbitrary: s) (auto simp: frame_simps inv_intros)

definition runningIn :: "Container list \<Rightarrow> Record \<Rightarrow> bool" where
  "runningIn cs rc \<longleftrightarrow> bootReason cs rc = reasonBackendReady"

lemma pollStep_facts:
  "enDeleting (fst (pollStep now cs e)) = enDeleting e" "enBusy (fst (pollStep now cs e)) = enBusy e"
  "enDone (fst (pollStep now cs e)) = enDone e" "enCanceled (fst (pollStep now cs e)) = enCanceled e"
  "enRec (fst (pollStep now cs e)) =
     (if pollable e \<and> runningIn cs (enRec e) then (enRec e)\<lparr>rStopped := False\<rparr> else enRec e)"
  "pollable e \<Longrightarrow> cdReason (enCond (fst (pollStep now cs e))) = bootReason cs (enRec e)"
  "pollable e \<Longrightarrow> bootReason cs (enRec e) \<noteq> reasonProvisioningFailed \<Longrightarrow>
     cdStatus (enCond (fst (pollStep now cs e))) = (if runningIn cs (enRec e) then ''True'' else ''False'')"
  "\<not> pollable e \<Longrightarrow> fst (pollStep now cs e) = e"
proof -
  have x: "(enRec e)\<lparr>rStopped := False\<rparr> = enRec e" if "\<not> rStopped (enRec e)" using that by (cases "enRec e") simp
  show "enRec (fst (pollStep now cs e)) =
     (if pollable e \<and> runningIn cs (enRec e) then (enRec e)\<lparr>rStopped := False\<rparr> else enRec e)"
    using x by (auto simp: pollStep_def observe_def runningIn_def bootReason_def reason_defs Let_def split: option.splits)
qed (auto simp: pollStep_def observe_def runningIn_def bootReason_def condition_defs reason_defs Let_def
    split: option.splits)

lemma pollOnce_run:
  assumes ok: "serverOk d s" and p: "hasPollable s" and rl: "rtList (dpRt d) ctx True (svWorld s) = (Inr cs, w)"
  shows "serverOk d (pollOnce d orc ctx s) \<and> svSandboxes (pollOnce d orc ctx s) = svSandboxes s
    \<and> (\<forall>i r. map_of (svSandboxes s) i = Some r \<longrightarrow>
         sameBut (fst (pollStep (orNow orc) cs (getE s r))) (getE (pollOnce d orc ctx s) r))"
proof -
  obtain s1 where 1: "rtCall (rtList (dpRt d) ctx True) s = (Inr cs, s1)" by (simp add: rtCall_def rl)
  note f1 = rtCall_frame [OF 1]
  have g1: "getE s1 r = getE s r" for r using f1 by (simp add: getE_def)
  have ro: "registryOk s" using ok by (simp add: serverOk_def)
  note refs = registryOk_refs [OF ro]
  obtain s2 chs exs pes where 2: "pollScan (orNow orc) cs (svSandboxes s1) s1 = (s2, chs, exs, pes)"
    by (metis prod_cases4)
  have "distinct (map snd (svSandboxes s1))" "\<forall>r \<in> set (map snd (svSandboxes s1)). r < length (svHeap s1)"
    using refs f1 by auto
  note f2 = pollScan_facts [OF 2 this]
  define s3 where "s3 = pollPersist d orc pes s2"
  note f3 = pollPersist_frame [of d orc pes s2, folded s3_def]
  have "\<forall>r \<in> set exs. r < length (svHeap s3)" using f2 f3 refs(3) f1 by auto
  note f4 = pollTails_frame [OF this, of d orc ctx]
  define s4 where "s4 = fold (pollTail d orc ctx) exs s3"
  note f4 = f4 [folded s4_def]
  note f5 = publishes_frame [of d chs s4]
  have run: "pollOnce d orc ctx s = fold (publishSandbox d) chs s4"
    using p 1 2 by (simp add: pollOnce_def s4_def s3_def)
  have sb: "svSandboxes (pollOnce d orc ctx s) = svSandboxes s" using run f1 f2 f3 f4 f5 by simp
  have get: "sameBut (if r \<in> set (map snd (svSandboxes s)) then fst (pollStep (orNow orc) cs (getE s r)) else getE s r)
      (getE (pollOnce d orc ctx s) r)" for r
  proof -
    have "getE (pollOnce d orc ctx s) r = getE s4 r" using run f5 by (simp add: getE_def)
    moreover have "sameBut (getE s3 r) (getE s4 r)" using f4 by blast
    moreover have "getE s3 r = getE s2 r" using f3 by (simp add: getE_def)
    ultimately show ?thesis using f2 f1 g1 by (cases "r \<in> set (map snd (svSandboxes s))") simp_all
  qed
  have ids: "rID (enRec (getE (pollOnce d orc ctx s) r)) = rID (enRec (getE s r))" for r
    using sameBut_fields(1) [OF get [of r]] by (auto simp: pollStep_facts(5) split: if_splits)
  have "serverOk d (pollOnce d orc ctx s)"
    by (rule serverOk_change [OF ok sb _ ids]) (use run f1 f2 f3 f4 f5 in \<open>simp_all\<close>)
  moreover have "sameBut (fst (pollStep (orNow orc) cs (getE s r))) (getE (pollOnce d orc ctx s) r)"
    if "map_of (svSandboxes s) i = Some r" for i r
  proof -
    have "r \<in> set (map snd (svSandboxes s))" using that refs(2) by blast
    then show ?thesis using get [of r] by simp
  qed
  ultimately show ?thesis using sb by blast
qed

text \<open>
  C6. One poll makes every condition truthful: with the runtime's listing at hand, each
  sandbox the poller may act on has the very reason a bootstrap would adopt its record
  with (and is Ready exactly when its container runs), its stopped mark is dropped when it
  was found running, and a sandbox that is provisioning, being deleted, or in a stop or
  start is left completely alone; the server stays well formed.
\<close>

theorem poll_truthful:
  assumes ok: "serverOk d s" and p: "hasPollable s"
    and rl: "rtList (dpRt d) ctx True (svWorld s) = (Inr cs, w)" and s': "s' = pollOnce d orc ctx s"
    and m: "map_of (svSandboxes s) i = Some r"
  shows "serverOk d s' \<and> svSandboxes s' = svSandboxes s
    \<and> (if pollable (getE s r)
       then cdReason (enCond (getE s' r)) = bootReason cs (enRec (getE s r))
         \<and> (bootReason cs (enRec (getE s r)) \<noteq> reasonProvisioningFailed \<longrightarrow>
              (cdStatus (enCond (getE s' r)) = ''True'') = runningIn cs (enRec (getE s r)))
         \<and> rStopped (enRec (getE s' r)) = (rStopped (enRec (getE s r)) \<and> \<not> runningIn cs (enRec (getE s r)))
       else enRec (getE s' r) = enRec (getE s r)
         \<and> cdReason (enCond (getE s' r)) = cdReason (enCond (getE s r)))"
proof -
  note f = pollOnce_run [OF ok p rl, of orc, folded s']
  have sb: "sameBut (fst (pollStep (orNow orc) cs (getE s r))) (getE s' r)" using f m by blast
  show ?thesis
    using f sameBut_fields [OF sb] pollStep_facts [where now = "orNow orc" and cs = cs and e = "getE s r"] by auto
qed

lemma pollStep_settled:
  assumes "sameBut (fst (pollStep now cs e)) e'"
  shows "pollStep now' cs e' = (e', False, False, False)"
proof (cases "pollable e")
  case False
  then have "\<not> pollable e'" using sameBut_fields(4) [OF assms] pollStep_facts(8) by simp
  then show ?thesis by (simp add: pollStep_def)
next
  case True
  note fl = sameBut_fields [OF assms] and st = pollStep_facts [where now = now and cs = cs and e = e]
  have n: "rContainerName (enRec e') = rContainerName (enRec e)" using fl(1) st(5) by simp
  have rc: "bootReason cs (enRec e') = bootReason cs (enRec e)"
    using fl(1) st(5) True n by (auto simp: bootReason_def runningIn_def reason_defs split: option.splits)
  have reason: "cdReason (enCond e') = bootReason cs (enRec e')" using fl(2) st(6) True rc by simp
  have stopped: "runningIn cs (enRec e') \<Longrightarrow> \<not> rStopped (enRec e')"
    using fl(1) st(5) True rc by (simp add: runningIn_def)
  have status: "bootReason cs (enRec e') \<noteq> reasonProvisioningFailed \<Longrightarrow>
      cdStatus (enCond e') = (if runningIn cs (enRec e') then ''True'' else ''False'')"
    using fl(3) st(7) True rc by (simp add: runningIn_def)
  show ?thesis
    using reason stopped status
    by (auto simp: pollStep_def observe_def bootReason_def runningIn_def condition_defs reason_defs Let_def
        split: option.splits)
qed

lemma pollScan_settled:
  assumes "\<And>r. r \<in> set (map snd irs) \<Longrightarrow> pollStep now cs (getE s r) = (getE s r, False, False, False)"
  shows "pollScan now cs irs s = (s, [], [], [])"
  using assms
proof (induction irs)
  case (Cons ir irs)
  obtain i r where ir: "ir = (i, r)" by (cases ir)
  have "setE r (\<lambda>_. getE s r) s = s" by (simp add: setE_def getE_def)
  moreover have "pollScan now cs irs s = (s, [], [], [])" using Cons by simp
  moreover have "pollStep now cs (getE s r) = (getE s r, False, False, False)" using Cons.prems ir by simp
  ultimately show ?case by (simp add: ir)
qed simp

text \<open>
  Polling settles: when the runtime's listing has not changed since the last poll, the
  next one publishes no event, writes no record and changes no entry.
\<close>

theorem poll_settles:
  assumes ok: "serverOk d s" and p: "hasPollable s"
    and rl: "rtList (dpRt d) ctx True (svWorld s) = (Inr cs, w)" and s': "s' = pollOnce d orc ctx s"
    and rl': "rtList (dpRt d) ctx' True (svWorld s') = (Inr cs, w')"
  shows "svHub (pollOnce d orc' ctx' s') = svHub s' \<and> svHeap (pollOnce d orc' ctx' s') = svHeap s'
    \<and> svDisk (pollOnce d orc' ctx' s') = svDisk s'"
proof -
  note f = pollOnce_run [OF ok p rl, of orc, folded s']
  have ro: "registryOk s" using ok by (simp add: serverOk_def)
  obtain s1 where 1: "rtCall (rtList (dpRt d) ctx' True) s' = (Inr cs, s1)" by (simp add: rtCall_def rl')
  note f1 = rtCall_frame [OF 1]
  have "pollStep (orNow orc') cs (getE s1 r) = (getE s1 r, False, False, False)"
    if "r \<in> set (map snd (svSandboxes s1))" for r
  proof -
    have "r \<in> set (map snd (svSandboxes s))" using that f f1 by simp
    then obtain i where "map_of (svSandboxes s) i = Some r" using registryOk_refs(2) [OF ro] by blast
    then have "sameBut (fst (pollStep (orNow orc) cs (getE s r))) (getE s' r)" using f by blast
    moreover have "getE s1 r = getE s' r" using f1 by (simp add: getE_def)
    ultimately show ?thesis using pollStep_settled by simp
  qed
  then have "pollScan (orNow orc') cs (svSandboxes s1) s1 = (s1, [], [], [])" by (rule pollScan_settled)
  then have "pollOnce d orc' ctx' s' = (if hasPollable s' then s1 else s')" using 1 by (simp add: pollOnce_def)
  then show ?thesis using f1 by simp
qed

theorem poll_truthful_witness:
  "serverOk demoDeps (pollOnce demoDeps demoOrc False demoRunning)
     \<and> cdReason (enCond (getE (pollOnce demoDeps demoOrc False demoRunning) 0)) = reasonBackendReady"
proof -
  have p: "hasPollable demoRunning" by code_simp
  obtain cs w where l: "rtList (dpRt demoDeps) False True (svWorld demoRunning) = (Inr cs, w)"
    by (simp add: demo_rt fakeList_def)
  have m: "map_of (svSandboxes demoRunning) ''sb1'' = Some 0" by code_simp
  have q: "pollable (getE demoRunning 0)" by code_simp
  have "case fst (rtList fakeRuntime False True (svWorld demoRunning)) of
          Inr cs \<Rightarrow> bootReason cs (enRec (getE demoRunning 0)) = reasonBackendReady | Inl _ \<Rightarrow> False"
    by code_simp
  then have "bootReason cs (enRec (getE demoRunning 0)) = reasonBackendReady" using l by (simp add: demo_rt)
  with poll_truthful [OF demoRunning_ok p l refl m, of demoOrc] q show ?thesis by simp
qed

theorem poll_settles_witness:
  "svHub (pollOnce demoDeps demoOrc False (pollOnce demoDeps demoOrc False demoRunning))
     = svHub (pollOnce demoDeps demoOrc False demoRunning)"
proof -
  have p: "hasPollable demoRunning" by code_simp
  obtain cs where l: "rtList (dpRt demoDeps) False True (svWorld demoRunning) = (Inr cs, svWorld demoRunning)"
    by (simp add: demo_rt fakeList_def)
  have "svWorld (pollOnce demoDeps demoOrc False demoRunning) = svWorld demoRunning"
    by code_simp
  then have l': "rtList (dpRt demoDeps) False True (svWorld (pollOnce demoDeps demoOrc False demoRunning))
      = (Inr cs, svWorld demoRunning)"
    using l by simp
  from poll_settles [OF demoRunning_ok p l refl l'] show ?thesis by blast
qed

end
