(* ===== verification/Machine.thy ===== *)
theory Machine
  imports Reconcile "HOL-Library.Multiset"
begin

section \<open>Concurrent handlers\<close>

text \<open>
  The handlers of \<open>create.go\<close>, \<open>lifecycle.go\<close> and \<open>reconcile.go\<close> run concurrently. Here
  each running handler is a continuation (\<open>act\<close>), one step runs one of them up to the next
  point where the code releases its lock or waits, and the system is the list of running
  handlers with the server's state. The steps are made of the definitions the sequential
  handlers are made of. The runtime's world may change at any time, and the driver may crash
  and restart on the records it has. A call into the runtime is one step.
\<close>

subsection \<open>Continuations\<close>

text \<open>\<open>provision\<close>, then its conditions and events, then the deferred close.\<close>

datatype pphase =
    PStart
  | PPin Record driverConfig Image
  | PSupervisor Record driverConfig Image string
  | PSeed Record driverConfig Image string string
  | PSpec Record driverConfig Image string
  | PClear Record RunSpec
  | PBoot RunSpec
  | PFinish "err option"
  | PPublish "err option"
  | PEvent "err option"
  | PClose

datatype dphase = DAnnounce | DCancel | DWait | DVM bool | DRec bool | DForget | DPublish

text \<open>The branch of \<open>DeleteSandbox\<close> for an unknown sandbox.\<close>

datatype uphase = UVM | URec

datatype lphase = LVM | LMark | LSave Record | LSet | LPublish | LEvent | LRelease

text \<open>What is left of a poll: entries to persist, to fetch console output for, to publish.\<close>

datatype qphase =
    QList
  | QScan "Container list"
  | QRec "nat list" "nat list" "nat list"
  | QSave Record "nat list" "nat list" "nat list"
  | QLogs "nat list" "nat list"
  | QTail nat string "nat list" "nat list"
  | QWarn nat string "nat list" "nat list"
  | QPublish "nat list"

datatype act =
    ACreate nat DriverSandbox bool
  | AProv nat DriverSandbox pphase
  | ADel nat string string dphase
  | AGone string uphase
  | ALife bool nat Record lphase
  | APoll qphase

text \<open>A phase's answer: the error ends the task, a value selects the next phase.\<close>

fun nextPhase :: "(err + 'a) \<times> 'w Server \<Rightarrow> ('a \<Rightarrow> pphase) \<Rightarrow> pphase option \<times> 'w Server" where
  "nextPhase (Inl e, s) k = (Some (PFinish (Some e)), s)"
| "nextPhase (Inr v, s) k = (Some (k v), s)"

fun asResult :: "err option \<times> 'w Server \<Rightarrow> (err + unit) \<times> 'w Server" where
  "asResult (Some e, s) = (Inl e, s)"
| "asResult (None, s) = (Inr (), s)"

fun provStep ::
  "'w Deps \<Rightarrow> Oracle \<Rightarrow> nat \<Rightarrow> DriverSandbox \<Rightarrow> pphase \<Rightarrow> 'w Server \<Rightarrow> pphase option \<times> 'w Server" where
  "provStep d orc r sb PStart s =
     (let rc = enRec (getE s r)
      in case parseDriverConfig (GetDriverConfig (GetTemplate (GetSpec (Some sb)))) of
           Inl e \<Rightarrow> (Some (PFinish (Some e)), s)
         | Inr dcfg \<Rightarrow> nextPhase (provImage d orc (taskCtx s r) rc s) (PPin rc dcfg))"
| "provStep d orc r sb (PPin rc dcfg im) s =
     nextPhase (provPin d orc r rc im s) (\<lambda>(rc1, img). PSupervisor rc1 dcfg im img)"
| "provStep d orc r sb (PSupervisor rc dcfg im img) s =
     nextPhase (provSupervisor d orc (taskCtx s r) s) (PSeed rc dcfg im img)"
| "provStep d orc r sb (PSeed rc dcfg im img supPath) s =
     nextPhase (asResult (provSeed d orc (rID rc) supPath (GetSandboxToken (GetSpec (Some sb))) s))
       (\<lambda>_. PSpec rc dcfg im img)"
| "provStep d orc r sb (PSpec rc dcfg im img) s =
     nextPhase (provSpec d rc img (imUser im) (Some sb) dcfg (GetSandboxToken (GetSpec (Some sb)) \<noteq> []) s, s)
       (PClear rc)"
| "provStep d orc r sb (PClear rc spec) s =
     nextPhase (asResult (provClear d (taskCtx s r) (rContainerName rc) s)) (\<lambda>_. PBoot spec)"
| "provStep d orc r sb (PBoot spec) s =
     (let (res, s1) = provBoot d (taskCtx s r) spec s in (Some (PFinish res), s1))"
| "provStep d orc r sb (PFinish res) s =
     (case res of
        None \<Rightarrow> (Some (PPublish res), setCondition r (readyTrueCondition (orNow orc)) s)
      | Some e \<Rightarrow>
          (if isCanceledErr e \<or> taskCtx s r then (Some PClose, s)
           else (Some (PPublish res), setCondition r (failedCondition (MErr e) (orNow orc)) s)))"
| "provStep d orc r sb (PPublish res) s = (Some (PEvent res), publishSandbox d r s)"
| "provStep d orc r sb (PEvent res) s =
     (Some PClose,
      case res of
        None \<Rightarrow> publishPlatformEvent (orNow orc) (rID (enRec (getE s r))) ''Normal'' ''Started''
                  (Msg ''Sandbox VM started'') s
      | Some e \<Rightarrow> publishPlatformEvent (orNow orc) (rID (enRec (getE s r))) ''Warning''
                  ''ProvisioningFailed'' (MErr e) s)"
| "provStep d orc r sb PClose s = (None, closeDone r s)"

text \<open>
  The delete. \<open>x\<close>: its 30 seconds have passed. The wait ends with the task or with them;
  the step is not enabled otherwise.
\<close>

fun delStep ::
  "'w Deps \<Rightarrow> Oracle \<Rightarrow> bool \<Rightarrow> nat \<Rightarrow> string \<Rightarrow> string \<Rightarrow> dphase \<Rightarrow> 'w Server
     \<Rightarrow> (dphase option \<times> 'w Server) option" where
  "delStep d orc x r i n DAnnounce s = Some (Some DCancel, publishSandbox d r s)"
| "delStep d orc x r i n DCancel s = Some (Some DWait, cancelTask r s)"
| "delStep d orc x r i n DWait s =
     (if enDone (getE s r) \<noteq> OpenChan \<or> x then Some (Some (DVM x), s) else None)"
| "delStep d orc x r i n (DVM x0) s =
     (case deleteVM d (x0 \<or> x) n s of
        (Inl st, s1) \<Rightarrow> Some (None, s1)
      | (Inr b, s1) \<Rightarrow> Some (Some (DRec b), s1))"
| "delStep d orc x r i n (DRec b) s =
     (case deleteRecord d orc i s of
        (Some e, s1) \<Rightarrow> Some (None, s1)
      | (None, s1) \<Rightarrow> Some (Some DForget, s1))"
| "delStep d orc x r i n DForget s =
     Some (Some DPublish, s\<lparr>svSandboxes := AList.delete i (svSandboxes s)\<rparr>)"
| "delStep d orc x r i n DPublish s = Some (None, publishDeleted i s)"

fun goneStep ::
  "'w Deps \<Rightarrow> Oracle \<Rightarrow> bool \<Rightarrow> string \<Rightarrow> uphase \<Rightarrow> 'w Server \<Rightarrow> uphase option \<times> 'w Server" where
  "goneStep d orc x i UVM s =
     (if ValidID i then
        (case deleteVM d x (containerName i) s of
           (Inl st, s1) \<Rightarrow> (None, s1)
         | (Inr b, s1) \<Rightarrow> (Some URec, s1))
      else (None, s))"
| "goneStep d orc x i URec s = (None, snd (deleteRecord d orc i s))"

fun lifeStep ::
  "'w Deps \<Rightarrow> Oracle \<Rightarrow> bool \<Rightarrow> bool \<Rightarrow> nat \<Rightarrow> Record \<Rightarrow> lphase \<Rightarrow> 'w Server
     \<Rightarrow> lphase option \<times> 'w Server" where
  "lifeStep d orc x b r rc LVM s =
     (let (res, s1) = (if b then stopVM d x rc s else startVM d x rc s)
      in (Some (if res = None then LMark else LRelease), s1))"
| "lifeStep d orc x b r rc LMark s =
     (let s1 = markStopped b r s in (Some (LSave (enRec (getE s1 r))), s1))"
| "lifeStep d orc x b r rc (LSave rc1) s =
     (let (e, s1) = saveRecord d orc rc1 s in (Some (if e = None then LSet else LRelease), s1))"
| "lifeStep d orc x b r rc LSet s = (Some LPublish, setCondition r (condOf b (orNow orc)) s)"
| "lifeStep d orc x b r rc LPublish s = (Some LEvent, publishSandbox d r s)"
| "lifeStep d orc x b r rc LEvent s =
     (Some LRelease,
      publishPlatformEvent (orNow orc) (rID (enRec (getE s r))) ''Normal''
        (if b then ''Stopped'' else ''Started'')
        (Msg (if b then ''Sandbox VM stopped'' else ''Sandbox VM started'')) s)"
| "lifeStep d orc x b r rc LRelease s = (None, releaseBusy r s)"

fun pollStepQ :: "'w Deps \<Rightarrow> Oracle \<Rightarrow> qphase \<Rightarrow> 'w Server \<Rightarrow> qphase option \<times> 'w Server" where
  "pollStepQ d orc QList s =
     (if \<not> hasPollable s then (None, s)
      else (case rtCall (rtList (dpRt d) (svClosed s) True) s of
              (Inl e, s1) \<Rightarrow> (None, s1)
            | (Inr cs, s1) \<Rightarrow> (Some (QScan cs), s1)))"
| "pollStepQ d orc (QScan cs) s =
     (let (s1, chs, exs, pes) = pollScan (orNow orc) cs (svSandboxes s) s in (Some (QRec pes exs chs), s1))"
| "pollStepQ d orc (QRec [] exs chs) s = (Some (QLogs exs chs), s)"
| "pollStepQ d orc (QRec (r # pes) exs chs) s = (Some (QSave (enRec (getE s r)) pes exs chs), s)"
| "pollStepQ d orc (QSave rc pes exs chs) s = (Some (QRec pes exs chs), snd (saveRecord d orc rc s))"
| "pollStepQ d orc (QLogs [] chs) s = (Some (QPublish chs), s)"
| "pollStepQ d orc (QLogs (r # exs) chs) s =
     (let (tail, s1) = consoleTail d (svClosed s) (rContainerName (enRec (getE s r))) s
      in (Some (if tail = [] then QLogs exs chs else QTail r tail exs chs), s1))"
| "pollStepQ d orc (QTail r tail exs chs) s =
     (if cdReason (enCond (getE s r)) = reasonContainerExited \<and> \<not> enDeleting (getE s r)
      then (Some (QWarn r tail exs chs), setE r (\<lambda>e. e\<lparr>enCond := withTail tail (enCond e)\<rparr>) s)
      else (Some (QLogs exs chs), s))"
| "pollStepQ d orc (QWarn r tail exs chs) s =
     (Some (QLogs exs chs),
      publishPlatformEvent (orNow orc) (rID (enRec (getE s r))) ''Warning'' reasonContainerExited
        (MTail (Msg ''Sandbox VM exited'') tail) s)"
| "pollStepQ d orc (QPublish []) s = (None, s)"
| "pollStepQ d orc (QPublish (r # chs)) s = (Some (QPublish chs), publishSandbox d r s)"

text \<open>One step of a running handler; \<open>None\<close> when it is blocked.\<close>

fun actStep :: "'w Deps \<Rightarrow> Oracle \<Rightarrow> bool \<Rightarrow> act \<Rightarrow> 'w Server \<Rightarrow> (act option \<times> 'w Server) option" where
  "actStep d orc x (ACreate r sb False) s = Some (Some (ACreate r sb True), publishSandbox d r s)"
| "actStep d orc x (ACreate r sb True) s =
     Some (Some (AProv r sb PStart),
       publishPlatformEvent (orNow orc) (rID (enRec (getE s r))) ''Normal'' ''Scheduled''
         (Msg ''Sandbox accepted by the applecontainer driver'') s)"
| "actStep d orc x (AProv r sb ph) s =
     Some (apfst (map_option (AProv r sb)) (provStep d orc r sb ph s))"
| "actStep d orc x (ADel r i n ph) s =
     map_option (apfst (map_option (ADel r i n))) (delStep d orc x r i n ph s)"
| "actStep d orc x (AGone i ph) s = Some (apfst (map_option (AGone i)) (goneStep d orc x i ph s))"
| "actStep d orc x (ALife b r rc ph) s =
     Some (apfst (map_option (ALife b r rc)) (lifeStep d orc x b r rc ph s))"
| "actStep d orc x (APoll ph) s = Some (apfst (map_option APoll) (pollStepQ d orc ph s))"

definition replaceAct :: "nat \<Rightarrow> act option \<Rightarrow> act list \<Rightarrow> act list" where
  "replaceAct k nx as = take k as @ (case nx of Some a \<Rightarrow> [a] | None \<Rightarrow> []) @ drop (Suc k) as"

text \<open>There is one poller, which starts a poll when the last one is over.\<close>

fun isPoll :: "act \<Rightarrow> bool" where
  "isPoll (APoll _) = True"
| "isPoll _ = False"

subsection \<open>The system\<close>

type_synonym 'w sys = "act list \<times> 'w Server"

text \<open>
  A restart finds the records the crashed process left, whatever else is on the disk, and
  bootstraps from them.
\<close>

inductive sysStep :: "'w Deps \<Rightarrow> 'w sys \<Rightarrow> 'w sys \<Rightarrow> bool" for d :: "'w Deps" where
  Create: "createCheck d now (Some sb) = Inr rc \<Longrightarrow> createRegister d orc rc s = (Inr r, s') \<Longrightarrow>
      sysStep d (as, s) (ACreate r sb False # as, s')"
| CreateFails: "createCheck d now (Some sb) = Inr rc \<Longrightarrow> createRegister d orc rc s = (Inl st, s') \<Longrightarrow>
      sysStep d (as, s) (as, s')"
| Delete: "deleteBegin orc i name s = (Some (r, i', n), s') \<Longrightarrow>
      sysStep d (as, s) (ADel r i' n DAnnounce # as, s')"
| DeleteUnknown: "lookupLocked i name s = None \<Longrightarrow> sysStep d (as, s) (AGone i UVM # as, s)"
| Life: "beginLifecycle i name s = (Inr r, s') \<Longrightarrow>
      sysStep d (as, s) (ALife b r (enRec (getE s' r)) LVM # as, s')"
| Poll: "\<not> list_ex isPoll as \<Longrightarrow> sysStep d (as, s) (APoll QList # as, s)"
| Step: "k < length as \<Longrightarrow> actStep d orc x (as ! k) s = Some (nx, s') \<Longrightarrow>
      sysStep d (as, s) (replaceAct k nx as, s')"
| Watch: "watchBegin d s = (w, evs, s') \<Longrightarrow> sysStep d (as, s) (as, s')"
| WatchNext: "watchNext w s = (ev, s') \<Longrightarrow> sysStep d (as, s) (as, s')"
| WatchEnd: "sysStep d (as, s) (as, watchEnd w s)"
| World: "sysStep d (as, s) (as, s\<lparr>svWorld := w\<rparr>)"
| Close: "sysStep d (as, s) (as, closeServer s)"
| Restart: "recordsOf (dpRoot d) fs = recs d s \<Longrightarrow> storeOk (dpRoot d) fs \<Longrightarrow>
      Bootstrap d orc x (newServer w fs) = (None, s') \<Longrightarrow> sysStep d (as, s) ([], s')"

text \<open>The states of a driver that started on an empty store.\<close>

inductive reachable :: "'w Deps \<Rightarrow> 'w sys \<Rightarrow> bool" for d :: "'w Deps" where
  Init: "recordsOf (dpRoot d) fs = Map.empty \<Longrightarrow> reachable d ([], newServer w fs)"
| Next: "reachable d c \<Longrightarrow> sysStep d c c' \<Longrightarrow> reachable d c'"

subsection \<open>The invariant\<close>

definition nameOk :: "Record \<Rightarrow> bool" where
  "nameOk rc \<longleftrightarrow> rContainerName rc = containerName (rID rc)"

definition recsOk :: "'w Deps \<Rightarrow> 'w Server \<Rightarrow> bool" where
  "recsOk d s \<longleftrightarrow> (\<forall>i rc. recs d s i = Some rc \<longrightarrow> rID rc = i \<and> nameOk rc)"

definition openRefs :: "'w Server \<Rightarrow> nat set" where
  "openRefs s = {r. r < length (svHeap s) \<and> enDone (getE s r) = OpenChan}"

definition busyRefs :: "'w Server \<Rightarrow> nat set" where
  "busyRefs s = {r. r < length (svHeap s) \<and> enBusy (getE s r)}"

text \<open>The server's own part: no entry is in a stop or start while it is provisioned.\<close>

definition baseOk :: "'w Deps \<Rightarrow> 'w Server \<Rightarrow> bool" where
  "baseOk d s \<longleftrightarrow> registryOk s \<and> hubOk (svHub s) \<and> recsOk d s \<and> openRefs s \<inter> busyRefs s = {}
     \<and> (\<forall>r < length (svHeap s). nameOk (enRec (getE s r)))"

fun provRef :: "act \<Rightarrow> nat list" where
  "provRef (ACreate r sb b) = [r]"
| "provRef (AProv r sb ph) = [r]"
| "provRef _ = []"

fun lifeRef :: "act \<Rightarrow> nat list" where
  "lifeRef (ALife b r rc ph) = [r]"
| "lifeRef _ = []"

definition provRefs :: "act list \<Rightarrow> nat list" where "provRefs as = concat (map provRef as)"
definition lifeRefs :: "act list \<Rightarrow> nat list" where "lifeRefs as = concat (map lifeRef as)"

text \<open>The records a continuation carries are its own entry's; its references are live.\<close>

fun phaseRec :: "pphase \<Rightarrow> Record option" where
  "phaseRec (PPin rc dcfg im) = Some rc"
| "phaseRec (PSupervisor rc dcfg im img) = Some rc"
| "phaseRec (PSeed rc dcfg im img p) = Some rc"
| "phaseRec (PSpec rc dcfg im img) = Some rc"
| "phaseRec (PClear rc spec) = Some rc"
| "phaseRec _ = None"

definition recOf :: "'w Server \<Rightarrow> nat \<Rightarrow> Record \<Rightarrow> bool" where
  "recOf s r rc \<longleftrightarrow> rID rc = rID (enRec (getE s r)) \<and> nameOk rc"

fun pollRefs :: "qphase \<Rightarrow> nat list" where
  "pollRefs (QRec pes exs chs) = pes @ exs @ chs"
| "pollRefs (QSave rc pes exs chs) = pes @ exs @ chs"
| "pollRefs (QLogs exs chs) = exs @ chs"
| "pollRefs (QTail r t exs chs) = r # exs @ chs"
| "pollRefs (QWarn r t exs chs) = r # exs @ chs"
| "pollRefs (QPublish chs) = chs"
| "pollRefs _ = []"

definition pollOk :: "'w Server \<Rightarrow> qphase \<Rightarrow> bool" where
  "pollOk s ph \<longleftrightarrow> (\<forall>r \<in> set (pollRefs ph). r < length (svHeap s))
     \<and> (case ph of QSave rc pes exs chs \<Rightarrow> nameOk rc | _ \<Rightarrow> True)"

fun actOk :: "'w Server \<Rightarrow> act \<Rightarrow> bool" where
  "actOk s (ACreate r sb b) = (r < length (svHeap s))"
| "actOk s (AProv r sb ph) =
     (r < length (svHeap s) \<and> (case phaseRec ph of None \<Rightarrow> True | Some rc \<Rightarrow> recOf s r rc))"
| "actOk s (ADel r i n ph) =
     (r < length (svHeap s) \<and> i = rID (enRec (getE s r)) \<and> n = containerName i \<and> enDeleting (getE s r))"
| "actOk s (AGone i ph) = True"
| "actOk s (ALife b r rc ph) =
     (r < length (svHeap s) \<and> recOf s r rc \<and> (case ph of LSave rc1 \<Rightarrow> recOf s r rc1 | _ \<Rightarrow> True))"
| "actOk s (APoll ph) = pollOk s ph"

definition sysInv :: "'w Deps \<Rightarrow> 'w sys \<Rightarrow> bool" where
  "sysInv d c \<longleftrightarrow> (case c of (as, s) \<Rightarrow>
     baseOk d s \<and> (\<forall>a \<in> set as. actOk s a)
     \<and> distinct (provRefs as) \<and> set (provRefs as) = openRefs s
     \<and> distinct (lifeRefs as) \<and> set (lifeRefs as) = busyRefs s)"

subsection \<open>Frames\<close>

text \<open>Entries are never lost, keep their identifier, and a deletion once begun stays begun.\<close>

definition evolves :: "'w Server \<Rightarrow> 'w Server \<Rightarrow> bool" where
  "evolves s s' \<longleftrightarrow> length (svHeap s) \<le> length (svHeap s')
     \<and> (\<forall>r < length (svHeap s). rID (enRec (getE s' r)) = rID (enRec (getE s r))
          \<and> (enDeleting (getE s r) \<longrightarrow> enDeleting (getE s' r)))"

lemma pollOk_mono: "length (svHeap s) \<le> length (svHeap s') \<Longrightarrow> pollOk s ph \<Longrightarrow> pollOk s' ph"
  by (auto simp: pollOk_def dest: order_less_le_trans)

lemma actOk_mono: "evolves s s' \<Longrightarrow> actOk s a \<Longrightarrow> actOk s' a"
  by (cases a) (auto simp: evolves_def recOf_def split: option.splits lphase.splits intro: pollOk_mono)

text \<open>Steps that change no flag of any entry, no registration and no identity.\<close>

definition sameFlags :: "entry \<Rightarrow> entry \<Rightarrow> bool" where
  "sameFlags e e' \<longleftrightarrow> rID (enRec e') = rID (enRec e) \<and> rContainerName (enRec e') = rContainerName (enRec e)
     \<and> enDone e' = enDone e \<and> enBusy e' = enBusy e \<and> enDeleting e' = enDeleting e"

definition calm :: "'w Deps \<Rightarrow> 'w Server \<Rightarrow> 'w Server \<Rightarrow> bool" where
  "calm d s s' \<longleftrightarrow> svSandboxes s' = svSandboxes s \<and> length (svHeap s') = length (svHeap s)
     \<and> (hubOk (svHub s) \<longrightarrow> hubOk (svHub s')) \<and> (recsOk d s \<longrightarrow> recsOk d s')
     \<and> (\<forall>r. sameFlags (getE s r) (getE s' r))"

lemma sameFlags_refl [simp]: "sameFlags e e"
  by (simp add: sameFlags_def)

lemma calm_refl: "calm d s s"
  by (simp add: calm_def)

lemma calm_trans: "calm d s s1 \<Longrightarrow> calm d s1 s2 \<Longrightarrow> calm d s s2"
  by (auto simp: calm_def sameFlags_def)

lemma calm_evolves: "calm d s s' \<Longrightarrow> evolves s s'"
  by (simp add: calm_def evolves_def sameFlags_def)

lemma calm_refs: "calm d s s' \<Longrightarrow> openRefs s' = openRefs s \<and> busyRefs s' = busyRefs s"
  by (simp add: calm_def openRefs_def busyRefs_def sameFlags_def)

lemma calm_base: "calm d s s' \<Longrightarrow> baseOk d s \<Longrightarrow> baseOk d s'"
  using calm_refs [of d s s']
  by (simp add: baseOk_def calm_def registryOk_def nameOk_def sameFlags_def)

lemma calm_recOf: "calm d s s' \<Longrightarrow> recOf s r rc \<Longrightarrow> recOf s' r rc"
  by (simp add: calm_def recOf_def sameFlags_def)

lemma calm_quiet: "quiet d s s' \<Longrightarrow> calm d s s'"
  by (simp add: quiet_def calm_def recsOk_def getE_def)

lemmas quiet_intros = quiet_publish quiet_platform quiet_rtCall quiet_image quiet_supervisor
  quiet_seed quiet_clear quiet_boot

lemma calm_publish [intro]: "calm d s (publishSandbox d' r s)"
  unfolding publishSandbox_def by (rule calm_quiet [OF quiet_publish])

lemma calm_platform [intro]: "calm d s (publishPlatformEvent t i ty re m s)"
  by (rule calm_quiet [OF quiet_platform])

lemma calm_setE:
  assumes "sameFlags (getE s r) (f (getE s r))" shows "calm d s (setE r f s)"
proof -
  have "sameFlags (getE s r') (getE (setE r f s) r')" for r'
    using assms by (cases "r' = r"; cases "r < length (svHeap s)") (auto simp: setE_def getE_def list_update_beyond)
  then show ?thesis by (simp add: calm_def frame_simps recsOk_def)
qed

lemma calm_condition [intro]: "calm d s (setCondition r c s)"
  unfolding setCondition_def by (rule calm_setE) (simp add: sameFlags_def)

lemma calm_world: "worldOnly s s' \<Longrightarrow> calm d s s'"
  using worldOnly_fields [of s s'] by (simp add: calm_def recsOk_def)

lemma calm_save: "nameOk rc \<Longrightarrow> calm d s (snd (saveRecord d orc rc s))"
proof -
  assume n: "nameOk rc"
  obtain e s' where 1: "saveRecord d orc rc s = (e, s')" by fastforce
  have "recsOk d s \<longrightarrow> recsOk d s'"
    using saveRecord_recs [of d orc rc s] 1 n by (cases e) (auto simp: recsOk_def)
  then show ?thesis using saveRecord_frame [OF 1] 1 by (simp add: calm_def getE_def)
qed

lemma calm_deleteRecord: "calm d s (snd (deleteRecord d orc i s))"
proof -
  obtain e s' where 1: "deleteRecord d orc i s = (e, s')" by fastforce
  have "recsOk d s \<longrightarrow> recsOk d s'"
    using deleteRecord_recs [of d orc i s] 1 by (cases e) (auto simp: recsOk_def)
  then show ?thesis using deleteRecord_frame [OF 1] 1 by (simp add: calm_def getE_def)
qed

lemma calm_deleteVM: "deleteVM d x n s = (a, s') \<Longrightarrow> calm d s s'"
  using deleteVM_frame [of d x n s a s'] by (simp add: calm_def getE_def recsOk_def)

lemma baseOk_entry: "baseOk d s \<Longrightarrow> r < length (svHeap s) \<Longrightarrow> recOf s r (enRec (getE s r))"
  by (simp add: baseOk_def recOf_def)

lemma calm_pin:
  assumes b: "baseOk d s" and r: "r < length (svHeap s)" and rc: "recOf s r rc"
    and p: "provPin d orc r rc im s = (a, s')"
  shows "calm d s s' \<and> (\<forall>rc1 img. a = Inr (rc1, img) \<longrightarrow> recOf s r rc1)"
proof (cases "imDigest im = []")
  case True
  then show ?thesis using p rc by (auto simp: provPin_def calm_refl)
next
  case False
  define s1 where "s1 = setE r (\<lambda>e. e\<lparr>enRec := (enRec e)\<lparr>rImageDigest := imDigest im\<rparr>\<rparr>) s"
  have own: "getE s1 r = (getE s r)\<lparr>enRec := (enRec (getE s r))\<lparr>rImageDigest := imDigest im\<rparr>\<rparr>"
    using r by (simp add: s1_def frame_simps)
  then have ok: "recOf s r (enRec (getE s1 r))" using baseOk_entry [OF b r] by (simp add: recOf_def nameOk_def)
  obtain e s2 where s2: "saveRecord d orc (enRec (getE s1 r)) s1 = (e, s2)" by fastforce
  have "s' = s2" "\<forall>rc1 img. a = Inr (rc1, img) \<longrightarrow> rc1 = enRec (getE s1 r)"
    using p False s2 by (auto simp: provPin_def s1_def [symmetric] Let_def split: option.splits)
  moreover have "calm d s s1" unfolding s1_def by (rule calm_setE) (simp add: sameFlags_def)
  moreover have "calm d s1 s2" using calm_save [of "enRec (getE s1 r)" d s1 orc] ok s2 by (simp add: recOf_def)
  ultimately show ?thesis using ok calm_trans by blast
qed

lemma nextPhase_eq:
  "nextPhase (a, s) k = (Some (case a of Inl e \<Rightarrow> PFinish (Some e) | Inr v \<Rightarrow> k v), s)"
  by (cases a) simp_all

lemma asResult_eq: "asResult (e, s) = (case e of Some x \<Rightarrow> Inl x | None \<Rightarrow> Inr (), s)"
  by (cases e) simp_all

text \<open>A phase of a task: it is calm, and it goes on with a phase that carries its own record.\<close>

definition phaseOk :: "'w Server \<Rightarrow> nat \<Rightarrow> pphase \<Rightarrow> bool" where
  "phaseOk s r ph \<longleftrightarrow> (case phaseRec ph of None \<Rightarrow> True | Some rc \<Rightarrow> recOf s r rc)"

lemma phaseOk_calm: "calm d s s' \<Longrightarrow> phaseOk s r ph \<Longrightarrow> phaseOk s' r ph"
  by (auto simp: phaseOk_def calm_recOf split: option.splits)

lemma provStep_calm:
  assumes b: "baseOk d s" and r: "r < length (svHeap s)" and ph: "phaseOk s r ph" "ph \<noteq> PClose"
    and st: "provStep d orc r sb ph s = (nx, s')"
  shows "calm d s s' \<and> (\<exists>ph'. nx = Some ph' \<and> phaseOk s r ph')"
proof (cases ph)
  case PStart
  obtain a s1 where 1: "provImage d orc (taskCtx s r) (enRec (getE s r)) s = (a, s1)" by fastforce
  have "calm d s s1" using calm_quiet [OF quiet_image [of d s orc "taskCtx s r" "enRec (getE s r)"]] 1 by simp
  then show ?thesis
    using st PStart 1 baseOk_entry [OF b r]
    by (auto simp: Let_def nextPhase_eq phaseOk_def calm_refl split: sum.splits)
next
  case (PPin rc dcfg im)
  obtain a s1 where 1: "provPin d orc r rc im s = (a, s1)" by fastforce
  have "recOf s r rc" using ph PPin by (simp add: phaseOk_def)
  from calm_pin [OF b r this 1] show ?thesis
    using st PPin 1 by (auto simp: nextPhase_eq phaseOk_def split: sum.splits)
next
  case (PSupervisor rc dcfg im img)
  obtain a s1 where 1: "provSupervisor d orc (taskCtx s r) s = (a, s1)" by fastforce
  have "calm d s s1" using calm_quiet [OF quiet_supervisor [of d s orc "taskCtx s r"]] 1 by simp
  then show ?thesis
    using st PSupervisor 1 ph by (auto simp: nextPhase_eq phaseOk_def split: sum.splits)
next
  case (PSeed rc dcfg im img p)
  obtain a s1 where 1: "provSeed d orc (rID rc) p (GetSandboxToken (GetSpec (Some sb))) s = (a, s1)" by fastforce
  have "calm d s s1"
    using calm_quiet [OF quiet_seed [of d s orc "rID rc" p "GetSandboxToken (GetSpec (Some sb))"]] 1 by simp
  then show ?thesis
    using st PSeed 1 ph by (auto simp: nextPhase_eq asResult_eq phaseOk_def split: sum.splits option.splits)
next
  case (PSpec rc dcfg im img)
  then show ?thesis
    using st ph by (auto simp: nextPhase_eq phaseOk_def calm_refl split: sum.splits)
next
  case (PClear rc spec)
  obtain a s1 where 1: "provClear d (taskCtx s r) (rContainerName rc) s = (a, s1)" by fastforce
  have "calm d s s1" using calm_quiet [OF quiet_clear [of d s "taskCtx s r" "rContainerName rc"]] 1 by simp
  then show ?thesis
    using st PClear 1 by (auto simp: nextPhase_eq asResult_eq phaseOk_def split: sum.splits option.splits)
next
  case (PBoot spec)
  obtain a s1 where 1: "provBoot d (taskCtx s r) spec s = (a, s1)" by fastforce
  have "calm d s s1" using calm_quiet [OF quiet_boot [of d s "taskCtx s r" spec]] 1 by simp
  then show ?thesis using st PBoot 1 by (auto simp: phaseOk_def)
next
  case (PFinish res)
  then show ?thesis using st by (auto simp: phaseOk_def calm_refl split: option.splits if_splits)
next
  case (PPublish res)
  then show ?thesis using st by (auto simp: phaseOk_def)
next
  case (PEvent res)
  then show ?thesis using st by (auto simp: phaseOk_def split: option.splits)
qed (use ph in simp_all)

lemma calm_stopStart:
  assumes "(if b then stopVM d x rc s else startVM d x rc s) = (a, s')"
  shows "calm d s s'"
  using assms stopVM_frame [of d x rc s a s'] startVM_frame [of d x rc s a s']
  by (auto simp: calm_def recsOk_def getE_def split: if_splits)

definition lphaseOk :: "'w Server \<Rightarrow> nat \<Rightarrow> lphase \<Rightarrow> bool" where
  "lphaseOk s r ph \<longleftrightarrow> (case ph of LSave rc \<Rightarrow> recOf s r rc | _ \<Rightarrow> True)"

lemma lphaseOk_calm: "calm d s s' \<Longrightarrow> lphaseOk s r ph \<Longrightarrow> lphaseOk s' r ph"
  by (auto simp: lphaseOk_def calm_recOf split: lphase.splits)

lemma lifeStep_calm:
  assumes b: "baseOk d s" and r: "r < length (svHeap s)" and ph: "lphaseOk s r ph" "ph \<noteq> LRelease"
    and st: "lifeStep d orc x b' r rc ph s = (nx, s')"
  shows "calm d s s' \<and> (\<exists>ph'. nx = Some ph' \<and> lphaseOk s r ph')"
proof (cases ph)
  case LVM
  obtain a s1 where 1: "(if b' then stopVM d x rc s else startVM d x rc s) = (a, s1)" by fastforce
  show ?thesis using st LVM 1 calm_stopStart [OF 1] by (auto simp: lphaseOk_def)
next
  case LMark
  have "calm d s s'" using st LMark by (auto simp: Let_def markStopped_def sameFlags_def intro!: calm_setE)
  moreover have "recOf s r (enRec (getE (markStopped b' r s) r))"
    using baseOk_entry [OF b r] r by (simp add: markStopped_def frame_simps recOf_def nameOk_def)
  ultimately show ?thesis using st LMark by (auto simp: Let_def lphaseOk_def)
next
  case (LSave rc1)
  obtain e s1 where 1: "saveRecord d orc rc1 s = (e, s1)" by fastforce
  have "nameOk rc1" using ph LSave by (simp add: lphaseOk_def recOf_def)
  from calm_save [OF this, of d s orc] 1 st LSave show ?thesis by (auto simp: lphaseOk_def)
next
  case LSet
  then show ?thesis using st by (auto simp: lphaseOk_def)
next
  case LPublish
  then show ?thesis using st by (auto simp: lphaseOk_def)
next
  case LEvent
  then show ?thesis using st by (auto simp: lphaseOk_def)
qed (use ph in simp_all)

lemma pollStep_flags: "sameFlags e (fst (pollStep now cs e))"
  by (auto simp: pollStep_def sameFlags_def Let_def split: option.splits)

lemma pollScan_calm:
  "pollScan now cs irs s = (s', chs, exs, pes) \<Longrightarrow>
     calm d s s' \<and> set chs \<union> set exs \<union> set pes \<subseteq> set (map snd irs)"
proof (induction irs arbitrary: s s' chs exs pes)
  case Nil
  then show ?case by (simp add: calm_refl)
next
  case (Cons ir irs)
  obtain i r where ir: "ir = (i, r)" by (cases ir)
  obtain e ch ex pe where e: "pollStep now cs (getE s r) = (e, ch, ex, pe)" by (metis prod_cases4)
  obtain s1 chs1 exs1 pes1 where 1: "pollScan now cs irs (setE r (\<lambda>_. e) s) = (s1, chs1, exs1, pes1)"
    by (metis prod_cases4)
  have "sameFlags (getE s r) e" using pollStep_flags [of "getE s r" now cs] e by simp
  then have "calm d s (setE r (\<lambda>_. e) s)" by (intro calm_setE)
  moreover note Cons.IH [OF 1]
  moreover have "s' = s1" "chs = (if ch then r # chs1 else chs1)" "exs = (if ex then r # exs1 else exs1)"
    "pes = (if pe then r # pes1 else pes1)"
    using Cons.prems e 1 ir by simp_all
  ultimately show ?case using calm_trans ir by auto
qed

lemma pollStepQ_calm:
  assumes b: "baseOk d s" and ph: "pollOk s ph" and st: "pollStepQ d orc ph s = (nx, s')"
  shows "calm d s s' \<and> (\<forall>ph'. nx = Some ph' \<longrightarrow> pollOk s' ph')"
proof (cases ph)
  case QList
  obtain a s1 where 1: "rtCall (rtList (dpRt d) (svClosed s) True) s = (a, s1)" by fastforce
  have "calm d s s1" using calm_quiet [OF quiet_rtCall [of d s "rtList (dpRt d) (svClosed s) True"]] 1 by simp
  then show ?thesis
    using st QList 1 by (auto simp: pollOk_def calm_refl split: if_splits sum.splits)
next
  case (QScan cs)
  obtain s1 chs exs pes where 1: "pollScan (orNow orc) cs (svSandboxes s) s = (s1, chs, exs, pes)"
    by (metis prod_cases4)
  have r: "r < length (svHeap s)" if "r \<in> set (map snd (svSandboxes s))" for r
    using registryOk_refs(3) [OF _ that] b by (simp add: baseOk_def)
  note f = pollScan_calm [OF 1, of d]
  then have l: "length (svHeap s1) = length (svHeap s)" by (simp add: calm_def)
  have u: "set (pollRefs (QRec pes exs chs)) \<subseteq> set (map snd (svSandboxes s))" using f by auto
  have "x < length (svHeap s1)" if "x \<in> set (pollRefs (QRec pes exs chs))" for x
    using r [OF subsetD [OF u that]] l by simp
  then have "pollOk s1 (QRec pes exs chs)" by (simp add: pollOk_def)
  then show ?thesis using st QScan 1 f by auto
next
  case (QRec pes exs chs)
  show ?thesis
  proof (cases pes)
    case Nil
    then show ?thesis using st ph QRec by (auto simp: pollOk_def calm_refl)
  next
    case (Cons r pes')
    then have "nameOk (enRec (getE s r))" using ph QRec b by (simp add: pollOk_def baseOk_def)
    then show ?thesis using st ph QRec Cons by (auto simp: pollOk_def calm_refl)
  qed
next
  case (QSave rc pes exs chs)
  have "nameOk rc" using ph QSave by (simp add: pollOk_def)
  then have c: "calm d s (snd (saveRecord d orc rc s))" by (rule calm_save)
  then have "length (svHeap (snd (saveRecord d orc rc s))) = length (svHeap s)" by (simp add: calm_def)
  then show ?thesis using st QSave ph c by (auto simp: pollOk_def)
next
  case (QLogs exs chs)
  show ?thesis
  proof (cases exs)
    case Nil
    then show ?thesis using st ph QLogs by (auto simp: pollOk_def calm_refl)
  next
    case (Cons r exs')
    obtain t s1 where 1: "consoleTail d (svClosed s) (rContainerName (enRec (getE s r))) s = (t, s1)" by fastforce
    have w: "worldOnly s s1" using worldOnly_tail [of s d "svClosed s" "rContainerName (enRec (getE s r))"] 1 by simp
    have "length (svHeap s1) = length (svHeap s)" using worldOnly_fields(3) [OF w] by simp
    then show ?thesis
      using st ph QLogs Cons 1 calm_world [OF w] by (cases "t = []") (auto simp: pollOk_def)
  qed
next
  case (QTail r t exs chs)
  then show ?thesis
    using st ph by (auto simp: pollOk_def calm_refl frame_simps sameFlags_def intro!: calm_setE split: if_splits)
next
  case (QWarn r t exs chs)
  then show ?thesis using st ph by (auto simp: pollOk_def frame_simps)
next
  case (QPublish chs)
  then show ?thesis using st ph by (cases chs) (auto simp: pollOk_def frame_simps calm_refl)
qed

text \<open>The steps that are not calm: the ends of a task and of a stop or start, and the forgetting.\<close>

lemma setE_evolves:
  assumes "rID (enRec (f (getE s r))) = rID (enRec (getE s r))" "enDeleting (getE s r) \<Longrightarrow> enDeleting (f (getE s r))"
  shows "evolves s (setE r f s)"
proof -
  have "rID (enRec (getE (setE r f s) r')) = rID (enRec (getE s r'))
      \<and> (enDeleting (getE s r') \<longrightarrow> enDeleting (getE (setE r f s) r'))" if "r' < length (svHeap s)" for r'
    using assms that by (cases "r' = r") (simp_all add: frame_simps)
  then show ?thesis by (simp add: evolves_def frame_simps)
qed

lemma setE_base:
  assumes b: "baseOk d s" and f: "sameFlags (getE s r) ((f (getE s r))\<lparr>enDone := enDone (getE s r),
      enBusy := enBusy (getE s r), enDeleting := enDeleting (getE s r)\<rparr>)"
    and nb: "enDone (f (getE s r)) = OpenChan \<Longrightarrow> \<not> enBusy (f (getE s r))"
  shows "baseOk d (setE r f s)"
proof -
  have e: "getE (setE r f s) r' = (if r' = r then f (getE s r) else getE s r')" if "r' < length (svHeap s)" for r'
    using that by (simp add: frame_simps)
  show ?thesis
    using b f nb unfolding baseOk_def registryOk_def recsOk_def nameOk_def openRefs_def busyRefs_def sameFlags_def
    by (auto simp: e frame_simps split: if_splits)
qed

lemma closeDone_facts:
  assumes b: "baseOk d s" and r: "r < length (svHeap s)"
  shows "baseOk d (closeDone r s)" "evolves s (closeDone r s)"
    "openRefs (closeDone r s) = openRefs s - {r}" "busyRefs (closeDone r s) = busyRefs s"
proof -
  show "baseOk d (closeDone r s)" unfolding closeDone_def by (rule setE_base [OF b]) (simp_all add: sameFlags_def)
  show "evolves s (closeDone r s)" unfolding closeDone_def by (rule setE_evolves) simp_all
  have e: "getE (closeDone r s) r' = (if r' = r then (getE s r)\<lparr>enDone := ClosedChan\<rparr> else getE s r')"
    if "r' < length (svHeap s)" for r'
    using that by (simp add: closeDone_def frame_simps)
  have l: "length (svHeap (closeDone r s)) = length (svHeap s)" by (simp add: closeDone_def frame_simps)
  show "openRefs (closeDone r s) = openRefs s - {r}" using e l by (auto simp: openRefs_def split: if_splits)
  show "busyRefs (closeDone r s) = busyRefs s" using e l by (auto simp: busyRefs_def split: if_splits)
qed

lemma releaseBusy_inv:
  assumes b: "baseOk d s" and r: "r < length (svHeap s)"
  shows "baseOk d (releaseBusy r s)" "evolves s (releaseBusy r s)"
    "openRefs (releaseBusy r s) = openRefs s" "busyRefs (releaseBusy r s) = busyRefs s - {r}"
proof -
  show "baseOk d (releaseBusy r s)" unfolding releaseBusy_def by (rule setE_base [OF b]) (simp_all add: sameFlags_def)
  show "evolves s (releaseBusy r s)" unfolding releaseBusy_def by (rule setE_evolves) simp_all
  have e: "getE (releaseBusy r s) r' = (if r' = r then (getE s r)\<lparr>enBusy := False\<rparr> else getE s r')"
    if "r' < length (svHeap s)" for r'
    using that by (simp add: releaseBusy_def frame_simps)
  have l: "length (svHeap (releaseBusy r s)) = length (svHeap s)" by (simp add: releaseBusy_def frame_simps)
  show "openRefs (releaseBusy r s) = openRefs s" using e l by (auto simp: openRefs_def split: if_splits)
  show "busyRefs (releaseBusy r s) = busyRefs s - {r}" using e l by (auto simp: busyRefs_def split: if_splits)
qed

lemma cancelTask_calm: "calm d s (cancelTask r s)"
  by (auto simp: cancelTask_def calm_refl sameFlags_def intro!: calm_setE)

lemma forget_facts:
  assumes b: "baseOk d s" and s': "s' = s\<lparr>svSandboxes := AList.delete i (svSandboxes s)\<rparr>"
  shows "baseOk d s'" "evolves s s'" "openRefs s' = openRefs s" "busyRefs s' = busyRefs s"
  using b by (auto simp: s' baseOk_def registryOk_def recsOk_def evolves_def openRefs_def busyRefs_def
      getE_def delete_conv split: if_splits)

text \<open>One step of a handler, whatever it is.\<close>

definition okAfter :: "'w Deps \<Rightarrow> act \<Rightarrow> act option \<Rightarrow> 'w Server \<Rightarrow> 'w Server \<Rightarrow> bool" where
  "okAfter d a nx s s' \<longleftrightarrow> baseOk d s' \<and> evolves s s'
     \<and> (\<forall>b. nx = Some b \<longrightarrow> actOk s' b \<and> provRef b = provRef a \<and> lifeRef b = lifeRef a)
     \<and> openRefs s' = (if nx = None then openRefs s - set (provRef a) else openRefs s)
     \<and> busyRefs s' = (if nx = None then busyRefs s - set (lifeRef a) else busyRefs s)"

lemma okAfter_calm:
  assumes "calm d s s'" "baseOk d s" "nx = None \<Longrightarrow> provRef a = [] \<and> lifeRef a = []"
    "\<And>b. nx = Some b \<Longrightarrow> actOk s' b \<and> provRef b = provRef a \<and> lifeRef b = lifeRef a"
  shows "okAfter d a nx s s'"
  using calm_base [OF assms(1,2)] calm_evolves [OF assms(1)] calm_refs [OF assms(1)] assms(3,4)
  unfolding okAfter_def by (cases nx) auto

lemma delStep_ok:
  assumes b: "baseOk d s" and a: "actOk s (ADel r i n ph)" and st: "delStep d orc x r i n ph s = Some (nx, s')"
  shows "okAfter d (ADel r i n ph) (map_option (ADel r i n) nx) s s'"
proof -
  have keep: "okAfter d (ADel r i n ph) (map_option (ADel r i n) nx) s s'" if c: "calm d s s'"
    by (rule okAfter_calm [OF c b]) (use actOk_mono [OF calm_evolves [OF c] a] in auto)
  show ?thesis
  proof (cases ph)
    case (DVM x0)
    obtain v s1 where 1: "deleteVM d (x0 \<or> x) n s = (v, s1)" by fastforce
    show ?thesis by (rule keep) (use st DVM 1 calm_deleteVM [OF 1] in \<open>auto split: sum.splits\<close>)
  next
    case (DRec v)
    obtain e s1 where 1: "deleteRecord d orc i s = (e, s1)" by fastforce
    have "calm d s s1" using calm_deleteRecord [of d s orc i] 1 by simp
    then show ?thesis by (intro keep) (use st DRec 1 in \<open>auto split: option.splits\<close>)
  next
    case DForget
    then have s': "s' = s\<lparr>svSandboxes := AList.delete i (svSandboxes s)\<rparr>" "nx = Some DPublish"
      using st by auto
    from forget_facts [OF b s'(1)] actOk_mono [OF _ a] s'(2) show ?thesis
      by (auto simp: okAfter_def)
  next
    case DPublish
    then have "s' = publishDeleted i s" using st by simp
    then have "calm d s s'" unfolding publishDeleted_def by (simp add: calm_quiet quiet_publish)
    then show ?thesis by (rule keep)
  next
    case DAnnounce
    have "calm d s s'" using st DAnnounce by auto
    then show ?thesis by (rule keep)
  next
    case DCancel
    have "calm d s s'" using st DCancel cancelTask_calm by auto
    then show ?thesis by (rule keep)
  next
    case DWait
    have "calm d s s'" using st DWait by (auto simp: calm_refl split: if_splits)
    then show ?thesis by (rule keep)
  qed
qed

lemma actStep_ok:
  assumes b: "baseOk d s" and a: "actOk s a" and st: "actStep d orc x a s = Some (nx, s')"
  shows "okAfter d a nx s s'"
proof (cases a)
  case (ACreate r sb p)
  have c: "calm d s s'" using st ACreate by (cases p) auto
  show ?thesis
    by (rule okAfter_calm [OF c b])
      (use st ACreate a c in \<open>cases p; auto simp: calm_def\<close>)+
next
  case (AProv r sb ph)
  obtain nx' where n: "provStep d orc r sb ph s = (nx', s')" "nx = map_option (AProv r sb) nx'"
    using st AProv by (cases "provStep d orc r sb ph s") auto
  have r: "r < length (svHeap s)" "phaseOk s r ph" using a AProv by (simp_all add: phaseOk_def)
  show ?thesis
  proof (cases "ph = PClose")
    case True
    then have "nx = None" "s' = closeDone r s" using n by auto
    then show ?thesis using closeDone_facts [OF b r(1)] AProv by (simp add: okAfter_def)
  next
    case False
    from provStep_calm [OF b r(1,2) False n(1)] obtain ph' where
      c: "calm d s s'" and p: "nx' = Some ph'" "phaseOk s r ph'" by blast
    have "actOk s' (AProv r sb ph')"
      using phaseOk_calm [OF c p(2)] c r(1) by (simp add: phaseOk_def calm_def)
    then show ?thesis by (intro okAfter_calm [OF c b]) (use n(2) p AProv in auto)
  qed
next
  case (ADel r i n ph)
  then show ?thesis
    using st delStep_ok [OF b a [unfolded ADel], of orc x] by (auto simp: map_option_case split: option.splits)
next
  case (AGone i ph)
  have c: "calm d s s'"
  proof (cases ph)
    case UVM
    obtain v s1 where 1: "deleteVM d x (containerName i) s = (v, s1)" by fastforce
    then show ?thesis
      using st AGone UVM calm_deleteVM [OF 1] by (auto simp: calm_refl split: if_splits sum.splits)
  next
    case URec
    then show ?thesis using st AGone calm_deleteRecord by auto
  qed
  have "nx = map_option (AGone i) (fst (goneStep d orc x i ph s))"
    using st AGone by (cases "goneStep d orc x i ph s") auto
  then show ?thesis
    by (cases "fst (goneStep d orc x i ph s)") (auto simp: AGone intro: okAfter_calm [OF c b])
next
  case (ALife b' r rc ph)
  obtain nx' where n: "lifeStep d orc x b' r rc ph s = (nx', s')" "nx = map_option (ALife b' r rc) nx'"
    using st ALife by (cases "lifeStep d orc x b' r rc ph s") auto
  have r: "r < length (svHeap s)" "lphaseOk s r ph" "recOf s r rc"
    using a ALife by (simp_all add: lphaseOk_def)
  show ?thesis
  proof (cases "ph = LRelease")
    case True
    then have "nx = None" "s' = releaseBusy r s" using n by auto
    then show ?thesis using releaseBusy_inv [OF b r(1)] ALife by (simp add: okAfter_def)
  next
    case False
    from lifeStep_calm [OF b r(1,2) False n(1)] obtain ph' where
      c: "calm d s s'" and p: "nx' = Some ph'" "lphaseOk s r ph'" by blast
    have "actOk s' (ALife b' r rc ph')"
      using lphaseOk_calm [OF c p(2)] calm_recOf [OF c r(3)] c r(1) by (simp add: lphaseOk_def calm_def)
    then show ?thesis by (intro okAfter_calm [OF c b]) (use n(2) p ALife in auto)
  qed
next
  case (APoll ph)
  obtain nx' where n: "pollStepQ d orc ph s = (nx', s')" "nx = map_option APoll nx'"
    using st APoll by (cases "pollStepQ d orc ph s") auto
  have "pollOk s ph" using a APoll by simp
  note c = pollStepQ_calm [OF b this n(1)]
  show ?thesis by (rule okAfter_calm [OF conjunct1 [OF c] b]) (use c n(2) APoll in auto)
qed

subsection \<open>The invariant holds\<close>

lemma sysInv_calm:
  assumes c: "calm d s s'" and i: "sysInv d (as, s)" shows "sysInv d (as, s')"
  using i calm_base [OF c] calm_refs [OF c] actOk_mono [OF calm_evolves [OF c]] by (simp add: sysInv_def)

lemma refs_replace:
  assumes "k < length as"
  shows "provRefs (replaceAct k nx as) = provRefs (take k as)
      @ (case nx of None \<Rightarrow> [] | Some a \<Rightarrow> provRef a) @ provRefs (drop (Suc k) as)"
    "lifeRefs (replaceAct k nx as) = lifeRefs (take k as)
      @ (case nx of None \<Rightarrow> [] | Some a \<Rightarrow> lifeRef a) @ lifeRefs (drop (Suc k) as)"
    "provRefs as = provRefs (take k as) @ provRef (as ! k) @ provRefs (drop (Suc k) as)"
    "lifeRefs as = lifeRefs (take k as) @ lifeRef (as ! k) @ lifeRefs (drop (Suc k) as)"
proof -
  have "as = take k as @ as ! k # drop (Suc k) as" using assms by (simp add: id_take_nth_drop)
  then show "provRefs as = provRefs (take k as) @ provRef (as ! k) @ provRefs (drop (Suc k) as)"
    "lifeRefs as = lifeRefs (take k as) @ lifeRef (as ! k) @ lifeRefs (drop (Suc k) as)"
    unfolding provRefs_def lifeRefs_def by (metis concat_append concat.simps(2) list.simps(9) map_append)+
qed (auto simp: replaceAct_def provRefs_def lifeRefs_def split: option.split)

lemma sysInv_step:
  assumes inv: "sysInv d (as, s)" and k: "k < length as" and st: "actStep d orc x (as ! k) s = Some (nx, s')"
  shows "sysInv d (replaceAct k nx as, s')"
proof -
  have b: "baseOk d s" and a: "\<forall>a \<in> set as. actOk s a"
    and p: "distinct (provRefs as)" "set (provRefs as) = openRefs s"
    and l: "distinct (lifeRefs as)" "set (lifeRefs as) = busyRefs s"
    using inv by (auto simp: sysInv_def)
  have "actOk s (as ! k)" using a k by simp
  note f = actStep_ok [OF b this st, unfolded okAfter_def]
  then have old: "\<forall>a \<in> set as. actOk s' a" using a actOk_mono by blast
  have "set (replaceAct k nx as) \<subseteq> set as \<union> set_option nx"
    by (auto simp: replaceAct_def split: option.splits dest: in_set_takeD in_set_dropD)
  then have acts: "\<forall>a \<in> set (replaceAct k nx as). actOk s' a" using old f by (auto simp: subset_iff)
  note r = refs_replace(1,2) [OF k, of nx] and r' = refs_replace(3,4) [OF k]
  show ?thesis
  proof (cases nx)
    case None
    have "set (provRefs (replaceAct k nx as)) = set (provRefs as) - set (provRef (as ! k))"
      "set (lifeRefs (replaceAct k nx as)) = set (lifeRefs as) - set (lifeRef (as ! k))"
      using p(1) l(1) r(1,2) unfolding r' None by auto
    moreover have "distinct (provRefs (replaceAct k nx as))" "distinct (lifeRefs (replaceAct k nx as))"
      using p(1) l(1) r(1,2) unfolding r' None by auto
    ultimately show ?thesis using f acts p l None by (simp add: sysInv_def)
  next
    case (Some a')
    then have "provRefs (replaceAct k nx as) = provRefs as" "lifeRefs (replaceAct k nx as) = lifeRefs as"
      using f r r' by simp_all
    then show ?thesis using f acts p l Some by (simp add: sysInv_def)
  qed
qed

lemma create_inv:
  assumes inv: "sysInv d (as, s)" and c: "createCheck d now (Some sb) = Inr rc"
    and g: "createRegister d orc rc s = (Inr r, s')"
  shows "sysInv d (ACreate r sb False # as, s')"
proof -
  note f = createRegister_ok [OF g]
  have b: "baseOk d s" using inv by (simp add: sysInv_def)
  have n: "nameOk rc" using createCheck_ok [OF c] by (auto simp: nameOk_def createRecord_def)
  have e: "getE s' r' = (if r' = r then newEntry rc (orNow orc) else getE s r')" if "r' \<le> length (svHeap s)" for r'
    using f that by (auto simp: getE_def nth_append)
  have l: "length (svHeap s') = Suc (length (svHeap s))" "r = length (svHeap s)" using f by simp_all
  have ev: "evolves s s'" using e l by (simp add: evolves_def)
  have o: "openRefs s' = insert r (openRefs s)" "busyRefs s' = busyRefs s"
    using e l by (auto simp: openRefs_def busyRefs_def newEntry_def less_Suc_eq split: if_splits)
  have r: "r \<notin> openRefs s" "r \<notin> busyRefs s" using l by (auto simp: openRefs_def busyRefs_def)
  have "registryOk s'" using createRegister_registryOk [OF _ g] b by (simp add: baseOk_def)
  moreover have "recsOk d s'" using b n f by (auto simp: baseOk_def recsOk_def)
  moreover have "nameOk (enRec (getE s' r'))" if "r' < length (svHeap s')" for r'
    using that b n e l by (auto simp: baseOk_def newEntry_def less_Suc_eq)
  ultimately have "baseOk d s'" using b f o r by (auto simp: baseOk_def)
  then show ?thesis
    using inv o r l actOk_mono [OF ev] by (simp add: sysInv_def provRefs_def lifeRefs_def)
qed

lemma deleteBegin_inv:
  assumes inv: "sysInv d (as, s)" and g: "deleteBegin orc i name s = (Some (r, i', n), s')"
  shows "sysInv d (ADel r i' n DAnnounce # as, s')"
proof -
  have b: "baseOk d s" using inv by (simp add: sysInv_def)
  have l: "lookupLocked i name s = Some r" and i': "i' = rID (enRec (getE s r))"
    "n = rContainerName (enRec (getE s r))"
    and s': "s' = setE r (\<lambda>e. e\<lparr>enDeleting := True, enCond := deletingCondition (orNow orc)\<rparr>) s"
    using g by (auto simp: deleteBegin_def split: option.splits)
  have r: "r < length (svHeap s)" using lookupLocked_known [OF _ l] b by (simp add: baseOk_def)
  have ev: "evolves s s'" unfolding s' by (rule setE_evolves) simp_all
  have e: "getE s' r' = (if r' = r then (getE s r)\<lparr>enDeleting := True, enCond := deletingCondition (orNow orc)\<rparr>
      else getE s r')" if "r' < length (svHeap s)" for r'
    using that by (simp add: s' frame_simps)
  have le: "length (svHeap s') = length (svHeap s)" by (simp add: s' frame_simps)
  have o: "openRefs s' = openRefs s" "busyRefs s' = busyRefs s"
    using e le by (auto simp: openRefs_def busyRefs_def split: if_splits)
  have "openRefs s \<inter> busyRefs s = {}" using b by (simp add: baseOk_def)
  then have nb: "enDone (getE s r) = OpenChan \<longrightarrow> \<not> enBusy (getE s r)"
    using r by (auto simp: openRefs_def busyRefs_def)
  have "baseOk d s'" unfolding s' by (rule setE_base [OF b]) (use nb in \<open>simp_all add: sameFlags_def\<close>)
  moreover have "n = containerName i'" using b r i' by (simp add: baseOk_def nameOk_def)
  ultimately show ?thesis
    using inv o r le i' e actOk_mono [OF ev] by (simp add: sysInv_def provRefs_def lifeRefs_def)
qed

lemma life_inv:
  assumes inv: "sysInv d (as, s)" and g: "beginLifecycle i name s = (Inr r, s')"
  shows "sysInv d (ALife b r (enRec (getE s' r)) LVM # as, s')"
proof -
  have b: "baseOk d s" using inv by (simp add: sysInv_def)
  have l: "lookupLocked i name s = Some r" and a: "admits (getE s r)"
    and s': "s' = setE r (enBusy_update (\<lambda>_. True)) s"
    using g by (auto simp: beginLifecycle_Inr)
  have r: "r < length (svHeap s)" using lookupLocked_known [OF _ l] b by (simp add: baseOk_def)
  have ev: "evolves s s'" unfolding s' by (rule setE_evolves) simp_all
  have e: "getE s' r' = (if r' = r then (getE s r)\<lparr>enBusy := True\<rparr> else getE s r')"
    if "r' < length (svHeap s)" for r'
    using that by (simp add: s' frame_simps)
  have le: "length (svHeap s') = length (svHeap s)" by (simp add: s' frame_simps)
  have o: "openRefs s' = openRefs s" "busyRefs s' = insert r (busyRefs s)"
    using e le r by (auto simp: openRefs_def busyRefs_def split: if_splits)
  have nr: "r \<notin> busyRefs s" using a by (simp add: busyRefs_def admits_def)
  have base: "baseOk d s'"
    unfolding s' by (rule setE_base [OF b]) (use a in \<open>simp_all add: sameFlags_def admits_def provisionDone_def\<close>)
  moreover have "recOf s' r (enRec (getE s' r))" using baseOk_entry [OF base] r le by simp
  ultimately show ?thesis
    using inv o r le nr actOk_mono [OF ev] by (simp add: sysInv_def provRefs_def lifeRefs_def)
qed

lemma bootRegister_heap: "svHeap (bootRegister es s) = svHeap s @ es"
  by (induction es s rule: bootRegister.induct) simp_all

lemma restart_inv:
  assumes inv: "sysInv d (as, s)" and fs: "recordsOf (dpRoot d) fs = recs d s" and st: "storeOk (dpRoot d) fs"
    and boot: "Bootstrap d orc x (newServer w fs) = (None, s')"
  shows "sysInv d ([], s')"
proof (rule Bootstrap_ok [OF boot])
  fix records skipped cs s1 es s2 s3
  let ?s = "newServer w fs"
  assume l: "ListRecords (dpRoot d) (svDisk ?s) = Inr (records, skipped)"
    and rl: "rtCall (rtList (dpRt d) x True) ?s = (Inr cs, s1)"
    and be: "bootEntries d x (orNow orc) cs records s1 = (es, s2)"
    and s3: "s3 = bootRegister es s2" and s': "s' = deleteOrphans d x (keysOf (svSandboxes s3)) cs s3"
  have n: "svDisk ?s = fs" "svHub ?s = newHub" "svHeap ?s = []" "svSandboxes ?s = []"
    by (simp_all add: newServer_def)
  note f = bootEntries_facts [OF be]
  have "worldOnly ?s s1" using worldOnly_rtCall [of ?s "rtList (dpRt d) x True"] rl by simp
  then have w2: "worldOnly ?s s2" and w3: "worldOnly s3 s'"
    using f worldOnly_trans by (blast, simp add: s' worldOnly_orphans)
  note w2 = worldOnly_fields [OF w2, unfolded n] and w3 = worldOnly_fields [OF w3]
  have rec: "distinct (map rID records)" "\<And>q. q \<in> set records \<Longrightarrow> recs d s (rID q) = Some q"
    using List_records [OF st] l n fs by auto
  have "map rID (map enRec es) = map rID records" using f by simp
  then have d: "distinct (map (\<lambda>e. rID (enRec e)) es)" using rec(1) by (simp add: comp_def)
  have "registryOk s2" using w2 by (simp add: registryOk_def)
  from bootRegister_view [OF this d] have "registryOk s3" by (simp add: s3)
  moreover have h: "svHeap s3 = es" "svHub s3 = newHub" "svDisk s3 = fs"
    using bootRegister_heap [of es s2] bootRegister_frame [of es s2] w2 s3 by simp_all
  moreover have "recsOk d s" using inv by (simp add: sysInv_def baseOk_def)
  moreover have e: "\<exists>c. getE s' r = adopted (enRec (getE s' r)) c \<and> enRec (getE s' r) \<in> set records"
    if "r < length (svHeap s')" for r
  proof -
    have "getE s' r \<in> set es" using that w3 h by (simp add: getE_def)
    moreover have "enRec (getE s' r) \<in> set records" using calculation f by (metis image_eqI list.set_map)
    ultimately show ?thesis using f by blast
  qed
  have op: "openRefs s' = {}" "busyRefs s' = {}"
    unfolding openRefs_def busyRefs_def using e by (auto simp: adopted_def) (metis chanState.distinct(1) entry.select_convs(6) entry.select_convs(4))+
  have "nameOk (enRec (getE s' r))" if "r < length (svHeap s')" for r
    using e [OF that] rec(2) \<open>recsOk d s\<close> by (auto simp: recsOk_def)
  ultimately have "baseOk d s'" using w3 op fs by (auto simp: baseOk_def registryOk_def recsOk_def)
  then show ?thesis using op by (simp add: sysInv_def provRefs_def lifeRefs_def)
qed

lemma calm_hub: "hubOk (svHub s) \<longrightarrow> hubOk h \<Longrightarrow> calm d s (s\<lparr>svHub := h\<rparr>)"
  by (simp add: calm_def getE_def recsOk_def)

lemma sysStep_inv: "sysStep d c c' \<Longrightarrow> sysInv d c \<Longrightarrow> sysInv d c'"
proof (induction rule: sysStep.induct)
  case (CreateFails now sb rc orc s st s' as)
  have "calm d s s'" using createRegister_err [OF CreateFails(2)] by (simp add: calm_def getE_def recsOk_def)
  then show ?case using CreateFails sysInv_calm by blast
next
  case (DeleteUnknown i name s as)
  then show ?case by (simp add: sysInv_def provRefs_def lifeRefs_def)
next
  case (Poll as s)
  then show ?case by (simp add: sysInv_def provRefs_def lifeRefs_def pollOk_def)
next
  case (Watch s w evs s' as)
  then have "s' = s\<lparr>svHub := snd (subscribe (svHub s))\<rparr>" by (auto simp: watchBegin_def Let_def split: prod.splits)
  then show ?case using Watch sysInv_calm calm_hub hubOk_subscribe by metis
next
  case (WatchNext w s ev s' as)
  then have "s' = s\<lparr>svHub := snd (hubReceive w (svHub s))\<rparr>" by (auto simp: watchNext_def split: prod.splits)
  then show ?case using WatchNext sysInv_calm calm_hub hubOk_receive by metis
next
  case (WatchEnd as s w)
  have "calm d s (watchEnd w s)" unfolding watchEnd_def by (rule calm_hub) (simp add: hubOk_unsubscribe)
  then show ?case using WatchEnd sysInv_calm by blast
next
  case (World as s w)
  have "calm d s (s\<lparr>svWorld := w\<rparr>)" by (simp add: calm_def getE_def recsOk_def)
  then show ?case using World sysInv_calm by blast
next
  case (Close as s)
  have "calm d s (closeServer s)" by (simp add: calm_def getE_def recsOk_def closeServer_def)
  then show ?case using Close sysInv_calm by blast
qed (blast intro: create_inv deleteBegin_inv life_inv sysInv_step restart_inv)+

lemma reachable_inv: "reachable d c \<Longrightarrow> sysInv d c"
proof (induction rule: reachable.induct)
  case (Init fs w)
  then show ?case
    by (simp add: sysInv_def baseOk_def registryOk_def recsOk_def newServer_def openRefs_def busyRefs_def
        provRefs_def lifeRefs_def)
qed (rule sysStep_inv)


text \<open>
  C9. In every reachable state the registry is a function from identifiers to live entries
  that carry that identifier, every record on disk lies under its own identifier, every
  entry and every record names the container derived from that identifier, so that no two
  sandboxes share one, and every watch channel is within its bound.
\<close>

theorem reachable_wellformed:
  assumes "reachable d (as, s)"
  shows "registryOk s \<and> hubOk (svHub s)
    \<and> (\<forall>i rc. recs d s i = Some rc \<longrightarrow> rID rc = i \<and> rContainerName rc = containerName i)
    \<and> (\<forall>i r. map_of (svSandboxes s) i = Some r \<longrightarrow> rContainerName (enRec (getE s r)) = containerName i)"
  using reachable_inv [OF assms] by (auto simp: sysInv_def baseOk_def recsOk_def nameOk_def registryOk_def)

subsection \<open>Progress\<close>

text \<open>How far a handler is from its end: the phases left, and the entries a poll has to visit.\<close>

fun provRank :: "pphase \<Rightarrow> nat" where
  "provRank PStart = 10"
| "provRank (PPin rc dcfg im) = 9"
| "provRank (PSupervisor rc dcfg im img) = 8"
| "provRank (PSeed rc dcfg im img p) = 7"
| "provRank (PSpec rc dcfg im img) = 6"
| "provRank (PClear rc spec) = 5"
| "provRank (PBoot spec) = 4"
| "provRank (PFinish res) = 3"
| "provRank (PPublish res) = 2"
| "provRank (PEvent res) = 1"
| "provRank PClose = 0"

fun delRank :: "dphase \<Rightarrow> nat" where
  "delRank DAnnounce = 6"
| "delRank DCancel = 5"
| "delRank DWait = 4"
| "delRank (DVM b) = 3"
| "delRank (DRec b) = 2"
| "delRank DForget = 1"
| "delRank DPublish = 0"

fun lifeRank :: "lphase \<Rightarrow> nat" where
  "lifeRank LVM = 6"
| "lifeRank LMark = 5"
| "lifeRank (LSave rc) = 4"
| "lifeRank LSet = 3"
| "lifeRank LPublish = 2"
| "lifeRank LEvent = 1"
| "lifeRank LRelease = 0"

fun pollRank :: "qphase \<Rightarrow> nat \<times> nat" where
  "pollRank QList = (4, 0)"
| "pollRank (QScan cs) = (3, 0)"
| "pollRank (QRec pes exs chs) = (2, 2 * length pes)"
| "pollRank (QSave rc pes exs chs) = (2, 2 * length pes + 1)"
| "pollRank (QLogs exs chs) = (1, 3 * length exs)"
| "pollRank (QTail r t exs chs) = (1, 3 * length exs + 2)"
| "pollRank (QWarn r t exs chs) = (1, 3 * length exs + 1)"
| "pollRank (QPublish chs) = (0, length chs)"

fun actRank :: "act \<Rightarrow> nat \<times> nat" where
  "actRank (ACreate r sb b) = (if b then 11 else 12, 0)"
| "actRank (AProv r sb ph) = (provRank ph, 0)"
| "actRank (ADel r i n ph) = (delRank ph, 0)"
| "actRank (AGone i ph) = (if ph = UVM then 1 else 0, 0)"
| "actRank (ALife b r rc ph) = (lifeRank ph, 0)"
| "actRank (APoll ph) = pollRank ph"

abbreviation rankLess :: "((nat \<times> nat) \<times> (nat \<times> nat)) set" where
  "rankLess \<equiv> less_than <*lex*> less_than"

lemma provStep_rank: "provStep d orc r sb ph s = (Some ph', s') \<Longrightarrow> provRank ph' < provRank ph"
  by (cases ph) (auto simp: nextPhase_eq asResult_eq Let_def split: sum.splits option.splits prod.splits if_splits
      elim!: nextPhase.elims)

lemma delStep_rank: "delStep d orc x r i n ph s = Some (Some ph', s') \<Longrightarrow> delRank ph' < delRank ph"
  by (cases ph) (auto split: sum.splits option.splits prod.splits if_splits)

lemma lifeStep_rank: "lifeStep d orc x b r rc ph s = (Some ph', s') \<Longrightarrow> lifeRank ph' < lifeRank ph"
  by (cases ph) (auto simp: Let_def split: prod.splits if_splits)

lemma pollStepQ_rank: "pollStepQ d orc ph s = (Some ph', s') \<Longrightarrow> (pollRank ph', pollRank ph) \<in> rankLess"
  by (induction d orc ph s rule: pollStepQ.induct)
    (auto simp: Let_def split: prod.splits sum.splits if_splits)

lemma goneStep_rank: "goneStep d orc x i ph s = (Some ph', s') \<Longrightarrow> ph = UVM \<and> ph' = URec"
  by (cases ph) (auto split: prod.splits sum.splits if_splits)

lemma actStep_rank:
  assumes "actStep d orc x a s = Some (Some b, s')"
  shows "(actRank b, actRank a) \<in> rankLess"
proof (cases a)
  case (ACreate r sb p)
  then show ?thesis using assms by (cases p) auto
next
  case (AProv r sb ph)
  then show ?thesis
    using assms provStep_rank [of d orc r sb ph s]
    by (cases "provStep d orc r sb ph s") (auto simp: map_option_case split: option.splits)
next
  case (ADel r i n ph)
  then show ?thesis
    using assms delStep_rank [of d orc x r i n ph s] by (auto simp: map_option_case split: option.splits)
next
  case (AGone i ph)
  then show ?thesis
    using assms goneStep_rank [of d orc x i ph s]
    by (cases "goneStep d orc x i ph s") (auto simp: map_option_case split: option.splits)
next
  case (ALife b' r rc ph)
  then show ?thesis
    using assms lifeStep_rank [of d orc x b' r rc ph s]
    by (cases "lifeStep d orc x b' r rc ph s") (auto simp: map_option_case split: option.splits)
next
  case (APoll ph)
  then show ?thesis
    using assms pollStepQ_rank [of d orc ph s]
    by (cases "pollStepQ d orc ph s") (auto simp: map_option_case split: option.splits)
qed


lemma blocked_act:
  "actStep d orc x a s = None \<Longrightarrow> \<exists>r i n. a = ADel r i n DWait \<and> enDone (getE s r) = OpenChan \<and> \<not> x"
proof (cases a)
  case (ACreate r sb p)
  then show "actStep d orc x a s = None \<Longrightarrow> ?thesis" by (cases p) auto
next
  case (ADel r i n ph)
  then show "actStep d orc x a s = None \<Longrightarrow> ?thesis"
    by (cases ph) (auto split: sum.splits option.splits prod.splits if_splits)
qed auto

lemma provRef_enabled: "r \<in> set (provRef a) \<Longrightarrow> actStep d orc x a s \<noteq> None"
  by (rule notI) (auto dest!: blocked_act)

lemma inv_progress:
  assumes inv: "sysInv d (as, s)" and as: "as \<noteq> []"
  shows "\<exists>k < length as. actStep d orc False (as ! k) s \<noteq> None"
proof (cases "actStep d orc False (as ! 0) s")
  case None
  then obtain r i n where a: "as ! 0 = ADel r i n DWait" "enDone (getE s r) = OpenChan"
    using blocked_act by blast
  have "actOk s (as ! 0)" using inv as by (simp add: sysInv_def)
  then have "r \<in> openRefs s" using a by (simp add: openRefs_def)
  then have "r \<in> set (provRefs as)" using inv by (simp add: sysInv_def)
  then obtain b where "b \<in> set as" "r \<in> set (provRef b)" by (auto simp: provRefs_def)
  then show ?thesis using provRef_enabled in_set_conv_nth by metis
qed (use as in auto)

text \<open>
  No deadlock: in every reachable state with running handlers some handler can take its
  next step, without any timeout having to expire and without help from outside. A delete
  only waits for a provisioning task that is running and is itself never blocked.
\<close>

theorem no_deadlock:
  assumes "reachable d (as, s)" and "as \<noteq> []"
  shows "\<exists>k < length as. actStep d orc False (as ! k) s \<noteq> None"
  using inv_progress [OF reachable_inv [OF assms(1)] assms(2)] .

lemma replaceAct_mset:
  assumes "k < length as"
  shows "mset as = mset (take k as) + mset (drop (Suc k) as) + {#as ! k#}"
    "mset (replaceAct k nx as) = mset (take k as) + mset (drop (Suc k) as)
       + (case nx of None \<Rightarrow> {#} | Some a \<Rightarrow> {#a#})"
proof -
  have "as = take k as @ as ! k # drop (Suc k) as" using assms by (simp add: id_take_nth_drop)
  then have "mset as = mset (take k as @ as ! k # drop (Suc k) as)" by (rule arg_cong)
  then show "mset as = mset (take k as) + mset (drop (Suc k) as) + {#as ! k#}" by simp
qed (auto simp: replaceAct_def split: option.split)

text \<open>Steps of running handlers only, with no timeout expiring.\<close>

inductive handlerStep :: "'w Deps \<Rightarrow> 'w sys \<Rightarrow> 'w sys \<Rightarrow> bool" for d :: "'w Deps" where
  "k < length as \<Longrightarrow> actStep d orc False (as ! k) s = Some (nx, s') \<Longrightarrow>
     handlerStep d (as, s) (replaceAct k nx as, s')"

lemma handlerStep_sysStep: "handlerStep d c c' \<Longrightarrow> sysStep d c c'"
  by (auto elim!: handlerStep.cases intro: sysStep.Step)

lemma inv_drains:
  "sysInv d (as, s) \<Longrightarrow> \<exists>s'. rtranclp (handlerStep d) (as, s) ([], s')"
proof (induction "image_mset actRank (mset as)" arbitrary: as s
    rule: wf_induct_rule [OF wf_mult [OF wf_lex_prod [OF wf_less_than wf_less_than]]])
  case (1 as s)
  show ?case
  proof (cases "as = []")
    case False
    obtain k where k: "k < length as" "actStep d undefined False (as ! k) s \<noteq> None"
      using inv_progress [OF 1(2) False] by blast
    obtain nx s1 where st: "actStep d undefined False (as ! k) s = Some (nx, s1)" using k(2) by auto
    let ?as = "replaceAct k nx as"
    let ?rest = "image_mset actRank (mset (take k as) + mset (drop (Suc k) as))"
    have m: "image_mset actRank (mset as) = ?rest + {#actRank (as ! k)#}"
      "image_mset actRank (mset ?as) = ?rest + (case nx of None \<Rightarrow> {#} | Some a \<Rightarrow> {#actRank a#})"
      unfolding replaceAct_mset [OF k(1)] by (auto split: option.split)
    have "(image_mset actRank (mset ?as), image_mset actRank (mset as)) \<in> mult rankLess"
      unfolding m
      by (rule one_step_implies_mult) (use st actStep_rank in \<open>auto split: option.splits\<close>)
    then obtain s' where "rtranclp (handlerStep d) (?as, s1) ([], s')"
      using 1(1) sysInv_step [OF 1(2) k(1) st] by blast
    then show ?thesis using handlerStep.intros [OF k(1) st] by (meson converse_rtranclp_into_rtranclp)
  qed auto
qed

text \<open>
  C11. From every reachable state the driver becomes idle by letting the running handlers go
  on, without new requests, timeouts or a restart: no handler is stuck for good.
\<close>

theorem reachable_drains:
  assumes "reachable d (as, s)"
  shows "\<exists>s'. rtranclp (handlerStep d) (as, s) ([], s')"
  using inv_drains [OF reachable_inv [OF assms]] .

subsection \<open>The sequential handlers are executions\<close>

definition runs :: "'w Deps \<Rightarrow> act list \<Rightarrow> act \<Rightarrow> 'w Server \<Rightarrow> 'w Server \<Rightarrow> bool" where
  "runs d as a s s' \<longleftrightarrow> rtranclp (sysStep d) (a # as, s) (as, s')"

lemma runs_step:
  "actStep d orc x a s = Some (Some b, s1) \<Longrightarrow> runs d as b s1 s' \<Longrightarrow> runs d as a s s'"
  using sysStep.Step [of 0 "a # as" d orc x s "Some b" s1]
  by (simp add: runs_def replaceAct_def converse_rtranclp_into_rtranclp)

lemma runs_end: "actStep d orc x a s = Some (None, s') \<Longrightarrow> runs d as a s s'"
  using sysStep.Step [of 0 "a # as" d orc x s None s'] by (simp add: runs_def replaceAct_def r_into_rtranclp)

lemma runs_prov:
  "provStep d orc r sb ph s = (Some ph', s1) \<Longrightarrow> runs d as (AProv r sb ph') s1 s' \<Longrightarrow>
     runs d as (AProv r sb ph) s s'"
  by (rule runs_step [where orc = orc and x = False and b = "AProv r sb ph'" and ?s1.0 = s1]) simp_all

lemma runs_finish:
  "runs d as (AProv r sb (PFinish res)) s (closeDone r (provisionFinish d orc r res s))"
proof -
  have c: "runs d as (AProv r sb PClose) s1 (closeDone r s1)" for s1
    by (rule runs_end [where orc = orc and x = False]) simp
  have p: "runs d as (AProv r sb (PPublish res)) s1 (closeDone r (snd (provStep d orc r sb (PEvent res)
      (publishSandbox d r s1))))" for s1
    by (rule runs_prov [where orc = orc], simp, rule runs_prov [where orc = orc], simp) (simp add: c)
  show ?thesis
    by (rule runs_prov [where orc = orc and ph' = "the (fst (provStep d orc r sb (PFinish res) s))"
          and ?s1.0 = "snd (provStep d orc r sb (PFinish res) s)"])
      (use c p in \<open>auto simp: provisionFinish_def Let_def split: option.split\<close>)
qed



text \<open>The phases of a task up to its outcome, run in a row; seven are enough.\<close>

fun provRest ::
  "'w Deps \<Rightarrow> Oracle \<Rightarrow> nat \<Rightarrow> DriverSandbox \<Rightarrow> nat \<Rightarrow> pphase \<Rightarrow> 'w Server \<Rightarrow> (err option \<times> 'w Server) option" where
  "provRest d orc r sb n (PFinish res) s = Some (res, s)"
| "provRest d orc r sb 0 ph s = None"
| "provRest d orc r sb (Suc n) ph s =
     (case provStep d orc r sb ph s of
        (Some ph', s1) \<Rightarrow> provRest d orc r sb n ph' s1
      | (None, s1) \<Rightarrow> None)"

lemma runs_rest:
  "provRest d orc r sb n ph s = Some (res, s1) \<Longrightarrow>
     runs d as (AProv r sb ph) s (closeDone r (provisionFinish d orc r res s1))"
proof (induction d orc r sb n ph s rule: provRest.induct)
  case (1 d orc r sb n res' s)
  then show ?case using runs_finish by auto
qed (auto split: prod.splits option.splits intro: runs_prov)

lemma provRest_boot: "provRest d orc r sb (Suc n) (PBoot spec) s = Some (provBoot d (taskCtx s r) spec s)"
  by (cases "provBoot d (taskCtx s r) spec s"; cases n) simp_all

lemma provRest_inner:
  "provRest d orc r sb 7 PStart s
     = Some (provisionInner d orc r (Some sb) (GetSandboxToken (GetSpec (Some sb))) s)"
  unfolding provisionInner_def
  by (auto simp: numeral_eq_Suc nextPhase_eq asResult_eq provRest_boot Let_def split: sum.split prod.split option.split)

text \<open>A provisioning task that runs without interruption does what \<open>provision\<close> describes.\<close>

lemma runs_provision:
  "runs d as (AProv r sb PStart) s (provision d orc r (Some sb) (GetSandboxToken (GetSpec (Some sb))) s)"
  using runs_rest [of d orc r sb 7 PStart s _ _ as] provRest_inner [of d orc r sb s]
  by (simp add: provision_def case_prod_beta)

lemma runs_sys: "sysStep d (as, s) (a # as, s1) \<Longrightarrow> runs d as a s1 s' \<Longrightarrow> rtranclp (sysStep d) (as, s) (as, s')"
  by (simp add: runs_def converse_rtranclp_into_rtranclp)

lemma runs_delete:
  "runs d as (ADel r i n DWait) s (snd (deleteTeardown d orc (enDone (getE s r) = OpenChan) i n s))"
proof -
  let ?x = "enDone (getE s r) = OpenChan"
  obtain a s1 where 1: "deleteVM d ?x n s = (a, s1)" by fastforce
  have "runs d as (ADel r i n (DVM ?x)) s (snd (deleteTeardown d orc ?x i n s))"
  proof (cases a)
    case (Inl st)
    then show ?thesis
      using 1 by (intro runs_end [where orc = orc and x = False]) (simp add: deleteTeardown_def)
  next
    case (Inr b)
    obtain e s2 where 2: "deleteRecord d orc i s1 = (e, s2)" by fastforce
    have forget: "runs d as (ADel r i n DForget) s2 (deleteForget i s2)"
      by (rule runs_step [where orc = orc and x = False], simp, rule runs_end [where orc = orc and x = False])
        (simp add: deleteForget_def)
    have rec: "runs d as (ADel r i n (DRec b)) s1 (if e = None then deleteForget i s2 else s2)"
    proof (cases e)
      case None
      show ?thesis
        by (rule runs_step [where orc = orc and x = False and b = "ADel r i n DForget" and ?s1.0 = s2])
          (use forget None 2 in simp_all)
    next
      case (Some x)
      then show ?thesis using 2 by (intro runs_end [where orc = orc and x = False]) simp
    qed
    have "runs d as (ADel r i n (DVM ?x)) s (if e = None then deleteForget i s2 else s2)"
      by (rule runs_step [where orc = orc and x = False and b = "ADel r i n (DRec b)" and ?s1.0 = s1])
        (use 1 Inr rec in simp_all)
    then show ?thesis using 1 2 Inr by (cases e) (simp_all add: deleteTeardown_def)
  qed
  then have vm: "runs d as (ADel r i n (DVM ?x)) s (snd (deleteTeardown d orc ?x i n s))" .
  show ?thesis
    by (rule runs_step [where orc = orc and x = ?x and b = "ADel r i n (DVM ?x)" and ?s1.0 = s])
      (use vm in auto)
qed

lemma delete_runs: "rtranclp (sysStep d) (as, s) (as, snd (DeleteSandbox d orc i name s))"
proof (cases "deleteBegin orc i name s")
  case (Pair p s1)
  show ?thesis
  proof (cases p)
    case None
    then have l: "lookupLocked i name s = None" "s1 = s"
      using Pair by (auto simp: deleteBegin_def split: option.splits)
    obtain a s2 where 2: "rtCall (rtDelete (dpRt d) False (containerName i)) s = (a, s2)" by fastforce
    have rec: "runs d as (AGone i URec) s' (snd (deleteRecord d orc i s'))" for s'
      by (rule runs_end [where orc = orc and x = False]) simp
    have "runs d as (AGone i UVM) s (snd (deleteUnknown d orc False i s))"
    proof (cases "ValidID i \<and> (case a of None \<Rightarrow> True | Some e \<Rightarrow> isNotFoundErr e)")
      case True
      have "snd (deleteUnknown d orc False i s) = snd (deleteRecord d orc i s2)"
        using True 2 by (auto simp: deleteUnknown_def split: option.splits)
      moreover have "runs d as (AGone i UVM) s (snd (deleteRecord d orc i s2))"
        by (rule runs_step [where orc = orc and x = False and b = "AGone i URec" and ?s1.0 = s2])
          (use True 2 rec in \<open>auto simp: deleteVM_def split: option.splits\<close>)
      ultimately show ?thesis by simp
    next
      case False
      then show ?thesis
        using 2 by (intro runs_end [where orc = orc and x = False])
          (auto simp: deleteUnknown_def deleteVM_def split: option.splits)
    qed
    from runs_sys [OF sysStep.DeleteUnknown [OF l(1)] this] show ?thesis
      using Pair None l by (simp add: DeleteSandbox_def)
  next
    case (Some q)
    obtain r i' n where q: "q = (r, i', n)" by (cases q)
    let ?s2 = "cancelTask r (publishSandbox d r s1)"
    have "runs d as (ADel r i' n DAnnounce) s1 (snd (deleteTeardown d orc (enDone (getE ?s2 r) = OpenChan) i' n ?s2))"
      by (rule runs_step [where orc = orc and x = False], simp, rule runs_step [where orc = orc and x = False], simp)
        (rule runs_delete)
    from runs_sys [OF sysStep.Delete this] show ?thesis
      using Pair Some q by (simp add: DeleteSandbox_def Let_def)
  qed
qed

lemma runs_lifeEnd:
  "runs d as (ALife b r rc (if res = None then LMark else LRelease)) s (snd (endOf b d orc r res s))"
proof -
  note R = runs_step [where orc = orc and x = False] and E = runs_end [where orc = orc and x = False]
  have rel: "runs d as (ALife b' r rc LRelease) s' (releaseBusy r s')" for b' s' by (rule E) simp
  let ?c = "condOf b (orNow orc)"
  have ann: "runs d as (ALife b r rc LSet) s' (releaseBusy r (announce d orc r ?c
      (if b then ''Stopped'' else ''Started'') (if b then ''Sandbox VM stopped'' else ''Sandbox VM started'') s'))" for s'
    unfolding announce_def Let_def by (rule R, simp, rule R, simp, rule R, simp) (cases b; simp add: rel)
  obtain e s2 where 2: "saveRecord d orc (enRec (getE (markStopped b r s) r)) (markStopped b r s) = (e, s2)"
    by fastforce
  show ?thesis
  proof (cases res)
    case None
    have end': "runs d as (ALife b r rc (if e = None then LSet else LRelease)) s2 (snd (endOf b d orc r None s))"
      using 2 rel ann
      by (cases e; cases b; simp add: endOf_def stopEnd_def startEnd_def setStopped_def Let_def condOf_def)
    have save: "runs d as (ALife b r rc (LSave (enRec (getE (markStopped b r s) r)))) (markStopped b r s)
        (snd (endOf b d orc r None s))"
      by (rule R [where b = "ALife b r rc (if e = None then LSet else LRelease)" and ?s1.0 = s2])
        (use end' in \<open>simp_all add: 2 split del: if_split\<close>)
    have "runs d as (ALife b r rc LMark) s (snd (endOf b d orc r None s))"
      by (rule R [OF _ save]) (simp add: Let_def)
    then show ?thesis using None by simp
  qed (cases b; simp add: endOf_def stopEnd_def startEnd_def rel)
qed

definition lifeOp :: "bool \<Rightarrow> 'w Deps \<Rightarrow> Oracle \<Rightarrow> string \<Rightarrow> string \<Rightarrow> 'w Server \<Rightarrow> status option \<times> 'w Server" where
  "lifeOp b = (if b then StopSandbox else StartSandbox)"

lemma life_runs: "rtranclp (sysStep d) (as, s) (as, snd (lifeOp b d orc i name s))"
proof (cases "beginLifecycle i name s")
  case (Pair p s1)
  show ?thesis
  proof (cases p)
    case (Inl st)
    then have "s1 = s" using Pair beginLifecycle_Inl by blast
    then show ?thesis using Pair Inl by (simp add: lifeOp_def StopSandbox_def StartSandbox_def)
  next
    case (Inr r)
    note b = Pair [unfolded Inr]
    let ?rc = "enRec (getE s1 r)"
    obtain res s2 where v: "(if b then stopVM d False ?rc s1 else startVM d False ?rc s1) = (res, s2)" by fastforce
    have "runs d as (ALife b r ?rc LVM) s1 (snd (endOf b d orc r res s2))"
      by (rule runs_step [where orc = orc and x = False
            and b = "ALife b r ?rc (if res = None then LMark else LRelease)" and ?s1.0 = s2])
        (use v runs_lifeEnd [of d as b r ?rc res s2 orc] in \<open>simp_all split del: if_split\<close>)
    from runs_sys [OF sysStep.Life [OF b] this] show ?thesis
      using b v by (cases b) (simp_all add: lifeOp_def StopSandbox_def StartSandbox_def endOf_def)
  qed
qed

lemma create_runs:
  assumes "CreateSandbox d orc (Some sb) s = (Inr r, s')"
  shows "rtranclp (sysStep d) (as, s) (as, provision d orc' r (Some sb) (GetSandboxToken (GetSpec (Some sb))) s')"
proof -
  obtain rc s1 where c: "createCheck d (orNow orc) (Some sb) = Inr rc"
    and g: "createRegister d orc rc s = (Inr r, s1)" and s': "s' = createAnnounce d orc r s1"
    using assms by (auto simp: CreateSandbox_def split: sum.splits prod.splits)
  have "runs d as (ACreate r sb False) s1 (provision d orc' r (Some sb) (GetSandboxToken (GetSpec (Some sb))) s')"
    unfolding s' createAnnounce_def Let_def
    by (rule runs_step [where orc = orc and x = False], simp, rule runs_step [where orc = orc and x = False], simp)
      (rule runs_provision)
  from runs_sys [OF sysStep.Create [OF c g] this] show ?thesis .
qed


subsection \<open>Races\<close>

text \<open>A handler run on its own for some steps, with no timeout expiring.\<close>

fun advance :: "'w Deps \<Rightarrow> Oracle \<Rightarrow> nat \<Rightarrow> act \<Rightarrow> 'w Server \<Rightarrow> (act option \<times> 'w Server) option" where
  "advance d orc 0 a s = Some (Some a, s)"
| "advance d orc (Suc n) a s =
     (case actStep d orc False a s of
        None \<Rightarrow> None
      | Some (None, s1) \<Rightarrow> Some (None, s1)
      | Some (Some b, s1) \<Rightarrow> advance d orc n b s1)"

lemma advance_steps:
  "advance d orc n a s = Some (nx, s') \<Longrightarrow>
     rtranclp (handlerStep d) (a # as, s) ((case nx of None \<Rightarrow> [] | Some b \<Rightarrow> [b]) @ as, s')"
proof (induction n arbitrary: a s)
  case (Suc n)
  obtain nx1 s1 where 1: "actStep d orc False a s = Some (nx1, s1)" using Suc.prems by (auto split: option.splits)
  have h: "handlerStep d (a # as, s) (replaceAct 0 nx1 (a # as), s1)"
    using handlerStep.intros [of 0 "a # as" d orc s nx1 s1] 1 by simp
  show ?case
  proof (cases nx1)
    case None
    then have "nx = None" "s' = s1" using Suc.prems 1 by simp_all
    then show ?thesis using h None by (simp add: replaceAct_def r_into_rtranclp)
  next
    case (Some b)
    then have "advance d orc n b s1 = Some (nx, s')" using Suc.prems 1 by simp
    from Suc.IH [OF this] h Some show ?thesis
      by (simp add: replaceAct_def converse_rtranclp_into_rtranclp)
  qed
qed auto

lemma reachable_star: "rtranclp (sysStep d) c c' \<Longrightarrow> reachable d c \<Longrightarrow> reachable d c'"
  by (induction rule: rtranclp_induct) (auto intro: reachable.Next)

lemma handlers_star: "rtranclp (handlerStep d) c c' \<Longrightarrow> rtranclp (sysStep d) c c'"
  by (induction rule: rtranclp_induct) (auto intro: rtranclp.rtrancl_into_rtrancl handlerStep_sysStep)

text \<open>A driver that crashed right after a create and came back with the sandbox's machine running.\<close>

definition demoBack :: "Fake Server" where
  "demoBack = snd (Bootstrap demoDeps demoOrc False demoRestart)"

lemma demoBack_reachable: "reachable demoDeps ([], demoBack)"
proof -
  have "recordsOf ''/st'' demoDisk = Map.empty"
    by (rule ext, rule ccontr) (auto simp: recordsOf_node demoDisk_def split: if_splits)
  then have "reachable demoDeps ([], demoServer)"
    using reachable.Init [of demoDeps demoDisk demoWorld] by (simp add: demoServer_def demoDeps_def)
  moreover obtain rc s1 where "createCheck demoDeps (orNow demoOrc) (Some demoRequest) = Inr rc"
    "createRegister demoDeps demoOrc rc demoServer = (Inr 0, s1)" and dc: "demoCreated = createAnnounce demoDeps demoOrc 0 s1"
    using demo_create_eq by (auto simp: CreateSandbox_def split: sum.splits prod.splits)
  moreover have d: "svDisk demoCreated = svDisk s1"
    using arg_cong [OF dc, of svDisk] by (simp only: createAnnounce_def Let_def frame_simps)
  ultimately have c: "reachable demoDeps ([ACreate 0 demoRequest False], s1)"
    by (blast intro: reachable.Next sysStep.Create)
  have r: "demoRestart = newServer (svWorld demoRunning) (svDisk demoRunning)" by (simp add: demoRestart_def)
  have "recordsOf (dpRoot demoDeps) (svDisk demoRunning) = recs demoDeps s1"
    by (simp add: d [symmetric] demoRunning_def frame_simps)
  moreover have "storeOk (dpRoot demoDeps) (svDisk demoRunning)" using demoRunning_ok by (simp add: serverOk_def)
  moreover have "Bootstrap demoDeps demoOrc False demoRestart = (None, demoBack)"
    using demoRestart_boot by (simp add: demoBack_def prod_eq_iff)
  ultimately show ?thesis using reachable.Next [OF c sysStep.Restart] r by metis
qed

text \<open>
  A poll that has its listing, then a stop that succeeds, then the rest of the poll: the
  listing, the states after the stop and after the poll.
\<close>

definition stalePoll :: "(Container list \<times> Fake Server \<times> Fake Server \<times> Fake Server) option" where
  "stalePoll =
     (case advance demoDeps demoOrc 1 (APoll QList) demoBack of
        Some (Some (APoll (QScan cs)), s) \<Rightarrow>
          (case StopSandbox demoDeps demoOrc ''sb1'' [] s of
             (None, s1) \<Rightarrow>
               (case advance demoDeps demoOrc 9 (APoll (QScan cs)) s1 of
                  Some (None, s2) \<Rightarrow> Some (cs, s, s1, s2)
                | _ \<Rightarrow> None)
           | _ \<Rightarrow> None)
      | _ \<Rightarrow> None)"

definition stoppedOnDisk :: "Fake Server \<Rightarrow> bool option" where
  "stoppedOnDisk s = map_option rStopped (recs demoDeps s ''sb1'')"

lemma stalePoll_run:
  "case stalePoll of None \<Rightarrow> False
   | Some (cs, s, s1, s2) \<Rightarrow> stoppedOnDisk s1 = Some True \<and> stoppedOnDisk s2 = Some False
       \<and> cdReason (enCond (getE s1 0)) = reasonContainerStopped
       \<and> cdReason (enCond (getE s2 0)) = reasonBackendReady
       \<and> map_option (\<lambda>c. cState (fcCtr c)) (map_of (fkContainers (svWorld s2)) ''oshl-sb1'') = Some ''stopped''"
  by code_simp

text \<open>
  C29. A stop that answered success can be undone by a poll that fetched its listing before:
  in a reachable state with one poll in flight the stop succeeds (the machine is stopped, the
  intent is on disk), and the poll's scan, which takes the old listing for a start behind the
  driver's back, then reports the sandbox Ready again and erases the intent from the entry
  and from the record on disk.
\<close>

theorem stale_poll_undoes_stop:
  "\<exists>cs s s1 s2. reachable demoDeps ([APoll (QScan cs)], s)
     \<and> StopSandbox demoDeps demoOrc ''sb1'' [] s = (None, s1)
     \<and> rtranclp (handlerStep demoDeps) ([APoll (QScan cs)], s1) ([], s2)
     \<and> stoppedOnDisk s1 = Some True \<and> cdReason (enCond (getE s1 0)) = reasonContainerStopped
     \<and> stoppedOnDisk s2 = Some False \<and> cdReason (enCond (getE s2 0)) = reasonBackendReady
     \<and> map_option (\<lambda>c. cState (fcCtr c)) (map_of (fkContainers (svWorld s2)) ''oshl-sb1'') = Some ''stopped''"
proof -
  obtain cs s s1 s2 where r: "stalePoll = Some (cs, s, s1, s2)"
    using stalePoll_run by (auto split: option.splits)
  then have 1: "advance demoDeps demoOrc 1 (APoll QList) demoBack = Some (Some (APoll (QScan cs)), s)"
    and 2: "StopSandbox demoDeps demoOrc ''sb1'' [] s = (None, s1)"
    and 3: "advance demoDeps demoOrc 9 (APoll (QScan cs)) s1 = Some (None, s2)"
    by (auto simp: stalePoll_def simp del: advance.simps One_nat_def
        split: option.splits prod.splits act.splits qphase.splits)
  have "reachable demoDeps ([APoll QList], demoBack)"
    using reachable.Next [OF demoBack_reachable sysStep.Poll] by simp
  from reachable_star [OF handlers_star [OF advance_steps [OF 1, of "[]"]] this]
  have "reachable demoDeps ([APoll (QScan cs)], s)" by simp
  moreover have "rtranclp (handlerStep demoDeps) ([APoll (QScan cs)], s1) ([], s2)"
    using advance_steps [OF 3, of "[]"] by simp
  moreover note 2 stalePoll_run [unfolded r option.case prod.case]
  ultimately show ?thesis by blast
qed

text \<open>
  A stop up to the saving of its mark, then a delete that succeeds, then the rest of the stop.
\<close>

definition lostDelete :: "(act \<times> Fake Server \<times> Fake Server \<times> Fake Server) option" where
  "lostDelete =
     (case beginLifecycle ''sb1'' [] demoBack of
        (Inr r, s0) \<Rightarrow>
          (case advance demoDeps demoOrc 2 (ALife True r (enRec (getE s0 r)) LVM) s0 of
             Some (Some a, s) \<Rightarrow>
               (case DeleteSandbox demoDeps demoOrc ''sb1'' [] s of
                  (Inr True, s1) \<Rightarrow>
                    (case advance demoDeps demoOrc 9 a s1 of
                       Some (None, s2) \<Rightarrow> Some (a, s, s1, s2)
                     | _ \<Rightarrow> None)
                | _ \<Rightarrow> None)
           | _ \<Rightarrow> None)
      | _ \<Rightarrow> None)"

fun savesMark :: "act \<Rightarrow> bool" where
  "savesMark (ALife True r rc (LSave rc1)) = True"
| "savesMark _ = False"

lemma lostDelete_run:
  "case lostDelete of None \<Rightarrow> False
   | Some (a, s, s1, s2) \<Rightarrow> savesMark a \<and> stoppedOnDisk s1 = None \<and> svSandboxes s1 = []
       \<and> stoppedOnDisk s2 = Some True \<and> svSandboxes s2 = []"
  by code_simp

text \<open>
  C30. A delete that answered success can be undone by a stop that was in flight: in a
  reachable state with one stop about to save its mark the delete removes machine, record
  and registration, and the stop, going on, writes the record back. What is left is a record
  of a deleted sandbox that no registry entry knows.
\<close>

theorem stop_resurrects_record:
  "\<exists>a s s1 s2. reachable demoDeps ([a], s) \<and> savesMark a
     \<and> DeleteSandbox demoDeps demoOrc ''sb1'' [] s = (Inr True, s1)
     \<and> recs demoDeps s1 ''sb1'' = None
     \<and> rtranclp (handlerStep demoDeps) ([a], s1) ([], s2)
     \<and> recs demoDeps s2 ''sb1'' \<noteq> None \<and> svSandboxes s2 = []"
proof -
  obtain a s s1 s2 where r: "lostDelete = Some (a, s, s1, s2)"
    using lostDelete_run by (auto split: option.splits)
  then obtain r s0 where b: "beginLifecycle ''sb1'' [] demoBack = (Inr r, s0)"
    and 1: "advance demoDeps demoOrc 2 (ALife True r (enRec (getE s0 r)) LVM) s0 = Some (Some a, s)"
    and 2: "DeleteSandbox demoDeps demoOrc ''sb1'' [] s = (Inr True, s1)"
    and 3: "advance demoDeps demoOrc 9 a s1 = Some (None, s2)"
    by (auto simp: lostDelete_def simp del: advance.simps
        split: option.splits prod.splits sum.splits bool.splits)
  have "reachable demoDeps ([ALife True r (enRec (getE s0 r)) LVM], s0)"
    using reachable.Next [OF demoBack_reachable sysStep.Life [OF b]] .
  from reachable_star [OF handlers_star [OF advance_steps [OF 1, of "[]"]] this]
  have "reachable demoDeps ([a], s)" by simp
  moreover have "rtranclp (handlerStep demoDeps) ([a], s1) ([], s2)"
    using advance_steps [OF 3, of "[]"] by simp
  moreover have "savesMark a" "recs demoDeps s1 ''sb1'' = None" "recs demoDeps s2 ''sb1'' \<noteq> None" "svSandboxes s2 = []"
    using lostDelete_run by (auto simp: r stoppedOnDisk_def)
  moreover note 2
  ultimately show ?thesis by blast
qed

subsection \<open>Witnesses\<close>


theorem reachable_wellformed_witness: "registryOk demoBack"
  using reachable_wellformed [OF demoBack_reachable] by blast

lemma demoBack_poll: "reachable demoDeps ([APoll QList], demoBack)"
  using reachable.Next [OF demoBack_reachable sysStep.Poll] by simp

theorem no_deadlock_witness:
  "actStep demoDeps undefined False (APoll QList) demoBack \<noteq> None"
  using no_deadlock [OF demoBack_poll] by auto

theorem reachable_drains_witness:
  "\<exists>s'. rtranclp (handlerStep demoDeps) ([APoll QList], demoBack) ([], s')"
  by (rule reachable_drains [OF demoBack_poll])


end
