(* ===== verification/Socket.thy ===== *)
theory Socket
  imports GoPath
begin

section \<open>The driver's socket (\<open>main.go\<close>)\<close>

text \<open>
  Binding the socket, claiming it, and giving it up at shutdown. The file system is what
  these functions see of it: the directory of the socket, and the nodes in it. Several driver
  processes share it; a process is identified by a number. \<open>ssLive\<close> are the processes that
  accept connections. Closing a listener unlinks its path, as Go's unix listeners do.
  \<open>fails\<close> tells which of the system calls fail.
\<close>

subsection \<open>Files\<close>

datatype dirNode = DirAbsent | DirSymlink | DirOther | DirOf nat nat

text \<open>
  \<open>DirSymlink\<close> is a link to a directory, \<open>DirOf uid mode\<close> a directory of that user (modes in
  decimal: 448 is 0700, 384 is 0600); a socket node carries the
  process that bound it and its mode.
\<close>

datatype snode = SockNode nat nat | PlainNode string

record sockets =
  ssDir :: dirNode
  ssNodes :: "string \<Rightarrow> snode option"
  ssLive :: "nat set"

datatype syscall = SysMkdir | SysLstat | SysChmodDir | SysStat | SysUnlink | SysListen | SysChmod | SysRand | SysWrite

definition socketOwnerSuffix :: string where "socketOwnerSuffix = ''.owner''"

definition markerPath :: "string \<Rightarrow> string" where
  "markerPath path = path @ socketOwnerSuffix"

definition unlink :: "string \<Rightarrow> sockets \<Rightarrow> sockets" where
  "unlink p st = st\<lparr>ssNodes := (ssNodes st)(p := None)\<rparr>"

definition closeListener :: "nat \<Rightarrow> string \<Rightarrow> sockets \<Rightarrow> sockets" where
  "closeListener me path st = (unlink path st)\<lparr>ssLive := ssLive st - {me}\<rparr>"

subsection \<open>Binding\<close>

definition verifyOwnedDir :: "(syscall \<Rightarrow> bool) \<Rightarrow> nat \<Rightarrow> string \<Rightarrow> dirNode \<Rightarrow> err option" where
  "verifyOwnedDir fails uid dir n =
     (if fails SysLstat then Some (errorf ''stat socket dir: %w'' [])
      else (case n of
              DirAbsent \<Rightarrow> Some (errorf ''stat socket dir: %w'' [])
            | DirSymlink \<Rightarrow> Some (errorf ''socket dir %s is a symlink; refusing to use it'' [dir])
            | DirOther \<Rightarrow> Some (errorf ''socket dir %s is not a directory'' [dir])
            | DirOf owner mode \<Rightarrow>
                (if owner \<noteq> uid
                 then Some (errorf ''socket dir %s is owned by uid %d, not the current user %d; refusing to use it'' [dir])
                 else None)))"

text \<open>The directory: created when absent, verified, restricted.\<close>

definition prepareDir :: "(syscall \<Rightarrow> bool) \<Rightarrow> nat \<Rightarrow> string \<Rightarrow> sockets \<Rightarrow> err option \<times> sockets" where
  "prepareDir fails uid dir st =
     (if fails SysMkdir \<or> ssDir st = DirOther then (Some (errorf ''create socket dir: %w'' []), st)
      else (let st1 = (if ssDir st = DirAbsent then st\<lparr>ssDir := DirOf uid 448\<rparr> else st)
            in case verifyOwnedDir fails uid dir (ssDir st1) of
                 Some e \<Rightarrow> (Some e, st1)
               | None \<Rightarrow>
                   (if fails SysChmodDir then (Some (errorf ''restrict socket dir: %w'' []), st1)
                    else (None, st1\<lparr>ssDir := DirOf uid 448\<rparr>))))"

text \<open>What is at the path: a live socket refuses, anything else is removed with its marker.\<close>

definition clearPath :: "(syscall \<Rightarrow> bool) \<Rightarrow> string \<Rightarrow> sockets \<Rightarrow> err option \<times> sockets" where
  "clearPath fails path st =
     (if fails SysStat then (Some (errorf ''stat socket: %w'' []), st)
      else (case ssNodes st path of
              None \<Rightarrow> (None, st)
            | Some n \<Rightarrow>
                (if (case n of SockNode p m \<Rightarrow> p \<in> ssLive st | PlainNode _ \<Rightarrow> False)
                 then (Some (errorf ''socket %s is in use by another driver instance'' [path]), st)
                 else if fails SysUnlink then (Some (errorf ''remove stale socket: %w'' []), st)
                 else (None, unlink (markerPath path) (unlink path st)))))"

definition bindSocket :: "(syscall \<Rightarrow> bool) \<Rightarrow> nat \<Rightarrow> string \<Rightarrow> sockets \<Rightarrow> err option \<times> sockets" where
  "bindSocket fails me path st =
     (if fails SysListen \<or> ssNodes st path \<noteq> None then (Some (errorf ''listen on %s: %w'' [path]), st)
      else (let st1 = st\<lparr>ssNodes := (ssNodes st)(path \<mapsto> SockNode me 493), ssLive := insert me (ssLive st)\<rparr>
            in if fails SysChmod then (Some (errorf ''restrict socket: %w'' []), closeListener me path st1)
               else (None, st1\<lparr>ssNodes := (ssNodes st1)(path \<mapsto> SockNode me 384)\<rparr>)))"

text \<open>\<open>token\<close>: what \<open>newSocketToken\<close> drew.\<close>

definition claimSocketOwnership ::
  "(syscall \<Rightarrow> bool) \<Rightarrow> string \<Rightarrow> string \<Rightarrow> sockets \<Rightarrow> err option \<times> sockets" where
  "claimSocketOwnership fails path token st =
     (if fails SysWrite then (Some (errorf ''write socket ownership marker: %w'' []), st)
      else (None, st\<lparr>ssNodes := (ssNodes st)(markerPath path \<mapsto> PlainNode token)\<rparr>))"

definition claimSocket ::
  "(syscall \<Rightarrow> bool) \<Rightarrow> nat \<Rightarrow> string \<Rightarrow> string \<Rightarrow> sockets \<Rightarrow> err option \<times> sockets" where
  "claimSocket fails me path token st =
     (if fails SysRand then (Some (errorf ''generate socket ownership token: %w'' []), closeListener me path st)
      else (case claimSocketOwnership fails path token st of
              (Some e, st1) \<Rightarrow> (Some e, closeListener me path st1)
            | (None, st1) \<Rightarrow> (None, st1)))"

definition listenUnix ::
  "(syscall \<Rightarrow> bool) \<Rightarrow> nat \<Rightarrow> nat \<Rightarrow> string \<Rightarrow> string \<Rightarrow> sockets \<Rightarrow> (err + string) \<times> sockets" where
  "listenUnix fails uid me path token st =
     (case prepareDir fails uid (pathDir path) st of
        (Some e, st1) \<Rightarrow> (Inl e, st1)
      | (None, st1) \<Rightarrow>
          (case clearPath fails path st1 of
             (Some e, st2) \<Rightarrow> (Inl e, st2)
           | (None, st2) \<Rightarrow>
               (case bindSocket fails me path st2 of
                  (Some e, st3) \<Rightarrow> (Inl e, st3)
                | (None, st3) \<Rightarrow>
                    (case claimSocket fails me path token st3 of
                       (Some e, st4) \<Rightarrow> (Inl e, st4)
                     | (None, st4) \<Rightarrow> (Inr token, st4)))))"

subsection \<open>Giving up\<close>

text \<open>The look at the marker, and the two removals after it.\<close>

definition ownsMarker :: "string \<Rightarrow> string \<Rightarrow> sockets \<Rightarrow> bool" where
  "ownsMarker path token st \<longleftrightarrow> ssNodes st (markerPath path) = Some (PlainNode token)"

definition removeBoth :: "string \<Rightarrow> sockets \<Rightarrow> sockets" where
  "removeBoth path st = unlink path (unlink (markerPath path) st)"

definition removeSocketIfOwned :: "string \<Rightarrow> string \<Rightarrow> sockets \<Rightarrow> sockets" where
  "removeSocketIfOwned path token st = (if ownsMarker path token st then removeBoth path st else st)"

subsection \<open>What binding guarantees\<close>

lemma markerPath_neq [simp]: "markerPath path \<noteq> path" "path \<noteq> markerPath path"
  by (simp_all add: markerPath_def socketOwnerSuffix_def)

text \<open>The socket may be dialled through \<open>path\<close> and reaches process \<open>p\<close>.\<close>

definition reaches :: "sockets \<Rightarrow> string \<Rightarrow> nat \<Rightarrow> bool" where
  "reaches st path p \<longleftrightarrow> p \<in> ssLive st \<and> (\<exists>m. ssNodes st path = Some (SockNode p m))"

lemma listenUnix_owns:
  assumes "listenUnix fails uid me path token st = (Inr tok, st')"
  shows "tok = token \<and> ssDir st' = DirOf uid 448
    \<and> ssNodes st' path = Some (SockNode me 384) \<and> reaches st' path me \<and> ownsMarker path token st'
    \<and> (\<forall>p. \<not> reaches st path p) \<and> ssDir st \<noteq> DirSymlink
    \<and> (\<forall>owner mode. ssDir st = DirOf owner mode \<longrightarrow> owner = uid)"
proof -
  obtain st1 st2 st3 where 1: "prepareDir fails uid (pathDir path) st = (None, st1)"
    and 2: "clearPath fails path st1 = (None, st2)" and 3: "bindSocket fails me path st2 = (None, st3)"
    and 4: "claimSocket fails me path token st3 = (None, st')" and tok: "tok = token"
    using assms by (auto simp: listenUnix_def split: prod.splits option.splits)
  have d: "ssDir st1 = DirOf uid 448" "ssNodes st1 = ssNodes st" "ssLive st1 = ssLive st" "ssDir st \<noteq> DirSymlink"
    "\<forall>owner mode. ssDir st = DirOf owner mode \<longrightarrow> owner = uid"
    using 1 by (auto simp: prepareDir_def verifyOwnedDir_def Let_def split: if_splits option.splits dirNode.splits)
  have c: "ssDir st2 = ssDir st1" "ssLive st2 = ssLive st1" "\<forall>p. \<not> reaches st1 path p"
    using 2 by (auto simp: clearPath_def unlink_def reaches_def split: if_splits option.splits snode.splits)
  have b: "ssDir st3 = ssDir st2" "me \<in> ssLive st3" "ssNodes st3 path = Some (SockNode me 384)"
    using 3 by (auto simp: bindSocket_def Let_def split: if_splits)
  have m: "st' = st3\<lparr>ssNodes := (ssNodes st3)(markerPath path \<mapsto> PlainNode token)\<rparr>"
    using 4 by (auto simp: claimSocket_def claimSocketOwnership_def split: if_splits option.splits)
  show ?thesis using tok d c b by (simp add: m reaches_def ownsMarker_def)
qed

text \<open>
  C22. A driver that got its socket has a real directory of its own, closed to others, a
  socket in it that only its user may open and that reaches it, and a marker with its token;
  it displaced no running instance.
\<close>

theorem listenUnix_ok:
  assumes "listenUnix fails uid me path token st = (Inr tok, st')"
  shows "tok = token \<and> ssDir st' = DirOf uid 448
    \<and> ssNodes st' path = Some (SockNode me 384) \<and> reaches st' path me \<and> ownsMarker path token st'
    \<and> (\<forall>p. \<not> reaches st path p) \<and> ssDir st \<noteq> DirSymlink
    \<and> (\<forall>owner mode. ssDir st = DirOf owner mode \<longrightarrow> owner = uid)"
  using assms by (rule listenUnix_owns)

definition demoSocket :: string where "demoSocket = ''/tmp/d/s''"

definition staleSockets :: sockets where
  "staleSockets = \<lparr>ssDir = DirOf 501 493, ssNodes = [demoSocket \<mapsto> SockNode 1 384,
     markerPath demoSocket \<mapsto> PlainNode ''p''], ssLive = {}\<rparr>"

lemmas socket_eval = listenUnix_def prepareDir_def verifyOwnedDir_def clearPath_def unlink_def bindSocket_def
  claimSocket_def claimSocketOwnership_def staleSockets_def

lemma listenUnix_ok_witness:
  "\<exists>st'. listenUnix (\<lambda>_. False) 501 2 demoSocket ''q'' staleSockets = (Inr ''q'', st') \<and> reaches st' demoSocket 2"
proof -
  obtain st' where r: "listenUnix (\<lambda>_. False) 501 2 demoSocket ''q'' staleSockets = (Inr ''q'', st')"
    by (simp add: socket_eval)
  show ?thesis using r listenUnix_ok [OF r] by blast
qed

text \<open>
  A draining instance does not take the socket of its successor away: when a second
  process has bound and claimed the path with a different token, the first one's deferred
  cleanup changes nothing, and the path still reaches the second.
\<close>

theorem cleanup_spares_successor:
  assumes "listenUnix fails uid q path tq st = (Inr tok, st')" and "tp \<noteq> tq"
  shows "removeSocketIfOwned path tp st' = st' \<and> reaches (removeSocketIfOwned path tp st') path q"
proof -
  obtain st1 st2 st3 where 3: "bindSocket fails q path st2 = (None, st3)"
    and 4: "claimSocket fails q path tq st3 = (None, st')"
    using assms(1) by (auto simp: listenUnix_def split: prod.splits option.splits)
  have m: "st' = st3\<lparr>ssNodes := (ssNodes st3)(markerPath path \<mapsto> PlainNode tq)\<rparr>"
    using 4 by (auto simp: claimSocket_def claimSocketOwnership_def split: if_splits option.splits)
  have "reaches st' path q" using 3 by (auto simp: m bindSocket_def reaches_def Let_def split: if_splits)
  then show ?thesis using assms(2) by (simp add: removeSocketIfOwned_def ownsMarker_def m)
qed

lemma cleanup_spares_successor_witness:
  "\<exists>st'. listenUnix (\<lambda>_. False) 501 2 demoSocket ''q'' staleSockets = (Inr ''q'', st')
     \<and> removeSocketIfOwned demoSocket ''p'' st' = st'"
proof -
  obtain st' where r: "listenUnix (\<lambda>_. False) 501 2 demoSocket ''q'' staleSockets = (Inr ''q'', st')"
    by (simp add: socket_eval)
  show ?thesis using r cleanup_spares_successor [OF r, of "''p''"] by simp
qed

text \<open>
  C32. Before the claim the successor is not protected: the path is bound first and claimed
  afterwards, and a predecessor whose marker is still there (its listener, closed at the start
  of the drain, has already unlinked the socket itself) removes the new socket if its cleanup
  runs in between. The new driver then serves a socket nobody can reach.
\<close>

theorem cleanup_before_claim:
  assumes "ownsMarker path tp st" and "ssNodes st path = None"
    and "prepareDir fails uid (pathDir path) st = (None, st1)" and "clearPath fails path st1 = (None, st2)"
    and "bindSocket fails q path st2 = (None, st3)"
    and "claimSocket fails q path tq (removeSocketIfOwned path tp st3) = (None, st4)"
  shows "q \<in> ssLive st4 \<and> (\<forall>p. \<not> reaches st4 path p)"
proof -
  have d: "ssNodes st1 = ssNodes st" "ssLive st1 = ssLive st"
    using assms(3) by (auto simp: prepareDir_def Let_def split: if_splits option.splits)
  then have c: "ssNodes st2 = ssNodes st" using assms(2,4) by (auto simp: clearPath_def split: if_splits)
  have b: "ssNodes st3 = (ssNodes st)(path \<mapsto> SockNode q 384)" "q \<in> ssLive st3"
    using assms(5) c by (auto simp: bindSocket_def Let_def split: if_splits)
  then have o: "removeSocketIfOwned path tp st3 = removeBoth path st3"
    using assms(1) by (simp add: removeSocketIfOwned_def ownsMarker_def)
  have "st4 = (removeBoth path st3)\<lparr>ssNodes := (ssNodes (removeBoth path st3))(markerPath path \<mapsto> PlainNode tq)\<rparr>"
    using assms(6) unfolding o by (auto simp: claimSocket_def claimSocketOwnership_def split: if_splits option.splits)
  then show ?thesis using b by (simp add: removeBoth_def unlink_def reaches_def)
qed

definition drainingSockets :: sockets where
  "drainingSockets = \<lparr>ssDir = DirOf 501 448, ssNodes = [markerPath demoSocket \<mapsto> PlainNode ''p''], ssLive = {}\<rparr>"

definition boundSockets :: sockets where
  "boundSockets = \<lparr>ssDir = DirOf 501 448,
     ssNodes = [markerPath demoSocket \<mapsto> PlainNode ''p'', demoSocket \<mapsto> SockNode 2 384], ssLive = {2}\<rparr>"

lemma cleanup_before_claim_witness:
  "\<exists>st4. claimSocket (\<lambda>_. False) 2 demoSocket ''q'' (removeSocketIfOwned demoSocket ''p'' boundSockets) = (None, st4)
     \<and> 2 \<in> ssLive st4 \<and> \<not> reaches st4 demoSocket 2"
proof -
  have 0: "ownsMarker demoSocket ''p'' drainingSockets" "ssNodes drainingSockets demoSocket = None"
    by (simp_all add: ownsMarker_def drainingSockets_def)
  have 1: "prepareDir (\<lambda>_. False) 501 (pathDir demoSocket) drainingSockets = (None, drainingSockets)"
    by (simp add: socket_eval drainingSockets_def)
  have 2: "clearPath (\<lambda>_. False) demoSocket drainingSockets = (None, drainingSockets)"
    by (simp add: socket_eval drainingSockets_def)
  have 3: "bindSocket (\<lambda>_. False) 2 demoSocket drainingSockets = (None, boundSockets)"
    by (simp add: socket_eval drainingSockets_def boundSockets_def)
  obtain st4 where 4: "claimSocket (\<lambda>_. False) 2 demoSocket ''q'' (removeSocketIfOwned demoSocket ''p'' boundSockets)
      = (None, st4)"
    by (simp add: socket_eval)
  show ?thesis using 4 cleanup_before_claim [OF 0 1 2 3 4] by blast
qed

end
