(* ===== verification/Startup.thy ===== *)
theory Startup
  imports Machine Preflight Socket
begin

section \<open>The driver process (\<open>main.go\<close>)\<close>

text \<open>
  \<open>run\<close> puts the parts together: the configuration, the supervisor image, the record store,
  the startup checks, the adoption of what the store holds, the socket, serving, and the
  orderly end. The order is the code's, and so is what an error leaves behind.
\<close>

subsection \<open>The machine a driver starts on\<close>

record 'w machine =
  mhWorld :: 'w
  mhDisk :: hostfs
  mhSockets :: sockets

text \<open>
  What a start finds and what is not the program: the environment, the files that exist, the
  output of the gateway binary (\<open>None\<close> if it cannot be run), the runtime, \<open>url.Parse\<close>,
  whether the store's directory can be made, whether the time for starting is over at the
  checks and at the bootstrap, the choices of the bootstrap, the failing system calls, the
  user, the process and the token it draws, and the parameters of the server.
\<close>

record 'w startEnv =
  seEnv :: procenv
  seExists :: "string \<Rightarrow> bool"
  seGateway :: "string option"
  seRt :: "'w Runtime"
  seHostOf :: "string \<Rightarrow> string option"
  seStoreOk :: bool
  seLateCheck :: bool
  seLateBoot :: bool
  seOrc :: Oracle
  seFails :: "syscall \<Rightarrow> bool"
  seUid :: nat
  sePid :: nat
  seToken :: string
  seVersion :: string
  seEvalSymlinks :: "string \<Rightarrow> string option"
  seMarshal :: "DriverSandbox \<Rightarrow> string option"
  seConv :: "gofloat \<Rightarrow> int"

subsection \<open>Starting\<close>

definition depsOf :: "'w startEnv \<Rightarrow> Config \<Rightarrow> string \<Rightarrow> 'w Deps" where
  "depsOf ev cfg dir =
     \<lparr>dpCfg = cfg, dpRt = seRt ev, dpRoot = dir, dpPid = sePid ev, dpVersion = seVersion ev,
      dpEvalSymlinks = seEvalSymlinks ev, dpMarshal = seMarshal ev, dpConv = seConv ev\<rparr>"

definition configured :: "'w startEnv \<Rightarrow> string list \<Rightarrow> err + Config" where
  "configured ev args =
     (case ConfigParse (seEnv ev) (seExists ev) args of
        Inl e \<Rightarrow> Inl e
      | Inr cfg \<Rightarrow> Inr (ResolveSupervisorImage (seGateway ev) cfg))"

text \<open>Up to the bootstrap.\<close>

definition bootDriver ::
  "'w startEnv \<Rightarrow> string list \<Rightarrow> 'w machine \<Rightarrow> (err + 'w Deps \<times> 'w Server) \<times> 'w machine" where
  "bootDriver ev args m =
     (case configured ev args of
        Inl e \<Rightarrow> (Inl e, m)
      | Inr cfg \<Rightarrow>
          (case NewStore (seStoreOk ev) (cfgStateDir cfg) (mhDisk m) of
             (Inl e, fs) \<Rightarrow> (Inl e, m\<lparr>mhDisk := fs\<rparr>)
           | (Inr dir, fs) \<Rightarrow>
               (let (pf, w) = Preflight (seHostOf ev) (seExists ev) (seRt ev) (seLateCheck ev) cfg (mhWorld m)
                in case pfErr pf of
                     Some e \<Rightarrow> (Inl e, m\<lparr>mhDisk := fs, mhWorld := w\<rparr>)
                   | None \<Rightarrow>
                       (let d = depsOf ev (pfCfg pf) dir;
                            (e, s) = Bootstrap d (seOrc ev) (seLateBoot ev) (newServer w fs);
                            m1 = m\<lparr>mhDisk := svDisk s, mhWorld := svWorld s\<rparr>
                        in case e of
                             Some e \<Rightarrow> (Inl (Wrap ''startup reconcile: %w'' [] e), m1)
                           | None \<Rightarrow> (Inr (d, s), m1)))))"

definition startup ::
  "'w startEnv \<Rightarrow> string list \<Rightarrow> 'w machine \<Rightarrow> (err + 'w Deps \<times> 'w Server) \<times> 'w machine" where
  "startup ev args m =
     (case bootDriver ev args m of
        (Inl e, m1) \<Rightarrow> (Inl e, m1)
      | (Inr (d, s), m1) \<Rightarrow>
          (case listenUnix (seFails ev) (seUid ev) (sePid ev) (cfgSocket (dpCfg d)) (seToken ev) (mhSockets m1) of
             (Inl e, ss) \<Rightarrow> (Inl e, m1\<lparr>mhSockets := ss\<rparr>)
           | (Inr token, ss) \<Rightarrow> (Inr (d, s), m1\<lparr>mhSockets := ss\<rparr>)))"

subsection \<open>Serving and the end\<close>

text \<open>
  \<open>serve\<close> is what happens until \<open>Serve\<close> fails (an error) or a signal arrives (\<open>None\<close>), with the
  server's own state and the machine; \<open>drain\<close> what happens while requests are drained, at most
  ten seconds, after the listener has been closed. The removal of the socket is deferred.
\<close>

definition runDriver ::
  "'w startEnv \<Rightarrow> string list
     \<Rightarrow> ('w Deps \<Rightarrow> 'w Server \<times> 'w machine \<Rightarrow> err option \<times> 'w Server \<times> 'w machine)
     \<Rightarrow> ('w Deps \<Rightarrow> 'w Server \<times> 'w machine \<Rightarrow> 'w Server \<times> 'w machine)
     \<Rightarrow> 'w machine \<Rightarrow> err option \<times> 'w Server option \<times> 'w machine" where
  "runDriver ev args serve drain m =
     (case startup ev args m of
        (Inl e, m1) \<Rightarrow> (Some e, None, m1)
      | (Inr (d, s), m1) \<Rightarrow>
          (let path = cfgSocket (dpCfg d);
               (e, s1, m2) = serve d (s, m1);
               m3 = m2\<lparr>mhSockets := closeListener (sePid ev) path (mhSockets m2)\<rparr>;
               (s2, m4) = (case e of
                             Some _ \<Rightarrow> (s1, m3)
                           | None \<Rightarrow> (case drain d (s1, m3) of (s', m') \<Rightarrow> (closeServer s', m')))
           in (e, Some s2, m4\<lparr>mhSockets := removeSocketIfOwned path (seToken ev) (mhSockets m4)\<rparr>)))"

subsection \<open>What a start that succeeds establishes\<close>

text \<open>Every record of the store carries the identifier of its directory.\<close>

definition recordsSound :: "string \<Rightarrow> hostfs \<Rightarrow> bool" where
  "recordsSound dir fs \<longleftrightarrow>
     (\<forall>i r. recordsOf dir fs i = Some r \<longrightarrow> rID r = i \<and> isDirNode (map_of fs (SandboxDir dir i)))"

lemma mkdir_keeps_dir: "isDirNode (map_of fs p) \<Longrightarrow> isDirNode (map_of (fsExec (MkdirAllOp m q) fs) p)"
  by (auto simp: map_of_mkdirs isDirNode_def split: option.splits node.splits)

lemma NewStore_ok:
  assumes "NewStore ok dir fs = (Inr dir', fs')" and "recordsSound dir fs"
  shows "dir' = dir \<and> recordsOf dir fs' = recordsOf dir fs \<and> storeOk dir fs'"
proof -
  have f: "dir' = dir" "fs' = fsExec (MkdirAllOp mode700 (sandboxesDir dir)) fs" "canMkdir (sandboxesDir dir) fs"
    using assms(1) by (auto simp: NewStore_def split: if_splits)
  have r: "recordsOf dir fs' = recordsOf dir fs" by (simp only: f(2) mkdir_records)
  have "isDirNode (map_of fs' (sandboxesDir dir))" unfolding f(2) by (rule mkdir_makes_dir [OF f(3)])
  moreover have "isDirNode (map_of fs' p)" if "isDirNode (map_of fs p)" for p
    using mkdir_keeps_dir [OF that] f(2) by simp
  ultimately show ?thesis using f(1) r assms(2) by (simp add: storeOk_def recordsSound_def)
qed

lemma bootDriver_ok:
  assumes "bootDriver ev args m = (Inr (d, s), m1)"
  obtains cfg fs pf w where
    "configured ev args = Inr cfg" "NewStore (seStoreOk ev) (cfgStateDir cfg) (mhDisk m) = (Inr (cfgStateDir cfg), fs)"
    "Preflight (seHostOf ev) (seExists ev) (seRt ev) (seLateCheck ev) cfg (mhWorld m) = (pf, w)"
    "pfErr pf = None" "d = depsOf ev (pfCfg pf) (cfgStateDir cfg)"
    "Bootstrap d (seOrc ev) (seLateBoot ev) (newServer w fs) = (None, s)"
    "m1 = m\<lparr>mhDisk := svDisk s, mhWorld := svWorld s\<rparr>"
proof -
  obtain cfg where c: "configured ev args = Inr cfg" using assms by (auto simp: bootDriver_def split: sum.splits)
  have n: "fst (NewStore (seStoreOk ev) (cfgStateDir cfg) (mhDisk m)) = Inr (cfgStateDir cfg)"
    using assms c by (auto simp: bootDriver_def NewStore_def split: if_splits)
  obtain fs where fs: "NewStore (seStoreOk ev) (cfgStateDir cfg) (mhDisk m) = (Inr (cfgStateDir cfg), fs)"
    using n by (metis prod.collapse)
  obtain pf w where p: "Preflight (seHostOf ev) (seExists ev) (seRt ev) (seLateCheck ev) cfg (mhWorld m) = (pf, w)" by fastforce
  have pe: "pfErr pf = None" using assms c fs p by (auto simp: bootDriver_def split: option.splits)
  obtain e s1 where b: "Bootstrap (depsOf ev (pfCfg pf) (cfgStateDir cfg)) (seOrc ev) (seLateBoot ev) (newServer w fs) = (e, s1)"
    by fastforce
  have "e = None" "d = depsOf ev (pfCfg pf) (cfgStateDir cfg)" "s = s1" "m1 = m\<lparr>mhDisk := svDisk s, mhWorld := svWorld s\<rparr>"
    using assms c fs p pe b by (auto simp: bootDriver_def Let_def split: option.splits)
  then show ?thesis using that [OF c fs p pe] b by blast
qed

lemma dpRoot_depsOf [simp]: "dpRoot (depsOf ev cfg dir) = dir" "dpCfg (depsOf ev cfg dir) = cfg" "dpRt (depsOf ev cfg dir) = seRt ev"
  by (simp_all add: depsOf_def)

lemma boot_adopts:
  assumes "bootDriver ev args m = (Inr (d, s), m1)" and "recordsSound (dpRoot d) (mhDisk m)"
  shows "serverOk d s" "recs d s = recordsOf (dpRoot d) (mhDisk m)" "svDisk s = mhDisk m1" "mhSockets m1 = mhSockets m"
    "(map_of (svSandboxes s) i = None) = (recordsOf (dpRoot d) (mhDisk m) i = None)"
proof -
  obtain cfg fs pf w where b: "configured ev args = Inr cfg"
    "NewStore (seStoreOk ev) (cfgStateDir cfg) (mhDisk m) = (Inr (cfgStateDir cfg), fs)"
    "Preflight (seHostOf ev) (seExists ev) (seRt ev) (seLateCheck ev) cfg (mhWorld m) = (pf, w)"
    "pfErr pf = None" "d = depsOf ev (pfCfg pf) (cfgStateDir cfg)"
    "Bootstrap d (seOrc ev) (seLateBoot ev) (newServer w fs) = (None, s)" "m1 = m\<lparr>mhDisk := svDisk s, mhWorld := svWorld s\<rparr>"
    using bootDriver_ok [OF assms(1)] by metis
  have dir: "dpRoot d = cfgStateDir cfg" using b(5) by simp
  note ns = NewStore_ok [OF b(2) assms(2) [unfolded dir]]
  have "storeOk (dpRoot d) (svDisk (newServer w fs))" using ns dir by (simp add: newServer_def)
  from Bootstrap_adopts [OF this _ _ b(6)] obtain cs where f: "svDisk s = svDisk (newServer w fs)" "serverOk d s"
    "\<forall>i. case recs d (newServer w fs) i of None \<Rightarrow> regView s i = None
       | Some rc \<Rightarrow> (\<exists>c. regView s i = Some (adopted rc c) \<and> cdReason c = bootReason cs rc
           \<and> (cdStatus c = ''True'') = (bootReason cs rc = reasonBackendReady))"
    by (auto simp: newServer_def hubOk_new)
  have a: "svDisk s = fs" "serverOk d s"
    "case recs d (newServer w fs) i of None \<Rightarrow> regView s i = None | Some rc \<Rightarrow> \<exists>c. regView s i = Some (adopted rc c)" for i
    using f(1,2) spec [OF f(3), of i] by (auto simp: newServer_def split: option.splits)
  have r: "recs d (newServer w fs) = recordsOf (dpRoot d) (mhDisk m)" using ns dir by (simp add: newServer_def)
  show "serverOk d s" by (rule a(2))
  show "recs d s = recordsOf (dpRoot d) (mhDisk m)" using a(1) ns dir by simp
  show "svDisk s = mhDisk m1" "mhSockets m1 = mhSockets m" using b(7) by simp_all
  show "(map_of (svSandboxes s) i = None) = (recordsOf (dpRoot d) (mhDisk m) i = None)"
    using a(3) [of i] r by (auto simp: regView_def split: option.splits)
qed

lemma configOk_resolve [simp]: "configOk (ResolveSupervisorImage g cfg) = configOk cfg"
  by (simp add: ResolveSupervisorImage_def configOk_def Let_def)

text \<open>
  C13. A driver that serves has a valid configuration with an endpoint guests may reach, a registry
  with exactly the sandboxes whose records the store held (which it left as they were) that
  satisfies the invariant, and the socket: it reaches this process, carries its token, and
  no other instance was listening there.
\<close>

theorem startup_serves:
  assumes run: "startup ev args m = (Inr (d, s), m')" and sound: "recordsSound (dpRoot d) (mhDisk m)"
  shows "\<exists>cfg. configured ev args = Inr cfg \<and> configOk cfg \<and> dpRoot d = cfgStateDir cfg
      \<and> checkEndpoint (seHostOf ev) (cfgGRPCEndpoint (dpCfg d)) = None
      \<and> (cfgGRPCEndpoint cfg \<noteq> [] \<longrightarrow> dpCfg d = cfg)
      \<and> serverOk d s \<and> recs d s = recordsOf (dpRoot d) (mhDisk m)
      \<and> (\<forall>i. (map_of (svSandboxes s) i \<noteq> None) = (recordsOf (dpRoot d) (mhDisk m) i \<noteq> None))
      \<and> reaches (mhSockets m') (cfgSocket cfg) (sePid ev) \<and> ownsMarker (cfgSocket cfg) (seToken ev) (mhSockets m')
      \<and> (\<forall>p. \<not> reaches (mhSockets m) (cfgSocket cfg) p)"
proof -
  obtain m1 ss token where b: "bootDriver ev args m = (Inr (d, s), m1)"
    and l: "listenUnix (seFails ev) (seUid ev) (sePid ev) (cfgSocket (dpCfg d)) (seToken ev) (mhSockets m1) = (Inr token, ss)"
    and m': "m' = m1\<lparr>mhSockets := ss\<rparr>"
    using run by (auto simp: startup_def split: prod.splits sum.splits)
  from bootDriver_ok [OF b] obtain cfg pf w where c: "configured ev args = Inr cfg"
    and pre: "Preflight (seHostOf ev) (seExists ev) (seRt ev) (seLateCheck ev) cfg (mhWorld m) = (pf, w)" "pfErr pf = None"
    and d: "d = depsOf ev (pfCfg pf) (cfgStateDir cfg)" by metis
  have ok: "configOk cfg"
    using c ConfigParse_ok by (auto simp: configured_def split: sum.splits)
  obtain g where g: "pfCfg pf = deriveEndpoint g cfg" "checkEndpoint (seHostOf ev) (cfgGRPCEndpoint (pfCfg pf)) = None"
    using pre by (auto simp: Preflight_def Let_def split: prod.splits)
  have cfg: "cfgSocket (dpCfg d) = cfgSocket cfg" "cfgGRPCEndpoint cfg \<noteq> [] \<longrightarrow> dpCfg d = cfg"
    using d g by (auto simp: deriveEndpoint_def split: if_splits)
  note a = boot_adopts [OF b sound]
  note o = listenUnix_owns [OF l]
  show ?thesis using c ok d g(2) cfg a o by (auto simp: m')
qed


subsection \<open>A second instance\<close>

lemma Preflight_fake:
  assumes "Preflight hostOf exists fakeRuntime ctx cfg w = (pf, w')"
  shows "fkContainers w' = fkContainers w"
  using assms
  by (auto simp: Preflight_def ensureNetwork_def checkRuntimeVersion_def listNetworks_def fakeRuntime_def Let_def
      fakeNetworks_def fakeNetworkCreate_def fakeVersion_def fakeSystemStart_def
      split: prod.splits if_splits option.splits sum.splits)

lemma listen_refuses:
  assumes "reaches st path p"
  obtains e ss where "listenUnix fails uid me path token st = (Inl e, ss)" "ssNodes ss = ssNodes st" "ssLive ss = ssLive st"
proof -
  obtain e1 st1 where 1: "prepareDir fails uid (pathDir path) st = (e1, st1)" by fastforce
  have d: "ssNodes st1 = ssNodes st" "ssLive st1 = ssLive st"
    using 1 by (auto simp: prepareDir_def Let_def split: if_splits option.splits)
  have "\<exists>e2. clearPath fails path st1 = (Some e2, st1)"
    using assms d by (auto simp: clearPath_def reaches_def)
  then obtain e2 where 2: "clearPath fails path st1 = (Some e2, st1)" by blast
  show thesis
    using that [of "if e1 = None then e2 else the e1" st1] 1 2 d by (auto simp: listenUnix_def split: option.splits)
qed

text \<open>
  C36. The socket is what tells a second instance that a first one serves, and it is looked at
  last. A driver started by mistake beside a running one, with another state directory, is
  refused, and the first one keeps its socket; but by then the second has deleted every
  container of the first: to its own store they are all orphans.
\<close>

theorem second_instance_deletes:
  assumes rt: "seRt ev = fakeRuntime" and good: "fakeGood (mhWorld m)" and boot: "bootDriver ev args m = (Inr (d, s), m1)"
    and sound: "recordsSound (dpRoot d) (mhDisk m)" and live: "reaches (mhSockets m) (cfgSocket (dpCfg d)) p"
  shows "\<exists>e m'. startup ev args m = (Inl e, m') \<and> reaches (mhSockets m') (cfgSocket (dpCfg d)) p
    \<and> (\<forall>n c. map_of (fkContainers (mhWorld m)) n = Some c
         \<longrightarrow> mapGet (cLabels (fcCtr c)) labelManagedBy = managedByValue
         \<longrightarrow> recordsOf (dpRoot d) (mhDisk m) (mapGet (cLabels (fcCtr c)) labelSandboxID) = None
         \<longrightarrow> map_of (fkContainers (mhWorld m')) n = None)"
proof -
  obtain cfg fs pf w where b:
    "Preflight (seHostOf ev) (seExists ev) (seRt ev) (seLateCheck ev) cfg (mhWorld m) = (pf, w)"
    "d = depsOf ev (pfCfg pf) (cfgStateDir cfg)" "Bootstrap d (seOrc ev) (seLateBoot ev) (newServer w fs) = (None, s)"
    "m1 = m\<lparr>mhDisk := svDisk s, mhWorld := svWorld s\<rparr>"
    by (rule bootDriver_ok [OF boot]) blast
  have w: "fkContainers w = fkContainers (mhWorld m)" using b(1) rt Preflight_fake by metis
  have g: "fakeGood (svWorld (newServer w fs))" using good w by (simp add: fakeGood_def newServer_def)
  have gone: "map_of (fkContainers (svWorld s)) n = None"
    if "map_of (fkContainers (mhWorld m)) n = Some c" "mapGet (cLabels (fcCtr c)) labelManagedBy = managedByValue"
      "recordsOf (dpRoot d) (mhDisk m) (mapGet (cLabels (fcCtr c)) labelSandboxID) = None" for n c
    using Bootstrap_orphans [OF _ g b(3), of n] that boot_adopts(5) [OF boot sound] w rt b(2) by (simp add: newServer_def)
  obtain e ss where l: "listenUnix (seFails ev) (seUid ev) (sePid ev) (cfgSocket (dpCfg d)) (seToken ev) (mhSockets m) = (Inl e, ss)"
    "ssNodes ss = ssNodes (mhSockets m)" "ssLive ss = ssLive (mhSockets m)"
    using listen_refuses [OF live] by metis
  have "startup ev args m = (Inl e, m1\<lparr>mhSockets := ss\<rparr>)" using boot l(1) b(4) by (simp add: startup_def)
  moreover have "reaches ss (cfgSocket (dpCfg d)) p" using live l(2,3) by (simp add: reaches_def)
  ultimately show ?thesis using gone b(4) by auto
qed

subsection \<open>The end of a process\<close>


subsection \<open>A start, and a second one\<close>

definition demoStart :: "Fake startEnv" where
  "demoStart = \<lparr>seEnv = (\<lambda>_. None), seExists = (\<lambda>_. True), seGateway = None, seRt = fakeRuntime,
     seHostOf = demoHostOf, seStoreOk = True, seLateCheck = False, seLateBoot = False, seOrc = demoOrc,
     seFails = (\<lambda>_. False), seUid = 501, sePid = 2, seToken = ''q'', seVersion = ''dev'',
     seEvalSymlinks = Some, seMarshal = (\<lambda>x. Some (sbId x)), seConv = (\<lambda>_. 1)\<rparr>"

definition demoArgs :: "string list" where
  "demoArgs = [''--state-dir'', ''/other'', ''--socket='' @ demoSocket]"

text \<open>The machine: a sandbox of another instance, and its socket, stale or live.\<close>

definition demoMachine :: "nat set \<Rightarrow> Fake machine" where
  "demoMachine live =
     \<lparr>mhWorld = svWorld demoLitter, mhDisk = [], mhSockets = staleSockets\<lparr>ssLive := live\<rparr>\<rparr>"

lemma Bootstrap_fake:
  assumes "dpRt d = fakeRuntime" and "storeOk (dpRoot d) (svDisk s)"
  shows "fst (Bootstrap d orc ctx s) = None"
proof -
  obtain rs sk where "ListRecords (dpRoot d) (svDisk s) = Inr (rs, sk)"
    using List_records [OF assms(2)] by blast
  then show ?thesis
    using assms(1) by (simp add: Bootstrap_def Let_def rtCall_def fakeRuntime_def fakeList_def split: prod.split)
qed

lemma demo_configured:
  "case configured demoStart demoArgs of Inl e \<Rightarrow> False
   | Inr cfg \<Rightarrow> cfgSocket cfg = demoSocket \<and> cfgStateDir cfg = ''/other''"
  "case configured demoStart demoArgs of Inl e \<Rightarrow> False
   | Inr cfg \<Rightarrow> pfErr (fst (Preflight demoHostOf (\<lambda>_. True) fakeRuntime False cfg (svWorld demoLitter))) = None"
  "fst (NewStore True ''/other'' []) = Inr ''/other''"
  by code_simp+

lemma demo_sound: "recordsSound r (mhDisk (demoMachine live))"
proof -
  have "recordsOf r (mhDisk (demoMachine live)) i = None" for i
    by (rule ccontr) (auto simp: recordsOf_node demoMachine_def)
  then show ?thesis by (simp add: recordsSound_def)
qed

lemma demo_boot:
  obtains d s m1 where "bootDriver demoStart demoArgs (demoMachine live) = (Inr (d, s), m1)"
    "cfgSocket (dpCfg d) = demoSocket" "mhSockets m1 = staleSockets\<lparr>ssLive := live\<rparr>"
proof -
  let ?m = "demoMachine live"
  obtain cfg where c: "configured demoStart demoArgs = Inr cfg" "cfgSocket cfg = demoSocket" "cfgStateDir cfg = ''/other''"
    "pfErr (fst (Preflight demoHostOf (\<lambda>_. True) fakeRuntime False cfg (svWorld demoLitter))) = None"
    using demo_configured(1,2) by (auto split: sum.splits)
  obtain fs where n: "NewStore True ''/other'' (mhDisk ?m) = (Inr ''/other'', fs)"
    using demo_configured(3) by (cases "NewStore True ''/other'' []") (simp add: demoMachine_def)
  obtain pf w where p: "Preflight demoHostOf (\<lambda>_. True) fakeRuntime False cfg (mhWorld ?m) = (pf, w)" "pfErr pf = None"
    using c(4) by (cases "Preflight demoHostOf (\<lambda>_. True) fakeRuntime False cfg (svWorld demoLitter)") (simp add: demoMachine_def)
  let ?d = "depsOf demoStart (pfCfg pf) ''/other''"
  have "storeOk ''/other'' fs" using NewStore_ok [OF n demo_sound] by simp
  then have "fst (Bootstrap ?d demoOrc False (newServer w fs)) = None"
    by (intro Bootstrap_fake) (simp_all add: newServer_def demoStart_def)
  then obtain s where b: "Bootstrap ?d demoOrc False (newServer w fs) = (None, s)" by (metis prod.collapse)
  have env: "seHostOf demoStart = demoHostOf" "seExists demoStart = (\<lambda>_. True)" "seRt demoStart = fakeRuntime"
    "\<not> seLateCheck demoStart" "\<not> seLateBoot demoStart" "seOrc demoStart = demoOrc" "seStoreOk demoStart"
    by (simp_all add: demoStart_def)
  have "bootDriver demoStart demoArgs ?m = (Inr (?d, s), ?m\<lparr>mhDisk := svDisk s, mhWorld := svWorld s\<rparr>)"
    using c n p b by (simp add: bootDriver_def env Let_def)
  moreover have "cfgSocket (pfCfg pf) = cfgSocket cfg"
    using p(1) by (auto simp: Preflight_def deriveEndpoint_def Let_def split: prod.splits)
  ultimately show ?thesis using that [of ?d s] c(2) by (simp add: demoMachine_def)
qed

lemma demo_startup:
  obtains d s m' where "startup demoStart demoArgs (demoMachine {}) = (Inr (d, s), m')" "cfgSocket (dpCfg d) = demoSocket"
proof (rule demo_boot [of "{}"])
  fix d s m1
  assume b: "bootDriver demoStart demoArgs (demoMachine {}) = (Inr (d, s), m1)"
    "cfgSocket (dpCfg d) = demoSocket" "mhSockets m1 = staleSockets\<lparr>ssLive := {}\<rparr>"
  have "fst (listenUnix (seFails demoStart) (seUid demoStart) (sePid demoStart) demoSocket (seToken demoStart)
      (staleSockets\<lparr>ssLive := {}\<rparr>)) = Inr ''q''"
    by (simp add: socket_eval demoStart_def)
  then obtain ss where "listenUnix (seFails demoStart) (seUid demoStart) (sePid demoStart) demoSocket (seToken demoStart)
      (staleSockets\<lparr>ssLive := {}\<rparr>) = (Inr ''q'', ss)" by (metis prod.collapse)
  then have "startup demoStart demoArgs (demoMachine {}) = (Inr (d, s), m1\<lparr>mhSockets := ss\<rparr>)"
    using b by (simp add: startup_def)
  then show ?thesis using that b by blast
qed

theorem startup_serves_witness:
  "\<exists>d s m'. startup demoStart demoArgs (demoMachine {}) = (Inr (d, s), m') \<and> serverOk d s \<and> svSandboxes s = []
     \<and> reaches (mhSockets m') demoSocket 2"
proof (rule demo_startup)
  fix d s m'
  assume r: "startup demoStart demoArgs (demoMachine {}) = (Inr (d, s), m')" "cfgSocket (dpCfg d) = demoSocket"
  have n: "recordsOf x (mhDisk (demoMachine {})) i = None" for x i
    by (rule ccontr) (auto simp: recordsOf_node demoMachine_def)
  from startup_serves [OF r(1) demo_sound] obtain cfg where c: "configured demoStart demoArgs = Inr cfg" "serverOk d s"
    "\<forall>i. (map_of (svSandboxes s) i \<noteq> None) = (recordsOf (dpRoot d) (mhDisk (demoMachine {})) i \<noteq> None)"
    "reaches (mhSockets m') (cfgSocket cfg) (sePid demoStart)" by blast
  have "map_of (svSandboxes s) = Map.empty" using c(3) n by (intro ext) simp
  then have "svSandboxes s = []" by (cases "svSandboxes s") (auto simp: fun_eq_iff split: if_splits)
  moreover have "cfgSocket cfg = demoSocket"
  proof -
    show ?thesis using c(1) demo_configured(1) by simp
  qed
  ultimately show ?thesis using r c by (intro exI conjI) (auto simp: demoStart_def)
qed


theorem second_instance_deletes_witness:
  "\<exists>e m'. startup demoStart demoArgs (demoMachine {1}) = (Inl e, m') \<and> reaches (mhSockets m') demoSocket 1
     \<and> map_of (fkContainers (mhWorld (demoMachine {1}))) ''oshl-zz'' \<noteq> None
     \<and> map_of (fkContainers (mhWorld m')) ''oshl-zz'' = None"
proof (rule demo_boot [of "{1}"])
  fix d s m1
  assume b: "bootDriver demoStart demoArgs (demoMachine {1}) = (Inr (d, s), m1)" "cfgSocket (dpCfg d) = demoSocket"
  have w: "fkContainers (mhWorld (demoMachine {1}))
      = [(''oshl-zz'', demoCtr ''oshl-zz'' [(labelManagedBy, managedByValue), (labelSandboxID, ''zz'')]),
         (''db'', demoCtr ''db'' [])]"
    by (simp add: demoMachine_def demoLitter_def)
  then have g: "fakeGood (mhWorld (demoMachine {1}))" by (auto simp: fakeGood_def goodCtrs_def demoCtr_def split: if_splits)
  have live: "reaches (mhSockets (demoMachine {1})) (cfgSocket (dpCfg d)) 1"
    using b(2) by (simp add: demoMachine_def staleSockets_def reaches_def)
  have n: "recordsOf x (mhDisk (demoMachine {1})) i = None" for x i
    by (rule ccontr) (auto simp: recordsOf_node demoMachine_def)
  from second_instance_deletes [OF _ g b(1) demo_sound live] obtain e m' where
    r: "startup demoStart demoArgs (demoMachine {1}) = (Inl e, m')" "reaches (mhSockets m') (cfgSocket (dpCfg d)) 1"
    "\<forall>n c. map_of (fkContainers (mhWorld (demoMachine {1}))) n = Some c
         \<longrightarrow> mapGet (cLabels (fcCtr c)) labelManagedBy = managedByValue
         \<longrightarrow> recordsOf (dpRoot d) (mhDisk (demoMachine {1})) (mapGet (cLabels (fcCtr c)) labelSandboxID) = None
         \<longrightarrow> map_of (fkContainers (mhWorld m')) n = None"
    by (auto simp: demoStart_def)
  have c: "map_of (fkContainers (mhWorld (demoMachine {1}))) ''oshl-zz''
      = Some (demoCtr ''oshl-zz'' [(labelManagedBy, managedByValue), (labelSandboxID, ''zz'')])"
    unfolding w by simp
  have "mapGet (cLabels (fcCtr (demoCtr ''oshl-zz'' [(labelManagedBy, managedByValue), (labelSandboxID, ''zz'')]))) labelManagedBy
      = managedByValue" by (simp add: demoCtr_def mapGet_def)
  then have "map_of (fkContainers (mhWorld m')) ''oshl-zz'' = None" using r(3) c n by blast
  then show ?thesis using r(1,2) b(2) c by (intro exI conjI) auto
qed


end
