(* ===== verification/Commands.thy ===== *)
theory Commands
  imports HostStatus Update Startup
begin

section \<open>The command line (\<open>main.go\<close>, \<open>setup.go\<close>, \<open>cleanup.go\<close>, \<open>status.go\<close>)\<close>

text \<open>
  The subcommands: their flags, what they hand to the operations of the other theories, and
  their exit codes. What they print is modelled for \<open>status\<close> and \<open>logs\<close>.
\<close>

subsection \<open>Flags\<close>

text \<open>A flag of a \<open>flag.FlagSet\<close>: its kind, and what setting it does to the options.\<close>

datatype 'o flagVar =
    StrVar "string \<Rightarrow> 'o \<Rightarrow> 'o"
  | IntVar "int \<Rightarrow> 'o \<Rightarrow> 'o"
  | BoolVar "bool \<Rightarrow> 'o \<Rightarrow> 'o"

fun setVar :: "'o flagVar \<Rightarrow> string \<Rightarrow> 'o \<Rightarrow> 'o option" where
  "setVar (StrVar f) v o' = Some (f v o')"
| "setVar (IntVar f) v o' = map_option (\<lambda>i. f i o') (ParseInt0 v)"
| "setVar (BoolVar f) v o' = map_option (\<lambda>b. f b o') (ParseBool v)"

fun isBoolVar :: "'o flagVar \<Rightarrow> bool" where
  "isBoolVar (BoolVar _) = True"
| "isBoolVar _ = False"

text \<open>\<open>FlagSet.Parse\<close>. What follows the first argument that is no flag is left alone.\<close>

function parseFlagSet :: "(string \<times> 'o flagVar) list \<Rightarrow> string list \<Rightarrow> 'o \<Rightarrow> err + 'o" where
  "parseFlagSet vars [] o' = Inr o'"
| "parseFlagSet vars (s # args) o' =
     (if length s < 2 \<or> hd s \<noteq> CHR ''-'' \<or> s = ''--'' then Inr o'
      else
        (let name0 = (if s ! 1 = CHR ''-'' then drop 2 s else drop 1 s)
         in if name0 = [] \<or> hd name0 = CHR ''-'' \<or> hd name0 = CHR ''='' then Inl (errorf ''bad flag syntax: %s'' [s])
            else
              (let (name, val) = splitEq name0
               in case map_of vars name of
                    None \<Rightarrow>
                      (if name = ''help'' \<or> name = ''h'' then Inl (errorf ''flag: help requested'' [])
                       else Inl (errorf ''flag provided but not defined: -%s'' [name]))
                  | Some var \<Rightarrow>
                      (if isBoolVar var
                       then (case setVar var (case val of Some v \<Rightarrow> v | None \<Rightarrow> ''true'') o' of
                               None \<Rightarrow> Inl (errorf ''invalid boolean value %q for -%s: %v'' [name])
                             | Some o1 \<Rightarrow> parseFlagSet vars args o1)
                       else
                         (case val of
                            Some v \<Rightarrow> (case setVar var v o' of
                                        None \<Rightarrow> Inl (errorf ''invalid value %q for flag -%s: %v'' [v, name])
                                      | Some o1 \<Rightarrow> parseFlagSet vars args o1)
                          | None \<Rightarrow>
                              (case args of
                                 [] \<Rightarrow> Inl (errorf ''flag needs an argument: -%s'' [name])
                               | v # rest \<Rightarrow>
                                   (case setVar var v o' of
                                      None \<Rightarrow> Inl (errorf ''invalid value %q for flag -%s: %v'' [v, name])
                                    | Some o1 \<Rightarrow> parseFlagSet vars rest o1)))))))"
  by pat_completeness auto
termination
  by (relation "measure (\<lambda>(vars, args, o'). length args)") auto

subsection \<open>What the subcommands share\<close>

text \<open>\<open>config.Parse(nil)\<close>, then the supervisor image of the installed gateway.\<close>

definition cliDefaults :: "'w hostenv \<Rightarrow> 'w Host \<Rightarrow> err + Config" where
  "cliDefaults ev st = ConfigParse (heEnv ev) (\<lambda>p. fileExists p st) []"

definition resolveImage :: "'w hostenv \<Rightarrow> Config \<Rightarrow> 'w Host \<Rightarrow> Config \<times> 'w Host" where
  "resolveImage ev cfg st =
     (if cfgSupervisorImageExplicit cfg then (cfg, st)
      else (case runCmd ev ''openshell-gateway'' [''--version''] st of
              ((ok, out), st1) \<Rightarrow> (ResolveSupervisorImage (if ok then Some out else None) cfg, st1)))"

text \<open>Who runs a command: the binary, the user, and \<open>filepath.EvalSymlinks\<close>.\<close>

record caller =
  caExe :: "string option"
  caUid :: nat
  caLinks :: "string \<Rightarrow> string option"

definition newFor :: "'w hostenv \<Rightarrow> caller \<Rightarrow> err + Setup" where
  "newFor ev ca = newSetup (heEnv ev) (caExe ca) (caUid ca) (caLinks ca)"

subsection \<open>\<open>setup\<close>\<close>

definition setupFlags :: "(string \<times> Options flagVar) list" where
  "setupFlags =
     [(''network'', StrVar (\<lambda>v. opNetwork_update (\<lambda>_. v))),
      (''socket'', StrVar (\<lambda>v. opSocket_update (\<lambda>_. v))),
      (''tls-dir'', StrVar (\<lambda>v. opTLSDir_update (\<lambda>_. v))),
      (''default-image'', StrVar (\<lambda>v. opDefaultImage_update (\<lambda>_. v))),
      (''supervisor-image'', StrVar (\<lambda>v. opSupervisorImage_update (\<lambda>_. v))),
      (''no-pull'', BoolVar (\<lambda>b. opPullImages_update (\<lambda>_. \<not> b)))]"

definition setupDefaults :: "string \<Rightarrow> Config \<Rightarrow> Options" where
  "setupDefaults version cfg =
     \<lparr>opNetwork = cfgNetwork cfg, opSocket = cfgSocket cfg, opTLSDir = [], opDefaultImage = cfgDefaultImage cfg,
      opSupervisorImage = cfgSupervisorImage cfg, opPullImages = True, opDriverVersion = version\<rparr>"

text \<open>Thirty minutes for everything.\<close>

definition runSetup ::
  "'w hostenv \<Rightarrow> caller \<Rightarrow> string \<Rightarrow> string list \<Rightarrow> 'w Host \<Rightarrow> nat \<times> 'w Host" where
  "runSetup ev ca version args st =
     (case cliDefaults ev st of
        Inl e \<Rightarrow> (1, st)
      | Inr cfg0 \<Rightarrow>
          (let (cfg, st1) = resolveImage ev cfg0 st
           in case parseFlagSet setupFlags args (setupDefaults version cfg) of
                Inl e \<Rightarrow> (2, st1)
              | Inr opts \<Rightarrow>
                  (case newFor ev ca of
                     Inl e \<Rightarrow> (1, st1)
                   | Inr s \<Rightarrow>
                       (case setupRun ev s (hoClock st1 + 1800000) opts st1 of
                          (Some e, st2) \<Rightarrow> (1, st2)
                        | (None, st2) \<Rightarrow> (0, st2)))))"

subsection \<open>\<open>cleanup\<close>\<close>

record cleanupArgs =
  caKeep :: bool
  caDelete :: bool
  caAll :: bool

definition cleanupFlags :: "(string \<times> cleanupArgs flagVar) list" where
  "cleanupFlags =
     [(''keep-data'', BoolVar (\<lambda>b. caKeep_update (\<lambda>_. b))), (''k'', BoolVar (\<lambda>b. caKeep_update (\<lambda>_. b))),
      (''delete-data'', BoolVar (\<lambda>b. caDelete_update (\<lambda>_. b))), (''d'', BoolVar (\<lambda>b. caDelete_update (\<lambda>_. b))),
      (''all'', BoolVar (\<lambda>b. caAll_update (\<lambda>_. b)))]"

definition noCleanupArgs :: cleanupArgs where
  "noCleanupArgs = \<lparr>caKeep = False, caDelete = False, caAll = False\<rparr>"

definition cleanupOptions :: "cleanupArgs \<Rightarrow> Config \<Rightarrow> CleanupOptions" where
  "cleanupOptions a cfg =
     \<lparr>coDeleteData = caDelete a, coAll = caAll a, coNetwork = cfgNetwork cfg, coSocket = cfgSocket cfg,
      coStateDir = cfgStateDir cfg, coDefaultImage = cfgDefaultImage cfg, coSupervisorImage = cfgSupervisorImage cfg\<rparr>"

definition runCleanup :: "'w hostenv \<Rightarrow> caller \<Rightarrow> string list \<Rightarrow> 'w Host \<Rightarrow> nat \<times> 'w Host" where
  "runCleanup ev ca args st =
     (case parseFlagSet cleanupFlags args noCleanupArgs of
        Inl e \<Rightarrow> (2, st)
      | Inr a \<Rightarrow>
          (if caKeep a \<and> caDelete a then (2, st)
           else (case cliDefaults ev st of
                   Inl e \<Rightarrow> (1, st)
                 | Inr cfg0 \<Rightarrow>
                     (let (cfg, st1) = resolveImage ev cfg0 st
                      in case newFor ev ca of
                           Inl e \<Rightarrow> (1, st1)
                         | Inr s \<Rightarrow>
                             (case Cleanup ev s (cleanupOptions a cfg) st1 of
                                (Some e, st2) \<Rightarrow> (1, st2)
                              | (None, st2) \<Rightarrow> (0, st2))))))"

definition runUninstall :: "'w hostenv \<Rightarrow> caller \<Rightarrow> string list \<Rightarrow> 'w Host \<Rightarrow> nat \<times> 'w Host" where
  "runUninstall ev ca args st = runCleanup ev ca args st"

subsection \<open>\<open>status\<close>\<close>

text \<open>An exit code, or a Go panic.\<close>

datatype outcome = ExitCode nat | Panics

text \<open>What \<open>status\<close> prints: the report, as JSON or as lines.\<close>

datatype statusReport = NoReport | JSONReport string string "Check list" | LinesReport string "Check list"

definition statusFlags :: "(string \<times> bool flagVar) list" where
  "statusFlags = [(''json'', BoolVar (\<lambda>b _. b))]"

definition statusOptions :: "string \<Rightarrow> Config \<Rightarrow> StatusOptions" where
  "statusOptions version cfg =
     \<lparr>soNetwork = cfgNetwork cfg, soSocket = cfgSocket cfg, soTLSDir = [], soSupervisorImage = cfgSupervisorImage cfg,
      soDriverVersion = version\<rparr>"

definition runStatus ::
  "'w hostenv \<Rightarrow> 'w driverClient \<Rightarrow> caller \<Rightarrow> string \<Rightarrow> string list \<Rightarrow> 'w Host
     \<Rightarrow> outcome \<times> statusReport \<times> 'w Host" where
  "runStatus ev cl ca version args st =
     (case parseFlagSet statusFlags args False of
        Inl e \<Rightarrow> (ExitCode 2, NoReport, st)
      | Inr asJSON \<Rightarrow>
          (case cliDefaults ev st of
             Inl e \<Rightarrow> (ExitCode 1, NoReport, st)
           | Inr cfg0 \<Rightarrow>
               (let (cfg, st1) = resolveImage ev cfg0 st
                in case newFor ev ca of
                     Inl e \<Rightarrow> (ExitCode 1, NoReport, st1)
                   | Inr s \<Rightarrow>
                       (case Status ev cl s (hoClock st1 + 30000) (statusOptions version cfg) st1 of
                          (None, st2) \<Rightarrow> (Panics, NoReport, st2)
                        | (Some cs, st2) \<Rightarrow>
                            (ExitCode (if Worst cs = ''fail'' then 1 else 0),
                             (if asJSON then JSONReport version (Worst cs) cs else LinesReport version cs), st2)))))"

text \<open>
  The JSON report as it is printed; \<open>render\<close> turns a detail into its text. The list of checks
  is never empty.
\<close>

definition checkJSON :: "(err \<Rightarrow> string) \<Rightarrow> Check \<Rightarrow> JValue" where
  "checkJSON render k =
     JObj [(''name'', JStr (ckName k)), (''level'', JStr (ckLevel k)), (''detail'', JStr (render (ckDetail k)))]"

definition reportJSON :: "(err \<Rightarrow> string) \<Rightarrow> string \<Rightarrow> string \<Rightarrow> Check list \<Rightarrow> JValue" where
  "reportJSON render version status cs =
     JObj [(''driver_version'', JStr version), (''status'', JStr status), (''checks'', JList (map (checkJSON render) cs))]"

definition reportText :: "(err \<Rightarrow> string) \<Rightarrow> statusReport \<Rightarrow> string" where
  "reportText render r =
     (case r of
        NoReport \<Rightarrow> []
      | JSONReport version status cs \<Rightarrow> indentJSON (reportJSON render version status cs) @ [CHR 0x0A]
      | LinesReport version cs \<Rightarrow>
          ''openshell-driver-applecontainer '' @ version @ [CHR 0x0A, CHR 0x0A] @ PrintChecks render cs)"

subsection \<open>\<open>logs\<close>\<close>

definition newline :: char where "newline = CHR 0x0A"

definition logWindow :: nat where "logWindow = 1048576"

text \<open>What is printed of the pieces: nothing for none, and nothing for a single empty one.\<close>

definition tailOut :: "string list \<Rightarrow> string" where
  "tailOut parts = (if length parts > 1 \<or> (length parts = 1 \<and> hd parts \<noteq> []) then joinWith [newline] parts @ [newline] else [])"

text \<open>The lines of the last part of a file; its first one there is probably cut in half.\<close>

definition tailParts :: "string \<Rightarrow> string list" where
  "tailParts f =
     (let start = length f - logWindow;
          parts = splitOn newline (TrimRightSet (drop start f) [newline])
      in if start > 0 then tl parts else parts)"

text \<open>
  What is printed of a file, and its size. \<open>None\<close> is the panic of a slice whose low bound is
  above its length.
\<close>

definition tailLines :: "string \<Rightarrow> int \<Rightarrow> (string \<times> nat) option" where
  "tailLines f n =
     (let parts = tailParts f
      in if int (length parts) \<le> n then Some (tailOut parts, length f)
         else if n < 0 then None
         else Some (tailOut (drop (length parts - nat n) parts), length f))"

text \<open>One turn of the follower: what is printed, and the new offset.\<close>

definition followStep :: "string \<Rightarrow> nat \<Rightarrow> string \<times> nat" where
  "followStep f offset = (let off = (if length f < offset then 0 else offset) in (drop off f, length f))"

fun followRun :: "string list \<Rightarrow> nat \<Rightarrow> string" where
  "followRun [] offset = []"
| "followRun (f # fs) offset = (case followStep f offset of (out, offset') \<Rightarrow> out @ followRun fs offset')"

record logsArgs =
  laLines :: int
  laFollow :: bool

definition logsFlags :: "(string \<times> logsArgs flagVar) list" where
  "logsFlags = [(''n'', IntVar (\<lambda>i. laLines_update (\<lambda>_. i))), (''f'', BoolVar (\<lambda>b. laFollow_update (\<lambda>_. b)))]"

definition logsDefaults :: logsArgs where "logsDefaults = \<lparr>laLines = 50, laFollow = False\<rparr>"

definition DriverLogPath :: "procenv \<Rightarrow> string option" where
  "DriverLogPath env =
     (case UserHomeDir env of
        None \<Rightarrow> None
      | Some home \<Rightarrow>
          Some (agentLogPath \<lparr>stHome = home, stUID = 0, stBinPath = [], stHasOpenShell = None, stACUninstaller = [],
                  stOpenShellVarDir = [], stReadyTimeout = 0\<rparr>))"

text \<open>\<open>LogsFollow\<close>: the follower goes on from that offset.\<close>

datatype logsResult = LogsExit nat string | LogsPanic | LogsFollow string nat

definition runLogs :: "'w hostenv \<Rightarrow> string list \<Rightarrow> 'w Host \<Rightarrow> logsResult" where
  "runLogs ev args st =
     (case parseFlagSet logsFlags args logsDefaults of
        Inl e \<Rightarrow> LogsExit 2 []
      | Inr a \<Rightarrow>
          (case DriverLogPath (heEnv ev) of
             None \<Rightarrow> LogsExit 1 []
           | Some path \<Rightarrow>
               (case readFile ev path st of
                  None \<Rightarrow> LogsExit 1 []
                | Some f \<Rightarrow>
                    (case tailLines f (laLines a) of
                       None \<Rightarrow> LogsPanic
                     | Some (out, offset) \<Rightarrow> if laFollow a then LogsFollow out offset else LogsExit 0 out))))"

subsection \<open>\<open>update\<close>\<close>

definition updateFlags :: "(string \<times> UpdateOptions flagVar) list" where
  "updateFlags =
     [(''version'', StrVar (\<lambda>v. upVersion_update (\<lambda>_. v))), (''no-setup'', BoolVar (\<lambda>b. upNoSetup_update (\<lambda>_. b))),
      (''all'', BoolVar (\<lambda>b. upAll_update (\<lambda>_. b))), (''openshell-version'', StrVar (\<lambda>v. upOpenShell_update (\<lambda>_. v))),
      (''container-version'', StrVar (\<lambda>v. upContainer_update (\<lambda>_. v)))]"

definition updateDefaults :: UpdateOptions where
  "updateDefaults = \<lparr>upVersion = [], upNoSetup = False, upAll = False, upOpenShell = [], upContainer = []\<rparr>"

definition updateCommand ::
  "'w hostenv \<Rightarrow> 'w netenv \<Rightarrow> caller \<Rightarrow> string \<Rightarrow> string list \<Rightarrow> 'w Host \<Rightarrow> nat \<times> 'w Host" where
  "updateCommand ev ne ca version args st =
     (case parseFlagSet updateFlags args updateDefaults of
        Inl e \<Rightarrow> (2, st)
      | Inr opts \<Rightarrow> runUpdate ev ne (caExe ca) (caLinks ca) version opts st)"

subsection \<open>\<open>main\<close>\<close>

text \<open>What the first argument selects; \<open>Serve\<close> is the driver itself, with all arguments.\<close>

datatype command =
    ShowVersion | SetupCommand "string list" | UpdateCommand "string list" | CleanupCommand "string list"
  | UninstallCommand "string list" | StatusCommand "string list" | LogsCommand "string list" | ShowUsage
  | Serve "string list"

definition dispatch :: "string list \<Rightarrow> command" where
  "dispatch args =
     (case args of
        [] \<Rightarrow> Serve []
      | w # rest \<Rightarrow>
          (if w = ''--version'' \<or> w = ''version'' then ShowVersion
           else if w = ''setup'' then SetupCommand rest
           else if w = ''update'' then UpdateCommand rest
           else if w = ''cleanup'' then CleanupCommand rest
           else if w = ''uninstall'' then UninstallCommand rest
           else if w = ''status'' \<or> w = ''doctor'' then StatusCommand rest
           else if w = ''logs'' then LogsCommand rest
           else if w = ''help'' \<or> w = ''--help'' \<or> w = ''-h'' then ShowUsage
           else Serve args))"

text \<open>The least severity that is logged, in \<open>slog\<close>'s numbers.\<close>

definition newLogger :: "string \<Rightarrow> int" where
  "newLogger level =
     (if level = ''debug'' then -4 else if level = ''warn'' then 4 else if level = ''error'' then 8 else 0)"

subsection \<open>The flag loop is the driver's own\<close>

text \<open>The driver's command line, as flags of this kind.\<close>

definition driverVars :: "(string \<times> Flags flagVar) list" where
  "driverVars =
     map (\<lambda>(n, g). (n, StrVar (\<lambda>v fl. fl\<lparr>flCfg := g v (flCfg fl), flSet := n # flSet fl\<rparr>))) stringFlags
     @ map (\<lambda>(n, g). (n, IntVar (\<lambda>i fl. fl\<lparr>flCfg := g i (flCfg fl), flSet := n # flSet fl\<rparr>))) intFlags
     @ [(''allowed-networks'', StrVar (\<lambda>v fl. fl\<lparr>flAllowed := v, flSet := ''allowed-networks'' # flSet fl\<rparr>)),
        (boolFlag, BoolVar (\<lambda>b fl. fl\<lparr>flCfg := (flCfg fl)\<lparr>cfgAllowHostMounts := b\<rparr>, flSet := boolFlag # flSet fl\<rparr>))]"

lemma map_of_named: "map_of (map (\<lambda>(n, g). (n, F n g)) xs) n = map_option (F n) (map_of xs n)"
  by (induction xs) auto

lemma driverVars_at:
  "map_of driverVars n =
     (case map_of stringFlags n of
        Some g \<Rightarrow> Some (StrVar (\<lambda>v fl. fl\<lparr>flCfg := g v (flCfg fl), flSet := n # flSet fl\<rparr>))
      | None \<Rightarrow>
          (case map_of intFlags n of
             Some g \<Rightarrow> Some (IntVar (\<lambda>i fl. fl\<lparr>flCfg := g i (flCfg fl), flSet := n # flSet fl\<rparr>))
           | None \<Rightarrow>
               (if n = ''allowed-networks'' then Some (StrVar (\<lambda>v fl. fl\<lparr>flAllowed := v, flSet := n # flSet fl\<rparr>))
                else if n = boolFlag
                then Some (BoolVar (\<lambda>b fl. fl\<lparr>flCfg := (flCfg fl)\<lparr>cfgAllowHostMounts := b\<rparr>, flSet := n # flSet fl\<rparr>))
                else None)))"
  by (simp add: driverVars_def map_of_append map_add_def map_of_named boolFlag_def split: option.split)

lemma flagVars_known: "knownFlag n \<longleftrightarrow> map_of driverVars n \<noteq> None"
proof -
  have m: "(map_of xs n = None) = (n \<notin> fst ` set xs)" for xs :: "(string \<times> 'b) list" by (rule map_of_eq_None_iff)
  have i: "(map_of intFlags n = None) = (n \<notin> fst ` set intFlags)" by (rule map_of_eq_None_iff)
  show ?thesis using m [of stringFlags] i by (simp add: knownFlag_def driverVars_at split: option.split)
qed

lemma flagVars_set:
  assumes "map_of driverVars n = Some var"
  shows "isBoolVar var = (n = boolFlag)" "setVar var v fl = setFlag n v fl"
proof -
  have b: "map_of stringFlags boolFlag = None" "map_of intFlags boolFlag = None" "boolFlag \<noteq> ''allowed-networks''"
    by (simp_all add: stringFlags_def intFlags_def boolFlag_def)
  show "isBoolVar var = (n = boolFlag)"
    using assms b by (auto simp: driverVars_at split: option.splits if_splits)
  show "setVar var v fl = setFlag n v fl"
    using assms b by (auto simp: driverVars_at setFlag_def option.map_comp comp_def split: option.splits if_splits)
qed

lemma parseFlags_is_general: "parseFlags args fl = parseFlagSet driverVars args fl"
proof (induction args arbitrary: fl rule: length_induct)
  case (1 args)
  show ?case
  proof (cases args)
    case (Cons s rest)
    obtain name0 where n0: "(if s ! 1 = CHR ''-'' then drop 2 s else drop 1 s) = name0" by blast
    obtain name val where sp: "splitEq name0 = (name, val)" by fastforce
    have ih: "parseFlags rest fl' = parseFlagSet driverVars rest fl'"
      "parseFlags (tl rest) fl' = parseFlagSet driverVars (tl rest) fl'" for fl'
      using 1 Cons by simp_all
    have tl: "parseFlags r fl' = parseFlagSet driverVars r fl'" if "rest = v # r" for v r fl'
      using ih(2) that by simp
    show ?thesis
    proof (cases "map_of driverVars name")
      case None
      then show ?thesis
        unfolding Cons parseFlags.simps(2) parseFlagSet.simps(2) Let_def n0 sp prod.case
        using flagVars_known [of name] by simp
    next
      case (Some var)
      then show ?thesis
        unfolding Cons parseFlags.simps(2) parseFlagSet.simps(2) Let_def n0 sp prod.case
        using flagVars_known [of name] flagVars_set [OF Some] ih(1)
        by (simp add: tl split: option.split list.split)
    qed
  qed simp
qed


subsection \<open>\<open>logs\<close> prints the end of the log\<close>

definition unlines :: "string list \<Rightarrow> string" where
  "unlines ls = concat (map (\<lambda>l. l @ [newline]) ls)"

definition lastLines :: "int \<Rightarrow> string list \<Rightarrow> string list" where
  "lastLines n ls = drop (length ls - nat n) ls"

lemma unlines_append: "unlines (xs @ ys) = unlines xs @ unlines ys"
  by (simp add: unlines_def)

lemma unlines_joinWith: "ls \<noteq> [] \<Longrightarrow> unlines ls = joinWith [newline] ls @ [newline]"
proof (induction ls)
  case (Cons l ls)
  then show ?case by (cases ls) (simp_all add: unlines_def joinWith_Cons)
qed simp

lemma trim_last_line:
  assumes "\<forall>l \<in> set ls. newline \<notin> set l" and "ls \<noteq> []" and "last ls \<noteq> []"
  shows "TrimRightSet (q @ unlines ls) [newline] = q @ joinWith [newline] ls"
proof -
  obtain ks l where ls: "ls = ks @ [l]" using assms(2) by (metis append_butlast_last_id)
  have l: "l \<noteq> []" "newline \<notin> set l" using assms ls by auto
  then obtain k c where k: "l = k @ [c]" "c \<noteq> newline" by (metis append_butlast_last_id last_in_set)
  have "\<exists>u. joinWith [newline] ls = u @ [c]"
    using k(1) by (cases "ks = []") (auto simp: ls joinWith_append)
  then obtain u where u: "joinWith [newline] ls = u @ [c]" by blast
  show ?thesis using k(2) by (simp add: unlines_joinWith [OF assms(2)] u TrimRightSet_def)
qed

lemma unlines_end: "unlines ls = [] \<or> (\<exists>q. unlines ls = q @ [newline])"
  by (cases ls rule: rev_cases) (auto simp: unlines_def)

lemma unlines_eq_Nil: "unlines ls = [] \<longleftrightarrow> ls = []"
  by (simp add: unlines_def)

lemma tailOut_lines: "parts = [] \<or> last parts \<noteq> [] \<Longrightarrow> tailOut parts = unlines parts"
  using unlines_joinWith [of parts] by (cases parts; cases "tl parts") (auto simp: tailOut_def unlines_def)

lemma tailLines_eq:
  "0 \<le> n \<Longrightarrow> tailLines f n = Some (tailOut (lastLines n (tailParts f)), length f)"
  by (simp add: tailLines_def lastLines_def Let_def)

lemma logs_tail_core:
  assumes lines: "\<forall>l \<in> set ls. newline \<notin> set l" "ls \<noteq> []" "last ls \<noteq> []" and n: "0 \<le> n"
    and fits: "length (unlines ls) \<le> logWindow \<or> length (unlines (lastLines n ls)) < logWindow"
  shows "tailLines (unlines ls) n = Some (unlines (lastLines n ls), length (unlines ls))"
proof -
  let ?f = "unlines ls" and ?k = "length ls - nat n"
  let ?parts0 = "splitOn newline (TrimRightSet (drop (length ?f - logWindow) ?f) [newline])"
  have parts: "tailParts ?f = (if length ?f - logWindow > 0 then tl ?parts0 else ?parts0)"
    by (simp only: tailParts_def Let_def)
  have "lastLines n (tailParts ?f) = lastLines n ls"
  proof (cases "length ?f \<le> logWindow")
    case True
    then have "tailParts ?f = splitOn newline (joinWith [newline] ls)"
      using trim_last_line [OF lines, of "[]"] by (simp add: parts)
    also have "\<dots> = ls" using splitOn_joinWith lines(1,2) by metis
    finally show ?thesis by simp
  next
    case False
    then have fits: "length (unlines (drop ?k ls)) < logWindow" using fits by (simp add: lastLines_def)
    show ?thesis
    proof (cases "drop ?k ls = []")
      case True
      then have "nat n = 0" using lines(2) by (cases "nat n") (auto simp: length_greater_0_conv [symmetric] simp del: length_greater_0_conv)
      then show ?thesis by (simp add: lastLines_def)
    next
      case ne: False
      have f: "?f = unlines (take ?k ls) @ unlines (drop ?k ls)" by (simp flip: unlines_append)
      define p where "p = drop (length ?f - logWindow) (unlines (take ?k ls))"
      have w: "drop (length ?f - logWindow) ?f = p @ unlines (drop ?k ls)"
        using fits by (subst f) (simp add: p_def f)
      have "length ?f = length (unlines (take ?k ls)) + length (unlines (drop ?k ls))" by (subst f) simp
      then have "length ?f - logWindow < length (unlines (take ?k ls))" using fits False by arith
      then have "p \<noteq> []" by (simp add: p_def)
      moreover have "\<exists>q. p = q @ [newline]" if "p \<noteq> []"
        using that unlines_end [of "take ?k ls"] by (auto simp: p_def)
      ultimately obtain q where p: "p = q @ [newline]" by blast
      have d: "\<forall>l \<in> set (drop ?k ls). newline \<notin> set l" "last (drop ?k ls) \<noteq> []"
        using lines ne by (auto dest: in_set_dropD)
      have "?parts0 = splitOn newline (q @ newline # joinWith [newline] (drop ?k ls))"
        unfolding w p using trim_last_line [OF d(1) ne d(2), of "q @ [newline]"] by simp
      also have "\<dots> = splitOn newline q @ drop ?k ls"
        using splitOn_joinWith [OF ne] d(1) by (simp add: splitOn_append_sep)
      finally have "tailParts ?f = tl (splitOn newline q) @ drop ?k ls" using False by (simp add: parts)
      moreover have "length (drop ?k ls) = nat n \<or> ?k = 0" by auto
      moreover have "?k \<noteq> 0" using fits False by (intro notI) simp
      ultimately show ?thesis by (simp add: lastLines_def)
    qed
  qed
  moreover have "lastLines n ls = [] \<or> last (lastLines n ls) \<noteq> []"
    using lines(3) by (auto simp: lastLines_def last_drop)
  ultimately show ?thesis using tailLines_eq [OF n, of ?f] tailOut_lines by simp
qed


text \<open>
  C37. \<open>logs\<close> prints the last lines of the log, as many as asked for and no other, and the
  follower starts at the end of what was there: the file consists of full lines, the last of
  them not empty, and is at most a mebibyte long, or at least the lines asked for are shorter.
\<close>

theorem logs_prints_tail:
  assumes flags: "parseFlagSet logsFlags args logsDefaults = Inr a" and n: "0 \<le> laLines a"
    and path: "DriverLogPath (heEnv ev) = Some path" and log: "readFile ev path st = Some (unlines ls)"
    and lines: "\<forall>l \<in> set ls. newline \<notin> set l" "ls \<noteq> []" "last ls \<noteq> []"
    and fits: "length (unlines ls) \<le> logWindow \<or> length (unlines (lastLines (laLines a) ls)) < logWindow"
  shows "runLogs ev args st =
    (if laFollow a then LogsFollow (unlines (lastLines (laLines a) ls)) (length (unlines ls))
     else LogsExit 0 (unlines (lastLines (laLines a) ls)))"
  using logs_tail_core [OF lines n fits] by (simp add: runLogs_def flags path log)

text \<open>The contents a file goes through as chunks are appended to it.\<close>

fun appends :: "string \<Rightarrow> string list \<Rightarrow> string list" where
  "appends f [] = []"
| "appends f (c # cs) = (f @ c) # appends (f @ c) cs"

text \<open>
  Following a log that only grows prints every appended byte once and in order, however the
  appends fall between the turns of the follower.
\<close>

theorem logs_follow_complete: "followRun (appends f cs) (length f) = concat cs"
proof (induction cs arbitrary: f)
  case (Cons c cs)
  show ?case using Cons.IH [of "f @ c"] by (simp add: followStep_def)
qed simp

text \<open>A negative number of lines makes \<open>logs\<close> panic, whatever the log holds.\<close>

theorem logs_negative_panics:
  assumes "parseFlagSet logsFlags args logsDefaults = Inr a" and "laLines a < 0"
    and "DriverLogPath (heEnv ev) = Some path" and "readFile ev path st = Some f"
  shows "runLogs ev args st = LogsPanic"
  using assms by (simp add: runLogs_def tailLines_def Let_def)

subsection \<open>Exit codes\<close>

text \<open>
  The exit code of \<open>status\<close> tells a script what the report says: it is 0 exactly when no line
  of the report is a failure (a warning is none), and the JSON report carries the worst level.
\<close>

theorem status_exit_code:
  assumes "runStatus ev cl ca version args st = (ExitCode c, r, st')" and "r \<noteq> NoReport"
  shows "\<exists>cs. (r = LinesReport version cs \<or> r = JSONReport version (Worst cs) cs)
    \<and> (c = 0) = (\<forall>k \<in> set cs. ckLevel k \<noteq> ''fail'') \<and> c \<le> 1"
  using assms by (auto simp: runStatus_def Worst_eq split: sum.splits prod.splits option.splits if_splits)

text \<open>
  A script that reads the JSON finds the report as it was made, and its exit code in it.
\<close>

theorem status_json_read_back:
  assumes "runStatus ev cl ca version args st = (ExitCode c, JSONReport v w cs, st')"
  shows "parseJSON (reportText render (JSONReport v w cs)) = Some (asText (reportJSON render v w cs))
    \<and> (c = 1 \<longleftrightarrow> w = ''fail'')"
proof -
  have d: "fold max (map (jsonDepth \<circ> checkJSON render) cs) 0 \<le> 1"
    by (rule fold_max_le) (auto simp: checkJSON_def)
  have "jsonDepth (reportJSON render v w cs) \<le> maxNestingDepth"
    using d by (simp add: reportJSON_def maxNestingDepth_def)
  moreover have "encodable (reportJSON render v w cs)" by (simp add: reportJSON_def checkJSON_def list_all_iff)
  ultimately have "parseJSON (reportText render (JSONReport v w cs)) = Some (asText (reportJSON render v w cs))"
    using parse_indentJSON [of "reportJSON render v w cs" "[CHR 0x0A]"] by (simp add: reportText_def isJsonSpace_def)
  moreover have "c = 1 \<longleftrightarrow> w = ''fail''"
    using assms by (auto simp: runStatus_def split: sum.splits prod.splits option.splits if_splits)
  ultimately show ?thesis by blast
qed

subsection \<open>What \<open>cleanup\<close> is told\<close>


subsection \<open>\<open>setup\<close> and the service it installs\<close>

text \<open>The configuration of a process without the driver's variables and without arguments.\<close>

lemma plain_socket:
  assumes "\<forall>n. HasPrefix n envPrefix \<longrightarrow> aenv n = None" and "ConfigParse aenv ex [] = Inr c"
  shows "cfgSocket c = ''/tmp/oshl-ac/driver.sock''"
proof -
  have "aenv (envPrefix @ ''SOCKET'') = None" using assms(1) by (simp add: HasPrefix_append)
  then have "envOr aenv ''SOCKET'' d = d" for d by (simp add: envOr_def Getenv_def)
  then show ?thesis using assms(2) by (auto simp: ConfigParse_def finishConfig_def flagDefaults_def Let_def split: if_splits)
qed


subsection \<open>Words that are no command\<close>

text \<open>
  A first argument that is no command starts the driver, and the driver's parser stops at it
  without an error: a misspelt command runs the driver in the foreground with every flag after
  it ignored.
\<close>

theorem unknown_word_serves:
  assumes "w \<notin> {''version'', ''setup'', ''update'', ''cleanup'', ''uninstall'', ''status'', ''doctor'', ''logs'', ''help''}"
    and "\<not> HasPrefix w ''-''"
  shows "dispatch (w # args) = Serve (w # args) \<and> ConfigParse env ex (w # args) = ConfigParse env ex []"
proof -
  have "w \<noteq> ''--version''" "w \<noteq> ''--help''" "w \<noteq> ''-h''" "length w < 2 \<or> hd w \<noteq> CHR ''-''"
    using assms(2) by (auto simp: HasPrefix_def, cases w, auto)
  then show ?thesis using assms(1) by (auto simp: dispatch_def ConfigParse_def finishConfig_def)
qed

subsection \<open>Command lines\<close>

definition demoUser :: procenv where
  "demoUser = [''HOME'' \<mapsto> ''/u'']"

definition demoCaller :: caller where
  "demoCaller = \<lparr>caExe = Some ''/b/d'', caUid = 20, caLinks = Some\<rparr>"

definition demoNew :: Setup where
  "demoNew = \<lparr>stHome = ''/u'', stUID = 20, stBinPath = ''/b/d'', stHasOpenShell = None,
     stACUninstaller = ''/usr/local/bin/uninstall-container.sh'', stOpenShellVarDir = ''/opt/homebrew/var/openshell'',
     stReadyTimeout = 15000\<rparr>"

lemma demo_new: "newFor (demoEnvAt demoUser) demoCaller = Inr demoNew"
proof -
  have "HomebrewCask ''/b/d'' = None" by code_simp
  then show ?thesis
    by (simp add: newFor_def newSetup_def demoHostEnv_def demoUser_def demoCaller_def demoNew_def UserHomeDir_def Getenv_def
        resolveBinPath_def)
qed

lemma demo_keeps_at: "p \<noteq> ''/t/s'' \<Longrightarrow> keepsFile (demoEnvAt e) p"
  by (simp add: keepsFile_def demoHostEnv_def demoExec_def)

definition demoLog :: "Fake Host" where
  "demoLog = demoHost\<lparr>hoFs := [(''/u/Library/Logs/openshell-driver-applecontainer.log'',
     FileN 420 (Bytes (''a'' @ [newline] @ ''b'' @ [newline] @ ''c'' @ [newline])))]\<rparr>"

lemma demo_log:
  "DriverLogPath (heEnv (demoEnvAt demoUser)) = Some ''/u/Library/Logs/openshell-driver-applecontainer.log''"
  "readFile (demoEnvAt demoUser) ''/u/Library/Logs/openshell-driver-applecontainer.log'' demoLog = Some (unlines [''a'', ''b'', ''c''])"
  by (simp add: demoHostEnv_def, code_simp) (simp add: readFile_def demoLog_def unlines_def demoHostEnv_def)

theorem logs_prints_tail_witness:
  "runLogs (demoEnvAt demoUser) [''-n=2''] demoLog = LogsExit 0 (unlines [''b'', ''c''])"
proof -
  have f: "parseFlagSet logsFlags [''-n=2''] logsDefaults = Inr (logsDefaults\<lparr>laLines := 2\<rparr>)" by code_simp
  have l: "\<forall>l \<in> set [''a'', ''b'', ''c'']. newline \<notin> set l" "[''a'', ''b'', ''c''] \<noteq> []" "last [''a'', ''b'', ''c''] \<noteq> []"
    by (simp_all add: newline_def)
  have "length (unlines [''a'', ''b'', ''c'']) \<le> logWindow" by (simp add: unlines_def logWindow_def)
  then show ?thesis using logs_prints_tail [OF f _ demo_log l]
    by (simp add: logsDefaults_def lastLines_def numeral_2_eq_2)
qed

theorem logs_negative_panics_witness: "runLogs (demoEnvAt demoUser) [''-n'', ''-1''] demoLog = LogsPanic"
proof -
  have "parseFlagSet logsFlags [''-n'', ''-1''] logsDefaults = Inr (logsDefaults\<lparr>laLines := -1\<rparr>)" by code_simp
  from logs_negative_panics [OF this _ demo_log] show ?thesis by simp
qed


theorem unknown_word_serves_witness: "dispatch [''stauts'', ''--json''] = Serve [''stauts'', ''--json'']"
proof -
  have "\<not> HasPrefix ''stauts'' ''-''" by (simp add: HasPrefix_def)
  from unknown_word_serves [OF _ this] show ?thesis by simp
qed

text \<open>A setup with another socket than the default.\<close>

definition demoSetupArgs :: "string list" where
  "demoSetupArgs = [''--network=n'', ''--socket'', ''/t/s'', ''--tls-dir=/c'', ''--default-image=i'', ''--supervisor-image=v:1'']"

lemma demo_setup_args: "parseFlagSet setupFlags demoSetupArgs (setupDefaults ''1'' cfg) = Inr demoOptions"
proof -
  have "parseFlagSet setupFlags demoSetupArgs \<lparr>opNetwork = a, opSocket = b, opTLSDir = c, opDefaultImage = d,
      opSupervisorImage = e, opPullImages = True, opDriverVersion = ''1''\<rparr> = Inr demoOptions" for a b c d e
    by code_simp
  then show ?thesis by (simp only: setupDefaults_def)
qed

lemma demo_defaults:
  obtains cfg0 where "cliDefaults (demoEnvAt demoUser) demoHost = Inr cfg0" "\<not> cfgSupervisorImageExplicit cfg0"
proof -
  have "case cliDefaults (demoEnvAt demoUser) demoHost of Inl e \<Rightarrow> False | Inr c \<Rightarrow> \<not> cfgSupervisorImageExplicit c"
    unfolding demoHostEnv_def by code_simp
  then show ?thesis using that by (auto split: sum.splits)
qed

lemma demo_resolve:
  "\<not> cfgSupervisorImageExplicit cfg0 \<Longrightarrow> snd (resolveImage (demoEnvAt e) cfg0 demoHost)
     = demoHost\<lparr>hoClock := 5, hoTrace := [(''openshell-gateway'', [''--version''])]\<rparr>"
  by (simp add: resolveImage_def runCmd_def demoHostEnv_def demoExec_def demoHost_def)

lemma demo_prefix_user:
  "demoPlistFails demoUser demoNew 1800005 (demoHost\<lparr>hoClock := 5, hoTrace := [(''openshell-gateway'', [''--version''])]\<rparr>) = None"
  unfolding demoPlistFails_def demoHostEnv_def by code_simp


theorem status_exit_code_witness:
  "\<exists>c cs st'. runStatus (demoEnvAt demoUser) demoClient demoCaller ''1'' [] demoHost = (ExitCode c, LinesReport ''1'' cs, st')
     \<and> c \<le> 1 \<and> (c = 0) = (\<forall>k \<in> set cs. ckLevel k \<noteq> ''fail'')"
proof -
  have "case runStatus (demoEnvAt demoUser) demoClient demoCaller ''1'' [] demoHost of
      (ExitCode c, LinesReport v cs, st') \<Rightarrow> v = ''1'' | _ \<Rightarrow> False"
    unfolding demoHostEnv_def by code_simp
  then obtain c cs st' where r: "runStatus (demoEnvAt demoUser) demoClient demoCaller ''1'' [] demoHost
      = (ExitCode c, LinesReport ''1'' cs, st')"
    by (auto split: prod.splits outcome.splits statusReport.splits)
  from status_exit_code [OF r] r show ?thesis by auto
qed

end
