(* ===== verification/Listings.thy ===== *)
theory Listings
  imports Backend JsonAny
begin

section \<open>The listings of the command line, read back\<close>

text \<open>
  The driver knows its sandboxes' VMs only through \<open>container ls --format json\<close>. Here the
  decoder of that listing is run on what the command prints for a set of containers: the
  containers come back, whatever unknown members the objects carry and however the text is
  laid out. \<open>containerJSON\<close> is the shape of the listing, from the tags of \<open>lsEntry\<close> and the
  captures in \<open>cli_test.go\<close>; it is a specification, not code of the driver.
\<close>

subsection \<open>The shape of the listing\<close>

definition attachmentJSON :: "NetworkAttachment \<Rightarrow> JValue" where
  "attachmentJSON n = JObj
     [(''network'', JStr (naNetwork n)), (''hostname'', JStr (naHostname n)),
      (''ipv4Address'', JStr (naIPv4Address n)), (''ipv4Gateway'', JStr (naIPv4Gateway n))]"

definition strMapJSON :: "strmap \<Rightarrow> JValue" where
  "strMapJSON m = JObj (map (\<lambda>(k, v). (k, JStr v)) m)"

text \<open>\<open>ex\<close> are the members of the entry and its two large objects the driver does not know.\<close>

definition containerJSON :: "Struct \<Rightarrow> Container \<Rightarrow> JValue" where
  "containerJSON ex c = JObj
     ([(''id'', JStr (cID c)),
       (''status'', JObj
          ([(''state'', JStr (cState c)), (''startedDate'', JStr (cStartedAt c)),
            (''networks'', JList (map attachmentJSON (cNetworks c)))] @ ex)),
       (''configuration'', JObj
          ([(''creationDate'', JStr (cCreatedAt c)),
            (''image'', JObj
               [(''reference'', JStr (cImageRef c)),
                (''descriptor'', JObj [(''digest'', JStr (cImageDigest c))])]),
            (''labels'', strMapJSON (cLabels c)),
            (''resources'', JObj
               [(''cpus'', JNum (intString (cCPUs c))),
                (''memoryInBytes'', JNum (intString (cMemoryBytes c)))])] @ ex))] @ ex)"

definition listingJSON :: "Struct \<Rightarrow> Container list \<Rightarrow> JValue" where
  "listingJSON ex cs = JList (map (containerJSON ex) cs)"

subsection \<open>Integers\<close>

definition isInt64 :: "int \<Rightarrow> bool" where
  "isInt64 i \<longleftrightarrow> - (2 ^ 63) \<le> i \<and> i < 2 ^ 63"

lemma Atoi_intString: "isInt64 i \<Longrightarrow> Atoi (intString i) = Some i"
  using Atoi_natString [of "nat i"]
  by (cases "i < 0") (auto simp: isInt64_def intString_def Atoi_def nat_less_iff)

subsection \<open>Members of an object\<close>

lemma decodeMembers_append:
  "decodeMembers ts os (fs @ gs) = (case decodeMembers ts os fs of None \<Rightarrow> None | Some os' \<Rightarrow> decodeMembers ts os' gs)"
  by (induction fs arbitrary: os) (auto split: option.splits prod.splits)

lemma decodeMembers_unknown:
  "list_all (\<lambda>p. foldKey (fst p) \<notin> foldKey ` fst ` set ts) gs \<Longrightarrow> decodeMembers ts os gs = Some os"
proof (induction gs)
  case (Cons p gs)
  obtain k v where p: "p = (k, v)" by fastforce
  have "List.find (\<lambda>p. fst p = k) ts = None" "List.find (\<lambda>p. foldKey (fst p) = foldKey k) ts = None"
    unfolding find_None_iff using Cons.prems p by (auto simp: image_iff)
  then have "fieldFor ts k = None" by (simp add: fieldFor_def)
  then show ?case using Cons by (simp add: p)
qed simp

lemma fieldFor_exact: "List.find (\<lambda>p. fst p = k) ts = Some p \<Longrightarrow> fieldFor ts k = Some p"
  by (simp add: fieldFor_def)

text \<open>The elements of a fresh slice.\<close>

lemma decodeElems_fresh:
  "(\<And>x. x \<in> set xs \<Longrightarrow> decodeValue t (zeroValue t) (f x) = Some (g x)) \<Longrightarrow>
     decodeElems t [] (map f xs) = Some (map g xs)"
  by (induction xs) simp_all

lemma decodeValue_slice:
  assumes "\<And>x. x \<in> set xs \<Longrightarrow> decodeValue t (zeroValue t) (f x) = Some (g x)"
  shows "decodeValue (GTSlice t) (VSlice [] []) (JList (map f xs)) = Some (VSlice (map g xs) [])"
  using decodeElems_fresh [of xs t f g, OF assms] by (cases xs) (simp_all del: decodeElems.simps)

subsection \<open>One entry\<close>

definition attachmentVal :: "NetworkAttachment \<Rightarrow> goval" where
  "attachmentVal n = VStruct
     [(''network'', VString (naNetwork n)), (''hostname'', VString (naHostname n)),
      (''ipv4Address'', VString (naIPv4Address n)), (''ipv4Gateway'', VString (naIPv4Gateway n))]"

lemma decode_attachment: "decodeValue lsNetworkType (zeroValue lsNetworkType) (attachmentJSON n) = Some (attachmentVal n)"
  by (simp add: lsNetworkType_def attachmentJSON_def attachmentVal_def fieldFor_exact getField_def setField_def)

definition containerVal :: "Container \<Rightarrow> goval" where
  "containerVal c = VStruct
     [(''id'', VString (cID c)),
      (''status'', VStruct
         [(''state'', VString (cState c)), (''startedDate'', VString (cStartedAt c)),
          (''networks'', VSlice (map attachmentVal (cNetworks c)) [])]),
      (''configuration'', VStruct
         [(''creationDate'', VString (cCreatedAt c)),
          (''image'', VStruct
             [(''reference'', VString (cImageRef c)), (''descriptor'', VStruct [(''digest'', VString (cImageDigest c))])]),
          (''labels'', VStrMap (cLabels c)),
          (''resources'', VStruct [(''cpus'', VInt (cCPUs c)), (''memoryInBytes'', VInt (cMemoryBytes c))])])]"

lemma toContainer_containerVal: "toContainer (lsEntryOf (containerVal c)) = c"
proof -
  have "map (\<lambda>x. \<lparr>naNetwork = naNetwork x, naHostname = naHostname x, naIPv4Address = naIPv4Address x,
      naIPv4Gateway = naIPv4Gateway x\<rparr>) ns = ns" for ns
    by (rule map_idI) simp
  then show ?thesis
    by (simp add: containerVal_def lsEntryOf_def toContainer_def getField_def attachmentVal_def lsNetworkOf_def comp_def)
qed

text \<open>The tags of the entry and its two objects, folded.\<close>

definition entryKeys :: "string list" where
  "entryKeys = [''id'', ''status'', ''configuration'', ''state'', ''startedDate'', ''networks'', ''creationDate'',
     ''image'', ''labels'', ''resources'']"

text \<open>A container the listing can show: its texts are UTF-8, its numbers fit, its labels are a map.\<close>

definition listable :: "Container \<Rightarrow> bool" where
  "listable c \<longleftrightarrow>
     list_all (\<lambda>s. validUTF8 s = s) [cID c, cState c, cImageRef c, cImageDigest c, cCreatedAt c, cStartedAt c]
     \<and> list_all (\<lambda>(k, v). validUTF8 k = k \<and> validUTF8 v = v) (cLabels c)
     \<and> list_all (\<lambda>n. list_all (\<lambda>s. validUTF8 s = s)
          [naNetwork n, naHostname n, naIPv4Address n, naIPv4Gateway n]) (cNetworks c)
     \<and> distinct (map fst (cLabels c)) \<and> isInt64 (cCPUs c) \<and> isInt64 (cMemoryBytes c)"

definition unknownMembers :: "Struct \<Rightarrow> bool" where
  "unknownMembers ex \<longleftrightarrow>
     list_all (\<lambda>(k, v). foldKey (validUTF8 k) \<notin> foldKey ` set entryKeys \<and> encodable v \<and> jsonDepth v < 9000) ex"

lemma decode_container:
  assumes "listable c" and ex: "list_all (\<lambda>p. foldKey (fst p) \<notin> foldKey ` set entryKeys) ex"
  shows "decodeValue lsEntryType (zeroValue lsEntryType) (containerJSON ex c) = Some (containerVal c)"
proof -
  have sub: "decodeMembers ts os ex = Some os" if "set (map fst ts) \<subseteq> set entryKeys" for ts os
    using ex that by (intro decodeMembers_unknown) (fastforce simp: list_all_iff)
  have ids: "Atoi (intString (cCPUs c)) = Some (cCPUs c)" "Atoi (intString (cMemoryBytes c)) = Some (cMemoryBytes c)"
    and labels: "decodeStrMap [] (map (\<lambda>(k, v). (k, JStr v)) (cLabels c)) = Some (cLabels c)"
    using assms(1) decodeStrMap_pairs [of "[]" "cLabels c"] by (simp_all add: listable_def Atoi_intString)
  note slice = decodeValue_slice [of "cNetworks c" lsNetworkType attachmentJSON attachmentVal, OF decode_attachment]
  show ?thesis
    by (simp add: lsEntryType_def containerJSON_def containerVal_def strMapJSON_def decodeMembers_append
        fieldFor_exact getField_def setField_def ids labels slice sub entryKeys_def)
qed

subsection \<open>The whole listing\<close>

lemma asText_containerJSON:
  assumes "listable c"
  shows "asText (containerJSON ex c) = containerJSON (map (\<lambda>(k, v). (validUTF8 k, asText v)) ex) c"
proof -
  have keys: "validUTF8 k = k" if "k \<in> {''id'', ''status'', ''state'', ''startedDate'', ''networks'', ''configuration'',
      ''creationDate'', ''image'', ''reference'', ''descriptor'', ''digest'', ''labels'', ''resources'', ''cpus'',
      ''memoryInBytes'', ''network'', ''hostname'', ''ipv4Address'', ''ipv4Gateway''}" for k
    using that by (intro validUTF8_ascii) auto
  have l: "map (\<lambda>(k, v). (validUTF8 k, asText v)) (map (\<lambda>(k, v). (k, JStr v)) (cLabels c)) = map (\<lambda>(k, v). (k, JStr v)) (cLabels c)"
    and n: "map (\<lambda>n. asText (attachmentJSON n)) (cNetworks c) = map attachmentJSON (cNetworks c)"
    using assms by (auto simp: listable_def list_all_iff attachmentJSON_def keys)
  have "asText (strMapJSON (cLabels c)) = strMapJSON (cLabels c)"
    using l by (simp only: strMapJSON_def asText.simps)
  then show ?thesis using assms n
    by (simp add: containerJSON_def keys listable_def comp_def)
qed

lemma encodable_containerJSON: "unknownMembers ex \<Longrightarrow> encodable (containerJSON ex c)"
  by (auto simp: containerJSON_def strMapJSON_def attachmentJSON_def unknownMembers_def list_all_iff isNumber_intString)

lemma jsonDepth_containerJSON:
  assumes "unknownMembers ex"
  shows "jsonDepth (containerJSON ex c) \<le> 9002"
proof -
  have ex: "\<forall>p \<in> set ex. jsonDepth (snd p) \<le> 9000"
    using assms by (auto simp: unknownMembers_def list_all_iff)
  have n: "jsonDepth (JList (map attachmentJSON (cNetworks c))) \<le> Suc 1"
    by (rule depth_list) (auto simp: attachmentJSON_def)
  have m: "jsonDepth (strMapJSON (cLabels c)) \<le> Suc 0"
    unfolding strMapJSON_def by (rule depth_obj) auto
  have s: "jsonDepth (JObj ([(''state'', JStr (cState c)), (''startedDate'', JStr (cStartedAt c)),
      (''networks'', JList (map attachmentJSON (cNetworks c)))] @ ex)) \<le> Suc 9000"
    using n ex by (intro depth_obj) (auto simp del: jsonDepth.simps(1,2))
  have r: "jsonDepth (JObj ([(''creationDate'', JStr (cCreatedAt c)),
            (''image'', JObj
               [(''reference'', JStr (cImageRef c)),
                (''descriptor'', JObj [(''digest'', JStr (cImageDigest c))])]),
            (''labels'', strMapJSON (cLabels c)),
            (''resources'', JObj
               [(''cpus'', JNum (intString (cCPUs c))),
                (''memoryInBytes'', JNum (intString (cMemoryBytes c)))])] @ ex)) \<le> Suc 9000"
    using m ex by (intro depth_obj) auto
  have "jsonDepth (containerJSON ex c) \<le> Suc 9001"
    unfolding containerJSON_def using s r ex by (intro depth_obj) (auto simp del: jsonDepth.simps(1,2))
  then show ?thesis by simp
qed

text \<open>The listing's text, compact or indented, with the line break \<open>container\<close> ends it with.\<close>

definition listingText :: "Struct \<Rightarrow> Container list \<Rightarrow> string \<Rightarrow> bool" where
  "listingText ex cs t \<longleftrightarrow>
     t = encodeJSON (listingJSON ex cs) \<or> t = indentJSON (listingJSON ex cs) @ [CHR 0x0A]"

lemma parse_listing:
  assumes t: "listingText ex cs t" and ex: "unknownMembers ex" and cs: "list_all listable cs"
  shows "ParseContainerList t = Inr cs"
proof -
  let ?ex = "map (\<lambda>(k, v). (validUTF8 k, asText v)) ex"
  have e: "encodable (listingJSON ex cs)"
    using encodable_containerJSON [OF ex] by (simp add: listingJSON_def list_all_iff)
  have "jsonDepth (listingJSON ex cs) \<le> Suc 9002"
    unfolding listingJSON_def using jsonDepth_containerJSON [OF ex] by (intro depth_list) auto
  then have d: "jsonDepth (listingJSON ex cs) \<le> maxNestingDepth" by (simp add: maxNestingDepth_def)
  have "asText (listingJSON ex cs) = JList (map (containerJSON ?ex) cs)"
    using cs asText_containerJSON by (auto simp: listingJSON_def list_all_iff)
  moreover have "parseJSON t = Some (asText (listingJSON ex cs))"
    using t parse_encodeJSON [OF e d] parse_indentJSON [OF e d, of "[CHR 0x0A]"]
    by (auto simp: listingText_def isJsonSpace_def)
  moreover have "decodeValue (GTSlice lsEntryType) (VSlice [] []) (JList (map (containerJSON ?ex) cs))
      = Some (VSlice (map containerVal cs) [])"
  proof (rule decodeValue_slice)
    fix c assume "c \<in> set cs"
    then have "listable c" using cs by (simp add: list_all_iff)
    then show "decodeValue lsEntryType (zeroValue lsEntryType) (containerJSON ?ex c) = Some (containerVal c)"
      using ex by (intro decode_container) (auto simp: unknownMembers_def list_all_iff)
  qed
  ultimately show ?thesis
    by (simp add: ParseContainerList_def Unmarshal_def toContainer_containerVal comp_def)
qed


text \<open>A listing of one running container, with the members of a capture the driver ignores.\<close>

definition demoListed :: Container where
  "demoListed =
     \<lparr>cID = ''oshl-g05'', cState = ''running'', cImageRef = ''alpine:latest'', cImageDigest = ''sha256:28'',
      cLabels = [(''openshell.ai/sandbox-id'', ''g05'')],
      cNetworks = [\<lparr>naNetwork = ''oshl'', naHostname = ''h'', naIPv4Address = ''192.168.65.2/24'',
        naIPv4Gateway = ''192.168.65.1''\<rparr>],
      cCPUs = 4, cMemoryBytes = 1073741824, cCreatedAt = ''2026-07-31'', cStartedAt = []\<rparr>"

definition demoMembers :: Struct where
  "demoMembers = [(''mounts'', JList [JObj [(''ro'', JBool True)]]), (''exitCode'', JNull)]"

definition demoListCLI :: "unit CLI" where
  "demoListCLI =
     \<lparr>cliBin = ''container'',
      cliRunner = (\<lambda>ctx bin args w. ((indentJSON (listingJSON demoMembers [demoListed]) @ [CHR 0x0A], [], None), w)),
      cliCopied = (\<lambda>_ _. [])\<rparr>"


end
