(* ===== verification/CliContract.thy ===== *)
theory CliContract
  imports Listings
begin

section \<open>The command line keeps the interface's contract\<close>

text \<open>
  The driver that ships runs on \<open>cliRuntime\<close>. What its methods promise rests on what the
  \<open>container\<close> command does, and on how its output and its failures are read: here the
  command's documented behaviour is the locale \<open>honest_command\<close>, one law per command line
  the driver issues, and the methods are shown to turn it into the contract \<open>vm_runtime\<close>. A
  simulated command is an instance of it.
\<close>

subsection \<open>Failures\<close>

text \<open>What the error of a failed command says.\<close>

definition failureText :: "string \<Rightarrow> string \<Rightarrow> string" where
  "failureText stdout stderr = (if TrimSpace stderr = [] then TrimSpace stdout else TrimSpace stderr)"

lemma cliRun_ok: "cliRun c ctx args w = (Inr out, w') \<longleftrightarrow>
    (\<exists>se. cliRunner c ctx (cliBin c) args w = ((out, se, None), w'))"
  by (auto simp: cliRun_def Let_def split: prod.split option.split)

lemma cliRun_err:
  assumes "cliRun c ctx args w = (Inl e, w')"
  obtains out se x where "cliRunner c ctx (cliBin c) args w = ((out, se, Some x), w')"
    "isNotFoundErr e \<longleftrightarrow> isNotFound (failureText out se) \<or> isNotFoundErr x"
  using assms by (auto simp: cliRun_def failureText_def Let_def split: prod.splits option.splits if_splits)

lemma cliRun_runs: "cliRun c ctx args w = (r, w') \<Longrightarrow> \<exists>res. cliRunner c ctx (cliBin c) args w = (res, w')"
  by (auto simp: cliRun_def Let_def split: prod.splits option.splits)

lemma errOf_snd: "errOf p = (a, w') \<Longrightarrow> \<exists>res. p = (res, w')"
  and mapRes_snd: "mapRes f p = (b, w') \<Longrightarrow> \<exists>res. p = (res, w')"
  by (cases p; auto simp: errOf_def mapRes_def split: sum.splits)+

lemma errOf_None: "errOf r = (None, w') \<longleftrightarrow> (\<exists>x. r = (Inr x, w'))"
  and errOf_Some: "errOf r = (Some e, w') \<longleftrightarrow> r = (Inl e, w')"
  by (cases r; auto simp: errOf_def split: sum.split)+

lemma mapRes_Inr: "mapRes f r = (Inr y, w') \<longleftrightarrow> (\<exists>x. r = (Inr x, w') \<and> f x = Inr y)"
  by (cases r) (auto simp: mapRes_def split: sum.split)

lemma find_byName:
  assumes "distinct (map cID cs)" and "List.find (\<lambda>x. cID x = n) cs = Some y"
  shows "byName cs n = Some y"
proof -
  have y: "y \<in> set cs" "cID y = n" using assms(2) by (auto simp: find_Some_iff)
  have "distinct (map fst (rev (map (\<lambda>c. (cID c, c)) cs)))" using assms(1) by (simp add: rev_map [symmetric] comp_def)
  then show ?thesis using y unfolding byName_def by (intro map_of_is_SomeI) auto
qed

lemma byName_None: "byName cs n = None \<longleftrightarrow> n \<notin> cID ` set cs"
  by (auto simp: byName_def map_of_eq_None_iff image_iff)

subsection \<open>What the command does\<close>

text \<open>
  A command that works on one container leaves the others alone; a failed deletion speaks of a
  missing container only when there is none; inspections change nothing; and \<open>ls --all\<close>
  prints a listing of all containers, each once.
\<close>

locale honest_command =
  fixes c :: "'w CLI"
    and vms :: "'w \<Rightarrow> string \<Rightarrow> string option"
    and good :: "'w \<Rightarrow> bool"
  assumes cmd_good: "good w \<Longrightarrow> cliRunner c x (cliBin c) args w = (res, w') \<Longrightarrow> good w'"
    and cmd_error: "cliRunner c x (cliBin c) args w = ((out, se, Some y), w') \<Longrightarrow> \<not> isNotFoundErr y"
    and run_cmd: "good w \<Longrightarrow> cliRunner c x (cliBin c) (RunArgs sp) w = ((out, se, e), w') \<Longrightarrow>
           (e = None \<longrightarrow> vms w' (rsName sp) = Some ''running'')
           \<and> (\<forall>m. m \<noteq> rsName sp \<longrightarrow> vms w' m = vms w m)"
    and delete_cmd: "good w \<Longrightarrow> cliRunner c x (cliBin c) [''delete'', ''--force'', n] w = ((out, se, e), w') \<Longrightarrow>
           (e = None \<longrightarrow> vms w' n = None)
           \<and> (e \<noteq> None \<and> isNotFound (failureText out se) \<longrightarrow> vms w n = None \<and> vms w' n = None)
           \<and> (\<forall>m. m \<noteq> n \<longrightarrow> vms w' m = vms w m)"
    and stop_cmd: "good w \<Longrightarrow> cliRunner c x (cliBin c) [''stop'', ''--time'', stopGraceSeconds, n] w = ((out, se, e), w') \<Longrightarrow>
           (e = None \<longrightarrow> (\<exists>st. vms w' n = Some st \<and> st \<noteq> ''running''))
           \<and> (\<forall>m. m \<noteq> n \<longrightarrow> vms w' m = vms w m)"
    and start_cmd: "good w \<Longrightarrow> cliRunner c x (cliBin c) [''start'', n] w = ((out, se, e), w') \<Longrightarrow>
           (e = None \<longrightarrow> vms w' n = Some ''running'') \<and> (\<forall>m. m \<noteq> n \<longrightarrow> vms w' m = vms w m)"
    and read_cmd: "good w \<Longrightarrow> cliRunner c x (cliBin c) (a # as) w = (res, w') \<Longrightarrow>
           a \<in> {''ls'', ''image'', ''cp'', ''logs''} \<Longrightarrow> vms w' = vms w"
    and list_cmd: "good w \<Longrightarrow>
           cliRunner c x (cliBin c) [''ls'', ''--all'', ''--format'', ''json''] w = ((out, se, None), w') \<Longrightarrow>
           \<exists>ex cs. listingText ex cs out \<and> unknownMembers ex \<and> list_all listable cs \<and> distinct (map cID cs)
             \<and> (\<forall>n. vms w n = map_option cState (byName cs n))"
begin

lemma run_good_cli:
  assumes "good w" and "cliRun c x args w = (r, w')"
  shows "good w'"
  using cliRun_runs [OF assms(2)] cmd_good [OF assms(1)] by (elim exE)

lemma reads_cli:
  assumes "good w" and "cliRun c x (a # as) w = (r, w')" and "a \<in> {''ls'', ''image'', ''cp'', ''logs''}"
  shows "good w' \<and> vms w' = vms w"
  using assms read_cmd cmd_good cliRun_runs by metis

lemma lists_cli:
  assumes g: "good w" and l: "cliList c x True w = (Inr cs, w')"
  shows "distinct (map cID cs) \<and> vms w n = map_option cState (byName cs n)"
proof -
  obtain out where o: "cliRun c x [''ls'', ''--all'', ''--format'', ''json''] w = (Inr out, w')" "ParseContainerList out = Inr cs"
    using l by (auto simp: cliList_def mapRes_Inr)
  then obtain se where "cliRunner c x (cliBin c) [''ls'', ''--all'', ''--format'', ''json''] w = ((out, se, None), w')"
    by (auto simp: cliRun_ok)
  from list_cmd [OF g this] obtain ex cs' where cs': "listingText ex cs' out" "unknownMembers ex" "list_all listable cs'"
    "distinct (map cID cs')" "\<forall>n. vms w n = map_option cState (byName cs' n)" by blast
  have "cs' = cs" using parse_listing [OF cs'(1-3)] o(2) by simp
  then show ?thesis using cs' by simp
qed

text \<open>Each method, on what its command did.\<close>

lemma run_cli:
  assumes g: "good w" and r: "cliRunVM c x sp w = (rb, w')"
  shows "good w' \<and> (\<forall>i. rb = Inr i \<longrightarrow> vms w' = (vms w)(rsName sp \<mapsto> ''running''))
    \<and> (\<forall>m. m \<noteq> rsName sp \<longrightarrow> vms w' m = vms w m)"
proof -
  obtain res where c: "cliRun c x (RunArgs sp) w = (res, w')"
    using mapRes_snd [OF r [unfolded cliRunVM_def]] by (elim exE)
  obtain out se e where k: "cliRunner c x (cliBin c) (RunArgs sp) w = ((out, se, e), w')"
    using cliRun_runs [OF c] by (metis prod.collapse)
  note l = run_cmd [OF g k]
  have "vms w' = (vms w)(rsName sp \<mapsto> ''running'')" if i: "rb = Inr i" for i
  proof -
    have "e = None" using r i c k by (auto simp: cliRunVM_def mapRes_def cliRun_ok split: sum.splits)
    then show ?thesis using l by auto
  qed
  then show ?thesis using l run_good_cli [OF g c] by auto
qed

lemma delete_cli:
  assumes g: "good w" and r: "cliDelete c x n w = (r, w')"
  shows "good w' \<and> (r = None \<longrightarrow> vms w' = (vms w)(n := None))
    \<and> (\<forall>e. r = Some e \<longrightarrow> isNotFoundErr e \<longrightarrow> vms w n = None \<and> vms w' = vms w)
    \<and> (\<forall>m. m \<noteq> n \<longrightarrow> vms w' m = vms w m)"
proof -
  obtain res where c: "cliRun c x [''delete'', ''--force'', n] w = (res, w')"
    using errOf_snd [OF r [unfolded cliDelete_def]] by (elim exE)
  obtain out se e where k: "cliRunner c x (cliBin c) [''delete'', ''--force'', n] w = ((out, se, e), w')"
    using cliRun_runs [OF c] by (metis prod.collapse)
  note l = delete_cmd [OF g k]
  have "vms w' = (vms w)(n := None)" if ok: "r = None"
  proof -
    have "e = None" using r ok c k by (auto simp: cliDelete_def errOf_None cliRun_ok)
    then show ?thesis using l by auto
  qed
  moreover have "vms w n = None \<and> vms w' = vms w" if y: "r = Some y" "isNotFoundErr y" for y
  proof -
    have "cliRun c x [''delete'', ''--force'', n] w = (Inl y, w')" using r y(1) by (simp add: cliDelete_def errOf_Some)
    from cliRun_err [OF this] obtain z where "e = Some z" "isNotFound (failureText out se) \<or> isNotFoundErr z"
      using y(2) k by auto
    then have "vms w n = None" "vms w' n = None" using l cmd_error k by auto
    then show ?thesis using l by (metis ext)
  qed
  ultimately show ?thesis using l run_good_cli [OF g c] by auto
qed

lemma stop_cli:
  assumes g: "good w" and r: "cliStop c x n w = (r, w')"
  shows "good w' \<and> (r = None \<longrightarrow> (\<exists>st. st \<noteq> ''running'' \<and> vms w' = (vms w)(n \<mapsto> st)))
    \<and> (\<forall>m. m \<noteq> n \<longrightarrow> vms w' m = vms w m)"
proof -
  obtain res where c: "cliRun c x [''stop'', ''--time'', stopGraceSeconds, n] w = (res, w')"
    using errOf_snd [OF r [unfolded cliStop_def]] by (elim exE)
  obtain out se e where k: "cliRunner c x (cliBin c) [''stop'', ''--time'', stopGraceSeconds, n] w = ((out, se, e), w')"
    using cliRun_runs [OF c] by (metis prod.collapse)
  note l = stop_cmd [OF g k]
  have "\<exists>st. st \<noteq> ''running'' \<and> vms w' = (vms w)(n \<mapsto> st)" if ok: "r = None"
  proof -
    have "e = None" using r ok c k by (auto simp: cliStop_def errOf_None cliRun_ok)
    then obtain st where "vms w' n = Some st" "st \<noteq> ''running''" using l by blast
    then show ?thesis using l by (intro exI [of _ st]) auto
  qed
  then show ?thesis using l run_good_cli [OF g c] by auto
qed

lemma start_cli:
  assumes g: "good w" and r: "cliStart c x n w = (r, w')"
  shows "good w' \<and> (r = None \<longrightarrow> vms w' = (vms w)(n \<mapsto> ''running'')) \<and> (\<forall>m. m \<noteq> n \<longrightarrow> vms w' m = vms w m)"
proof -
  obtain res where c: "cliRun c x [''start'', n] w = (res, w')"
    using errOf_snd [OF r [unfolded cliStart_def]] by (elim exE)
  obtain out se e where k: "cliRunner c x (cliBin c) [''start'', n] w = ((out, se, e), w')"
    using cliRun_runs [OF c] by (metis prod.collapse)
  note l = start_cmd [OF g k]
  have "vms w' = (vms w)(n \<mapsto> ''running'')" if ok: "r = None"
  proof -
    have "e = None" using r ok c k by (auto simp: cliStart_def errOf_None cliRun_ok)
    then show ?thesis using l by auto
  qed
  then show ?thesis using l run_good_cli [OF g c] by auto
qed

lemma list_cli:
  assumes "good w" and "cliList c x a w = (r, w')"
  shows "good w' \<and> vms w' = vms w"
proof -
  define as where "as = (if a then [''--all'', ''--format'', ''json''] else [''--format'', ''json''])"
  have "cliList c x a w = mapRes ParseContainerList (cliRun c x (''ls'' # as) w)" by (simp add: cliList_def as_def)
  with assms(2) obtain res where "cliRun c x (''ls'' # as) w = (res, w')" using mapRes_snd by metis
  from reads_cli [OF assms(1) this] show ?thesis by simp
qed

lemma get_cli:
  assumes g: "good w" and r: "cliGet c x n w = (r, w')"
  shows "good w' \<and> vms w' = vms w \<and> (\<forall>y. r = Inr y \<longrightarrow> vms w n = Some (cState y))"
proof -
  obtain l where l: "cliList c x True w = (l, w')"
    using r by (auto simp: cliGet_def mapRes_def split: prod.splits sum.splits)
  have "vms w n = Some (cState y)" if y: "r = Inr y" for y
  proof -
    obtain cs where cs: "l = Inr cs" "List.find (\<lambda>x. cID x = n) cs = Some y"
      using r l y by (auto simp: cliGet_def mapRes_def split: sum.splits option.splits)
    from lists_cli [OF g l [unfolded cs(1)], of n] find_byName [OF _ cs(2)] show ?thesis by simp
  qed
  then show ?thesis using list_cli [OF g l] by blast
qed

lemma read_methods_cli:
  assumes g: "good w"
  shows "cliImageList c x w = (ri, w') \<Longrightarrow> good w' \<and> vms w' = vms w"
    and "cliImagePull c x im pf w = (r, w') \<Longrightarrow> good w' \<and> vms w' = vms w"
    and "cliCopyFrom c x n p h w = (rb, w') \<Longrightarrow> good w' \<and> vms w' = vms w"
    and "cliLogs c x n k w = (rb, w') \<Longrightarrow> good w' \<and> vms w' = vms w"
proof -
  have rd: "good w' \<and> vms w' = vms w"
    if "\<exists>res. cliRun c x (a # as) w = (res, w')" "a \<in> {''ls'', ''image'', ''cp'', ''logs''}" for a as
    using that reads_cli [OF g] by (elim exE) auto
  show "good w' \<and> vms w' = vms w" if "cliImageList c x w = (ri, w')"
    using rd [OF mapRes_snd [OF that [unfolded cliImageList_def]]] by simp
  show "good w' \<and> vms w' = vms w" if "cliImagePull c x im pf w = (r, w')"
    using rd [OF errOf_snd [OF that [unfolded cliImagePull_def append.simps]]] by simp
  show "good w' \<and> vms w' = vms w" if "cliCopyFrom c x n p h w = (rb, w')"
  proof -
    have "\<exists>res. cliRun c x [''cp'', n @ '':'' @ p, h] w = (res, w')"
      using that by (auto simp: cliCopyFrom_def split: prod.splits sum.splits)
    from rd [OF this] show ?thesis by simp
  qed
  show "good w' \<and> vms w' = vms w" if "cliLogs c x n k w = (rb, w')"
    using rd [OF exI, OF that [unfolded cliLogs_def append.simps]] by simp
qed

end

lemma cliRuntime_sel:
  "rtRun (cliRuntime c) = cliRunVM c" "rtDelete (cliRuntime c) = cliDelete c" "rtStop (cliRuntime c) = cliStop c"
  "rtStart (cliRuntime c) = cliStart c" "rtList (cliRuntime c) = cliList c" "rtGet (cliRuntime c) = cliGet c"
  "rtImageList (cliRuntime c) = cliImageList c" "rtImagePull (cliRuntime c) = cliImagePull c"
  "rtCopyFrom (cliRuntime c) = cliCopyFrom c" "rtLogs (cliRuntime c) = cliLogs c"
  by (simp_all add: cliRuntime_def)

sublocale honest_command \<subseteq> cli: vm_runtime "cliRuntime c" vms good
proof (unfold_locales, unfold cliRuntime_sel, goal_cases)
  case 1
  then show ?case using run_cli [OF 1(1,2)] by auto
next
  case 2
  then show ?case using run_cli [OF 2(1,2)] by auto
next
  case 3
  then show ?case using run_cli [OF 3(1,2)] by auto
next
  case 4
  then show ?case using delete_cli [OF 4(1,2)] by auto
next
  case 5
  then show ?case using stop_cli [OF 5(1,2)] by auto
next
  case 6
  then show ?case using start_cli [OF 6(1,2)] by auto
next
  case 7
  then show ?case using delete_cli [OF 7(1,2)] by auto
next
  case 8
  then show ?case using delete_cli [OF 8(1,2)] by auto
next
  case 9
  then show ?case using delete_cli [OF 9(1,2)] by auto
next
  case 10
  then show ?case using stop_cli [OF 10(1,2)] by auto
next
  case 11
  then show ?case using stop_cli [OF 11(1,2)] by auto
next
  case 12
  then show ?case using start_cli [OF 12(1,2)] by auto
next
  case 13
  then show ?case using start_cli [OF 13(1,2)] by auto
next
  case 14
  then show ?case using list_cli [OF 14(1,2)] by auto
next
  case 15
  then show ?case using lists_cli [OF 15(1,2)] by auto
next
  case 16
  then show ?case using get_cli [OF 16(1,2)] by auto
next
  case 17
  then show ?case using get_cli [OF 17(1,2)] by auto
next
  case 18
  then show ?case using read_methods_cli(1) by blast
next
  case 19
  then show ?case using read_methods_cli(2) by blast
next
  case 20
  then show ?case using read_methods_cli(3) by blast
next
  case 21
  then show ?case using read_methods_cli(4) by blast
qed

context honest_command
begin

lemma keeps_contract: "vm_runtime (cliRuntime c) vms good"
  by unfold_locales

end

subsection \<open>A simulated command\<close>

text \<open>
  A command that keeps its containers in a list, newest first, refuses what it does not
  understand and fails when it is killed.
\<close>

definition simCtr :: "string \<Rightarrow> Container" where
  "simCtr n = \<lparr>cID = n, cState = ''running'', cImageRef = [], cImageDigest = [], cLabels = [], cNetworks = [],
     cCPUs = 1, cMemoryBytes = 0, cCreatedAt = [], cStartedAt = []\<rparr>"

definition simExit :: "string \<Rightarrow> Container list \<Rightarrow> (string \<times> string \<times> err option) \<times> Container list" where
  "simExit msg w = (([], msg, Some (errorf ''exit status 1'' [])), w)"

definition simMark :: "string \<Rightarrow> string \<Rightarrow> Container list \<Rightarrow> Container list" where
  "simMark n st w = map (\<lambda>k. if cID k = n then k\<lparr>cState := st\<rparr> else k) w"

definition simOn :: "string \<Rightarrow> Container list \<Rightarrow> Container list \<Rightarrow> (string \<times> string \<times> err option) \<times> Container list" where
  "simOn n w w' = (if n \<in> cID ` set w then ((n, [], None), w') else simExit ''container not found'' w)"

definition simCommand :: "Container list CommandRunner" where
  "simCommand ctx bin args w =
     (if ctx then simExit ''signal: killed'' w
      else if take 1 args = [''run''] \<and> 4 \<le> length args
        then (if validUTF8 (args ! 3) = args ! 3
              then ((args ! 3, [], None), simCtr (args ! 3) # filter (\<lambda>k. cID k \<noteq> args ! 3) w)
              else simExit ''bad name'' w)
      else if take 1 args = [''delete''] then simOn (last args) w (filter (\<lambda>k. cID k \<noteq> last args) w)
      else if take 1 args = [''stop''] then simOn (last args) w (simMark (last args) ''stopped'' w)
      else if take 1 args = [''start''] then simOn (last args) w (simMark (last args) ''running'' w)
      else if args = [''ls'', ''--all'', ''--format'', ''json'']
        then ((indentJSON (listingJSON demoMembers w) @ [CHR 0x0A], [], None), w)
      else (([], [], None), w))"

definition simCLI :: "Container list CLI" where
  "simCLI = \<lparr>cliBin = ''container'', cliRunner = simCommand, cliCopied = (\<lambda>_ _. [])\<rparr>"

definition simVMs :: "Container list \<Rightarrow> string \<Rightarrow> string option" where
  "simVMs w = map_of (map (\<lambda>k. (cID k, cState k)) w)"

definition simGood :: "Container list \<Rightarrow> bool" where
  "simGood w \<longleftrightarrow> list_all listable w \<and> distinct (map cID w)"

lemma simVMs_byName:
  assumes "distinct (map cID w)"
  shows "simVMs w n = map_option cState (byName w n)"
proof -
  have "distinct (map fst (map (\<lambda>k. (cID k, k)) w))" "distinct (map fst (rev (map (\<lambda>k. (cID k, k)) w)))"
    using assms by (simp_all add: comp_def rev_map [symmetric])
  then have "map_of (rev (map (\<lambda>k. (cID k, k)) w)) = map_of (map (\<lambda>k. (cID k, k)) w)"
    by (simp add: map_of_inject_set)
  moreover have "map_of (map (\<lambda>k. (cID k, cState k)) w) n = map_option cState (map_of (map (\<lambda>k. (cID k, k)) w) n)"
    by (induction w) auto
  ultimately show ?thesis by (simp add: simVMs_def byName_def)
qed

lemma sim_remove: "simVMs (filter (\<lambda>k. cID k \<noteq> n) w) m = (if m = n then None else simVMs w m)"
  by (induction w) (auto simp: simVMs_def)

lemma sim_mark: "simVMs (simMark n st w) m = (if m = n \<and> n \<in> cID ` set w then Some st else simVMs w m)"
  by (induction w) (auto simp: simVMs_def simMark_def)

lemma sim_add: "simVMs (simCtr n # w) m = (if m = n then Some ''running'' else simVMs w m)"
  by (simp add: simVMs_def simCtr_def)

lemma sim_absent: "n \<notin> cID ` set w \<Longrightarrow> simVMs w n = None"
  by (induction w) (auto simp: simVMs_def)

lemma listable_mark: "listable k \<Longrightarrow> validUTF8 st = st \<Longrightarrow> listable (k\<lparr>cState := st\<rparr>)"
  by (simp add: listable_def)

lemma sim_good_filter: "simGood w \<Longrightarrow> simGood (filter P w)"
  by (auto simp: simGood_def list_all_iff distinct_map_filter)

lemma sim_good_mark: "simGood w \<Longrightarrow> validUTF8 st = st \<Longrightarrow> simGood (simMark n st w)"
proof -
  assume w: "simGood w" "validUTF8 st = st"
  have "cID \<circ> (\<lambda>k :: Container. if cID k = n then k\<lparr>cState := st\<rparr> else k) = cID" by auto
  then have "map cID (simMark n st w) = map cID w" by (simp only: simMark_def map_map)
  moreover have "list_all listable (simMark n st w)"
    using w listable_mark by (auto simp: simGood_def list_all_iff simMark_def)
  ultimately show ?thesis using w(1) by (simp add: simGood_def)
qed

lemma sim_good_add: "simGood w \<Longrightarrow> validUTF8 n = n \<Longrightarrow> simGood (simCtr n # filter (\<lambda>k. cID k \<noteq> n) w)"
proof -
  assume w: "simGood w" "validUTF8 n = n"
  have "listable (simCtr n)" using w(2) by (simp add: listable_def simCtr_def isInt64_def validUTF8_ascii)
  moreover have "cID (simCtr n) = n" by (simp add: simCtr_def)
  ultimately show ?thesis using sim_good_filter [OF w(1), of "\<lambda>k. cID k \<noteq> n"] by (auto simp: simGood_def)
qed

text \<open>Every command keeps the list a listing; the messages speak of missing containers only in \<open>simOn\<close>.\<close>

lemma sim_messages:
  "\<not> isNotFound (failureText [] ''signal: killed'')" "\<not> isNotFound (failureText [] ''bad name'')"
  by code_simp+

lemma simOn_good: "simGood w \<Longrightarrow> simGood w1 \<Longrightarrow> simOn n w w1 = (res, w') \<Longrightarrow> simGood w'"
  by (auto simp: simOn_def simExit_def split: if_splits)

lemma simCommand_good: "simGood w \<Longrightarrow> simCommand x b args w = (res, w') \<Longrightarrow> simGood w'"
proof -
  assume g: "simGood w" and c: "simCommand x b args w = (res, w')"
  have v: "validUTF8 ''stopped'' = ''stopped''" "validUTF8 ''running'' = ''running''" by (simp_all add: validUTF8_ascii)
  show ?thesis
    using c g unfolding simCommand_def
    by (auto simp: simExit_def intro: sim_good_add dest: simOn_good [OF g sim_good_filter [OF g]]
        simOn_good [OF g sim_good_mark [OF g v(1)]] simOn_good [OF g sim_good_mark [OF g v(2)]] split: if_split_asm)
qed

lemma simCommand_error: "simCommand x b args w = ((out, se, Some e), w') \<Longrightarrow> \<not> isNotFoundErr e"
  by (auto simp: simCommand_def simOn_def simExit_def split: if_split_asm)

interpretation sim: honest_command simCLI simVMs simGood
proof (unfold_locales, goal_cases)
  case 1
  then show ?case using simCommand_good by (simp add: simCLI_def)
next
  case 2
  then show ?case using simCommand_error by (simp add: simCLI_def)
next
  case (3 w x sp out se e w')
  then show ?case
    by (auto simp: simCLI_def simCommand_def RunArgs_def runFlags_def simExit_def sim_add sim_remove split: if_split_asm)
next
  case (4 w x n out se e w')
  then show ?case using sim_messages
    by (auto simp: simCLI_def simCommand_def simOn_def simExit_def sim_remove sim_absent split: if_split_asm)
next
  case (5 w x n out se e w')
  then show ?case
    by (auto simp: simCLI_def simCommand_def simOn_def simExit_def sim_mark split: if_split_asm)
next
  case (6 w x n out se e w')
  then show ?case
    by (auto simp: simCLI_def simCommand_def simOn_def simExit_def sim_mark split: if_split_asm)
next
  case (7 w x a as res w')
  then show ?case by (auto simp: simCLI_def simCommand_def simExit_def split: if_split_asm)
next
  case (8 w x out se w')
  have u: "unknownMembers demoMembers" by code_simp
  have o: "out = indentJSON (listingJSON demoMembers w) @ [CHR 0x0A]" "w' = w"
    using 8 by (auto simp: simCLI_def simCommand_def simExit_def split: if_split_asm)
  have "listingText demoMembers w out" by (simp add: listingText_def o)
  then show ?case using 8(1) u simVMs_byName [of w] by (intro exI [of _ demoMembers] exI [of _ w]) (simp add: simGood_def)
qed

text \<open>The CLI runtime reads the simulated command's listing back.\<close>

lemma simList: "simGood w \<Longrightarrow> cliList simCLI False True w = (Inr w, w)"
proof -
  assume "simGood w"
  moreover have "unknownMembers demoMembers" by code_simp
  ultimately have "ParseContainerList (indentJSON (listingJSON demoMembers w) @ [CHR 0x0A]) = Inr w"
    by (intro parse_listing [of demoMembers]) (auto simp: simGood_def listingText_def)
  then show ?thesis
    by (simp add: cliList_def mapRes_Inr cliRun_ok simCLI_def simCommand_def)
qed



end
