(* ===== verification/Spec2Isabelle.thy ===== *)
theory Spec2Isabelle
  imports Commands CliContract
begin

text \<open>
  A model of \<open>openshell-driver-applecontainer\<close>, the OpenShell compute driver that runs every
  sandbox as a micro virtual machine of apple/container, with the theorems that make it
  correct. Paths below are relative to \<open>src/\<close>.

  The program. The gateway talks to one driver process over a unix socket. The process keeps
  a registry of sandboxes in memory (\<open>internal/grpcsvc/service.go\<close>), one JSON record per
  sandbox on disk (\<open>internal/state\<close>), and drives the container runtime through its command
  line (\<open>internal/backend\<close>). A create validates the request, persists a record and registers
  an entry; a background task then boots the machine: image, digest pin, supervisor binary,
  seed directory, run specification (\<open>create.go\<close>, \<open>internal/seed\<close>, \<open>env.go\<close>,
  \<open>driverconfig.go\<close>, \<open>quantity.go\<close>). Stop and start (\<open>lifecycle.go\<close>) record an intent that
  survives restarts; the poller and the bootstrap (\<open>reconcile.go\<close>) keep entries, records and
  runtime consistent. Watch streams get events through bounded channels (\<open>hub.go\<close>).

  The theories, from the bottom:
  \<^item> \<open>Prelude\<close>, \<open>GoStrings\<close>, \<open>GoPath\<close>: errors as structured values (kind, format, arguments),
    association lists for Go maps that are iterated, the functions of Go's \<open>strings\<close>,
    \<open>strconv\<close>, \<open>unicode/utf8\<close> and \<open>path/filepath\<close> that the driver uses. Go strings are byte
    strings.
  \<^item> \<open>Compat\<close>: \<open>internal/compat\<close>. The order on versions is an instance of \<open>linorder\<close>.
  \<^item> \<open>ComputeApi\<close>: the messages of the generated \<open>computev1\<close> package as records, with their
    nil-safe getters.
  \<^item> \<open>Json\<close>, \<open>JsonRoundtrip\<close>, \<open>JsonAny\<close>: \<open>encoding/json\<close> as the driver uses it: the grammar as a
    lexer and a stack machine, the type-directed decoding into structs (folded keys, unknown
    members, reused slices), the encoder, the proof that texts are read back, and
    \<open>map[string]any\<close>.
  \<^item> \<open>Backend\<close>, \<open>FakeRuntime\<close>: the \<open>Runtime\<close> interface as a record of operations over a world,
    the CLI implementation over a command runner with its decoders, and the in-memory fake. What
    the driver relies on is the locale \<open>vm_runtime\<close>, interpreted on the fake.
  \<^item> \<open>Listings\<close>, \<open>CliContract\<close>: what the command prints is read back as the containers it lists;
    and on a command that does what its documentation says (the locale \<open>honest_command\<close>, with a
    simulated command as an instance) the CLI runtime keeps \<open>vm_runtime\<close>, as a \<open>sublocale\<close>.
    The theorems on delete, stop, start and orphan clean-up assume \<open>vm_runtime\<close> of the runtime,
    so they hold of the driver that ships; the last section of this theory says so for a delete.
  \<^item> \<open>StateStore\<close>: \<open>internal/state\<close> over a host file system; a save is its list of file system
    effects, so that a crash leaves a prefix of it. The contract of a record store is a locale,
    interpreted on this store.
  \<^item> \<open>Seed\<close>: \<open>internal/seed\<close>: cached extraction of the supervisor binary and the seed directory.
  \<^item> \<open>Config\<close>, \<open>Quantity\<close>, \<open>DriverConfig\<close>, \<open>SandboxEnv\<close>: what a request and the operator's
    settings are turned into.
  \<^item> \<open>Hub\<close>, \<open>Server\<close>, \<open>Provision\<close>, \<open>Lifecycle\<close>, \<open>Reconcile\<close>: conditions and channels; the
    state of the driver with validation, queries and the accepting half of a create; the boot
    pipeline and the delete; stop and start; bootstrap and poller. The state is the record
    \<open>Server\<close>: the registry maps identifiers to references into a heap of entries, as the Go
    code holds \<open>*entry\<close> values across unlocks.

  \<^item> \<open>Machine\<close>: the same handlers as continuations, cut where the code unlocks or blocks, and the
    transition system of all their interleavings with watches, changes of the runtime, crashes
    and restarts. Its invariant, termination, absence of deadlock and the fact that the
    sequential handlers are among its executions are proved here, and two races of the code.
  \<^item> \<open>Preflight\<close>: the startup checks (\<open>preflight.go\<close>) with \<open>net.ParseIP\<close>.
  \<^item> \<open>HostWiring\<close>: the texts of \<open>hostsetup.go\<close> and \<open>homebrew.go\<close>: launch agent, settings of the
    gateway service and their quoting, the managed block.
  \<^item> \<open>HostSetup\<close>, \<open>HostStatus\<close>: \<open>setup.go\<close> and \<open>status.go\<close> of \<open>internal/hostsetup\<close> over the record
    \<open>Host\<close>: files, the world of the runtime and of everything else that runs, a clock, and the
    commands issued. What setup leaves, what cleanup takes away, and that \<open>status\<close> sees both.
  \<^item> \<open>Update\<close>: \<open>update.go\<close>: a release is fetched, verified, extracted and swapped in. The
    replacement is a list of file system effects, so that it can be stopped anywhere.
  \<^item> \<open>Socket\<close>, \<open>Startup\<close>: \<open>main.go\<close>: binding, claiming and giving up the socket, and \<open>run\<close>, which
    composes configuration, store, startup checks, bootstrap, socket and shutdown; a restarted
    process continues the transition system of \<open>Machine\<close>.
  \<^item> \<open>Commands\<close>: the dispatch of \<open>main\<close>, one general flag loop (which is also \<open>config.Parse\<close>'s), the
    subcommands with their exit codes, and the log tail and follower.

  Conventions. Time is a number of milliseconds, supplied with every choice of the environment
  by an \<open>Oracle\<close> (on the host, by its clock). A context is a flag that tells whether it has been
  cancelled or has expired. A handler is cut where the code releases its lock or blocks; the
  sequential handlers compose these parts. Logging is left out. A gRPC status is its code with
  the error it was made from. A Go panic is a value of its own (\<open>None\<close>, \<open>Panics\<close>, \<open>LogsPanic\<close>).

  Bounds. No definition uses fuel: loops over time (\<open>waitUntil\<close>) are bounded by their deadline,
  parsers by the length of their input. The concurrent handlers are shown to terminate by a
  rank on their continuations.

  Not modelled: the gRPC transport and generated code beyond the messages; the process runner
  (\<open>os/exec\<close>) and what the commands it runs do, which are parameters, as are HTTP, SHA-256,
  gzip and tar, the decoders of PEM, X.509 and URLs, the \<open>float64\<close> form of a JSON number, the
  resolution of symbolic links and the marshalling of a request into a record; the ticker and the signal that drive poller and
  shutdown; the texts \<open>printUsage\<close> and \<open>--version\<close> print. Files of the host setup, the
  supervisor cache and the record store share one file system model without permissions or
  links; the socket's directory has its own, with both.
\<close>

subsection \<open>The driver that ships\<close>


text \<open>The demonstration sandbox on a driver whose runtime is the simulated command.\<close>

definition simDeps :: "Container list Deps" where
  "simDeps = \<lparr>dpCfg = dpCfg demoDeps, dpRt = cliRuntime simCLI, dpRoot = dpRoot demoDeps, dpPid = 7, dpVersion = ''dev'',
     dpEvalSymlinks = Some, dpMarshal = dpMarshal demoDeps, dpConv = dpConv demoDeps\<rparr>"

definition simServer :: "Container list Server" where
  "simServer = \<lparr>svWorld = [simCtr ''other'', simCtr (rContainerName (enRec (getE demoRunning 0)))],
     svDisk = svDisk demoRunning, svHub = svHub demoRunning, svHeap = svHeap demoRunning,
     svSandboxes = svSandboxes demoRunning, svExtractSeq = 0, svClosed = False\<rparr>"

lemma simServer_ok: "serverOk simDeps simServer"
  using demoRunning_ok by (simp add: serverOk_def registryOk_def getE_def simDeps_def simServer_def)

lemma simServer_lookup: "lookupLocked ''sb1'' [] simServer = Some 0"
  by code_simp

lemma simServer_good: "simGood (svWorld simServer)"
proof -
  have "validUTF8 (rContainerName (enRec (getE demoRunning 0))) = rContainerName (enRec (getE demoRunning 0))
      \<and> ''other'' \<noteq> rContainerName (enRec (getE demoRunning 0))" by code_simp
  then show ?thesis by (simp add: simServer_def simGood_def simCtr_def listable_def validUTF8_ascii isInt64_def)
qed

lemma simServer_deletes:
  "case DeleteSandbox simDeps demoOrc ''sb1'' [] simServer of
     (Inr b, s') \<Rightarrow> b \<and> svWorld s' = [simCtr ''other''] | (Inl _, _) \<Rightarrow> False"
  by code_simp


end
